(* ===== verification/Prelude.thy ===== *)
theory Prelude
  imports Main "HOL-Library.Signed_Division" "HOL-Library.Word"
begin

section \<open>Shared vocabulary of the development\<close>

text \<open>
  What the components of the gateway share: the named collections of proof hints, Go's
  64-bit integers (as \<open>int\<close> with the wrap-around written out), instants and durations of
  package \<open>time\<close>, the byte-string functions of package \<open>strings\<close> the code calls, run-time
  panics as values, and two generic interfaces: a machine with an invariant, and a table of
  independent cells addressed by a key.
\<close>

named_theorems cb_simps "definitions of the circuit breaker's operations"
named_theorems lb_simps "definitions of the load balancers' operations"
named_theorems rl_simps "definitions of the rate limiters' operations"

subsection \<open>Run-time panics\<close>

text \<open>
  The run-time panics the source can raise, and \<open>http.ErrAbortHandler\<close>, with which a handler
  aborts its response; an operation that can panic returns a sum.
\<close>

datatype panic =
    DivideByZero
  | IndexOutOfRange
  | SendOnClosedChannel
  | CloseOfClosedChannel
  | AbortHandler

subsection \<open>Machine integers\<close>

text \<open>
  Go's \<open>int\<close>, \<open>int64\<close> and \<open>time.Duration\<close> are 64-bit two's complement on every platform the
  gateway is built for. A value is an \<open>int\<close> in range and an operation that can leave the
  range is wrapped by \<open>i64\<close>. Division truncates towards zero (\<open>sdiv\<close>).
\<close>

definition i64 :: "int \<Rightarrow> int" where
  "i64 x = (x + 2 ^ 63) mod 2 ^ 64 - 2 ^ 63"

definition in_i64 :: "int \<Rightarrow> bool" where
  "in_i64 x \<longleftrightarrow> - (2 ^ 63) \<le> x \<and> x < 2 ^ 63"

lemma i64_id [simp]: "in_i64 x \<Longrightarrow> i64 x = x"
  by (simp add: i64_def in_i64_def)

lemma in_i64_i64 [simp]: "in_i64 (i64 x)"
proof -
  have "0 \<le> (x + 2 ^ 63) mod 2 ^ 64" and "(x + 2 ^ 63) mod 2 ^ 64 < 2 ^ 64"
    by simp_all
  then show ?thesis by (simp add: i64_def in_i64_def)
qed

lemma in_i64_between: "in_i64 a \<Longrightarrow> in_i64 b \<Longrightarrow> a \<le> x \<Longrightarrow> x \<le> b \<Longrightarrow> in_i64 x"
  by (auto simp: in_i64_def)

lemma i64_small: "0 \<le> x \<Longrightarrow> x < 2 ^ 63 \<Longrightarrow> i64 x = x"
  by (simp add: in_i64_def)

lemma i64_incr: "0 \<le> x \<Longrightarrow> x < y \<Longrightarrow> in_i64 y \<Longrightarrow> i64 (x + 1) = x + 1"
  by (rule i64_id) (auto simp: in_i64_def)

lemma sdiv_nonneg: "0 \<le> a \<Longrightarrow> 0 \<le> b \<Longrightarrow> a sdiv b = a div (b::int)"
  by (cases "a = 0"; cases "b = 0") (simp_all add: signed_divide_int_def)

lemma smod_nonneg: "0 \<le> a \<Longrightarrow> 0 \<le> b \<Longrightarrow> a smod b = a mod (b::int)"
  by (cases "a = 0") (simp_all add: signed_modulo_int_def)

lemma le_div_iff: "0 < n \<Longrightarrow> k \<le> a div n \<longleftrightarrow> k * n \<le> (a::int)"
proof
  assume n: "0 < n" and "k \<le> a div n"
  then have "k * n \<le> (a div n) * n" by (simp add: mult_right_mono)
  also have "\<dots> \<le> a" using n by (simp add: minus_mod_eq_div_mult [symmetric])
  finally show "k * n \<le> a" .
next
  assume n: "0 < n" and "k * n \<le> a"
  then have "(k * n) div n \<le> a div n" by (intro zdiv_mono1)
  with n show "k \<le> a div n" by simp
qed

subsection \<open>Instants and durations\<close>

text \<open>
  An instant (\<open>time.Time\<close>) is the number of nanoseconds since Go's zero time, a duration a
  64-bit number of nanoseconds. \<open>Time.Sub\<close> and \<open>time.Since\<close> saturate at the ends of the
  range; multiplying a number of seconds by \<open>time.Second\<close> wraps. The clock is an input:
  every call of \<open>time.Now\<close> is an argument of the operation that makes it.
\<close>

type_synonym time = int
type_synonym duration = int

definition zeroTime :: time where
  "zeroTime = 0"

definition sat64 :: "int \<Rightarrow> int" where
  "sat64 x = (if x < - (2 ^ 63) then - (2 ^ 63) else if 2 ^ 63 - 1 < x then 2 ^ 63 - 1 else x)"

definition time_Sub :: "time \<Rightarrow> time \<Rightarrow> duration" where
  "time_Sub t u = sat64 (t - u)"

definition time_Second :: duration where
  "time_Second = 1000000000"

definition secondsToDuration :: "int \<Rightarrow> duration" where
  "secondsToDuration n = i64 (n * time_Second)"

lemma sat64_id [simp]: "in_i64 x \<Longrightarrow> sat64 x = x"
  by (auto simp: sat64_def in_i64_def)

lemma in_i64_sat64 [simp]: "in_i64 (sat64 x)"
  by (simp add: sat64_def in_i64_def)

lemma sat64_mono: "x \<le> y \<Longrightarrow> sat64 x \<le> sat64 y"
  by (simp add: sat64_def)

lemma sat64_greater: "in_i64 d \<Longrightarrow> d < 2 ^ 63 - 1 \<Longrightarrow> d < sat64 x \<longleftrightarrow> d < x"
  by (auto simp: sat64_def in_i64_def)

lemma time_Sub_id: "in_i64 (t - u) \<Longrightarrow> time_Sub t u = t - u"
  by (simp add: time_Sub_def)

subsection \<open>Scanning a slice from the front\<close>

text \<open>
  The loop \<open>i := 0; for i < len(xs) && p(xs[i]) { i++ }\<close>: the number of leading elements
  that satisfy \<open>p\<close>. Both users of it keep \<open>xs[i:]\<close>.
\<close>

fun scan :: "('a \<Rightarrow> bool) \<Rightarrow> 'a list \<Rightarrow> nat" where
  "scan p [] = 0"
| "scan p (x # xs) = (if p x then Suc (scan p xs) else 0)"

lemma drop_scan: "drop (scan p xs) xs = dropWhile p xs"
  by (induction xs) auto

lemma dropWhile_sorted_filter:
  "sorted_wrt (\<lambda>x y. f x \<le> f y) xs \<Longrightarrow> dropWhile (\<lambda>x. f x < (c::'b::linorder)) xs = filter (\<lambda>x. c \<le> f x) xs"
proof (induction xs)
  case Nil
  then show ?case by simp
next
  case (Cons x xs)
  show ?case
  proof (cases "f x < c")
    case True
    with Cons show ?thesis by (simp add: not_le)
  next
    case False
    with Cons.prems have "\<forall>y \<in> set xs. c \<le> f y"
      by (auto simp: not_less intro: order_trans)
    with False show ?thesis by simp
  qed
qed

lemma map_update_same:
  assumes "f y = f (xs ! j)"
  shows "map f (xs[j := y]) = map f xs"
proof (cases "j < length xs")
  case True
  with assms show ?thesis by (metis map_update list_update_id nth_map)
next
  case False
  then show ?thesis by (simp add: list_update_beyond)
qed

lemma sorted_wrt_dropWhile: "sorted_wrt P xs \<Longrightarrow> sorted_wrt P (dropWhile Q xs)"
  by (induction xs) auto

lemma length_dropWhile_snoc: "\<not> p x \<Longrightarrow> dropWhile p (xs @ [x]) = dropWhile p xs @ [x]"
  by (induction xs) auto

subsection \<open>Periodic sequences and counting\<close>

lemma map_upt_periodic:
  assumes "\<And>i. f (i + n) = f i"
  shows "map f [0..<k * n] = concat (replicate k (map f [0..<n]))"
proof (induction k)
  case 0
  then show ?case by simp
next
  case (Suc k)
  have shift: "f (i + k * n) = f i" for i k
  proof (induction k)
    case (Suc k)
    have "f (i + Suc k * n) = f ((i + k * n) + n)" by (simp add: add_ac)
    with Suc assms show ?case by simp
  qed simp
  have "map f [k * n..<k * n + n] = map f [0..<n]"
    by (rule nth_equalityI) (simp_all add: shift add.commute [of "k * n"])
  moreover have "[0..<Suc k * n] = [0..<k * n] @ [k * n..<k * n + n]"
    using upt_add_eq_append [of 0 "k * n" n] by (simp add: add.commute)
  ultimately show ?case
    using Suc by (simp add: replicate_append_same [symmetric] del: replicate_append_same replicate_Suc add: replicate_Suc [of k])
qed

lemma rotate_as_map: "map (\<lambda>i. xs ! ((c + i) mod length xs)) [0..<length xs] = rotate c xs"
  by (rule nth_equalityI) (simp_all add: nth_rotate)

lemma sum_count_list: "set ps \<subseteq> A \<Longrightarrow> finite A \<Longrightarrow> (\<Sum>a\<in>A. count_list ps a) = length ps"
  using sum_count_set by metis

subsection \<open>Runs of a machine that may panic\<close>

text \<open>
  A run of a component over a list of events; a panic ends it. The interface \<open>machine\<close> is
  what every stateful component promises: an invariant under which no event panics and which
  every event keeps. The consequence for runs is proved once, here.
\<close>

fun run_steps :: "('s \<Rightarrow> 'e \<Rightarrow> 'x + 's) \<Rightarrow> 's \<Rightarrow> 'e list \<Rightarrow> 'x + 's" where
  "run_steps step s [] = Inr s"
| "run_steps step s (e # es) =
     (case step s e of Inl x \<Rightarrow> Inl x | Inr s' \<Rightarrow> run_steps step s' es)"

lemma run_steps_append:
  "run_steps step s (es @ fs) =
     (case run_steps step s es of Inl x \<Rightarrow> Inl x | Inr s' \<Rightarrow> run_steps step s' fs)"
  by (induction es arbitrary: s) (auto split: sum.splits)

locale machine =
  fixes step :: "'s \<Rightarrow> 'e \<Rightarrow> 'x + 's"
    and inv :: "'s \<Rightarrow> bool"
  assumes step_ok: "inv s \<Longrightarrow> \<exists>s'. step s e = Inr s' \<and> inv s'"
begin

lemma run_ok: "inv s \<Longrightarrow> \<exists>s'. run_steps step s es = Inr s' \<and> inv s'"
proof (induction es arbitrary: s)
  case Nil
  then show ?case by simp
next
  case (Cons e es)
  from step_ok [OF Cons.prems] obtain s' where "step s e = Inr s'" and "inv s'"
    by blast
  with Cons.IH show ?case by simp
qed

lemma run_inv: "inv s \<Longrightarrow> run_steps step s es = Inr s' \<Longrightarrow> inv s'"
  using run_ok [of s es] by auto

end

end
