(* ===== verification/Http.thy ===== *)
theory Http
  imports Prelude
begin

section \<open>Requests and headers\<close>

text \<open>
  What the gateway uses of \<open>net/http\<close>'s request side. Strings are byte strings. A header maps
  canonical keys to lists of values; \<open>Get\<close>, \<open>Set\<close> and \<open>Del\<close> canonicalise the key they are
  given as \<open>net/textproto\<close> does.
\<close>

type_synonym header = "string \<Rightarrow> string list option"

definition byte_of :: "char \<Rightarrow> nat" where
  "byte_of c = of_char c"

definition isLowerByte :: "char \<Rightarrow> bool" where
  "isLowerByte c \<longleftrightarrow> 97 \<le> byte_of c \<and> byte_of c \<le> 122"

definition isUpperByte :: "char \<Rightarrow> bool" where
  "isUpperByte c \<longleftrightarrow> 65 \<le> byte_of c \<and> byte_of c \<le> 90"

definition isDigitByte :: "char \<Rightarrow> bool" where
  "isDigitByte c \<longleftrightarrow> 48 \<le> byte_of c \<and> byte_of c \<le> 57"

definition toUpperByte :: "char \<Rightarrow> char" where
  "toUpperByte c = (if isLowerByte c then char_of (byte_of c - 32) else c)"

definition toLowerByte :: "char \<Rightarrow> char" where
  "toLowerByte c = (if isUpperByte c then char_of (byte_of c + 32) else c)"

definition validHeaderFieldByte :: "char \<Rightarrow> bool" where
  "validHeaderFieldByte c \<longleftrightarrow> isLowerByte c \<or> isUpperByte c \<or> isDigitByte c \<or>
     byte_of c \<in> set [33, 35, 36, 37, 38, 39, 42, 43, 45, 46, 94, 95, 96, 124, 126]"

fun canonBytes :: "bool \<Rightarrow> string \<Rightarrow> string" where
  "canonBytes upper [] = []"
| "canonBytes upper (c # cs) =
     (let c' = (if upper then toUpperByte c else toLowerByte c)
      in c' # canonBytes (c' = CHR ''-'') cs)"

definition canonicalKey :: "string \<Rightarrow> string" where
  "canonicalKey s = (if list_all validHeaderFieldByte s then canonBytes True s else s)"

definition header_Get :: "header \<Rightarrow> string \<Rightarrow> string" where
  "header_Get h k =
     (case h (canonicalKey k) of
        None \<Rightarrow> ''''
      | Some [] \<Rightarrow> ''''
      | Some (v # vs) \<Rightarrow> v)"

definition header_Set :: "header \<Rightarrow> string \<Rightarrow> string \<Rightarrow> header" where
  "header_Set h k v = h(canonicalKey k \<mapsto> [v])"

definition header_Del :: "header \<Rightarrow> string \<Rightarrow> header" where
  "header_Del h k = h(canonicalKey k := None)"

record request =
  r_Method :: string
  r_URLScheme :: string
  r_URLHost :: string
  r_Path :: string
  r_Host :: string
  r_RemoteAddr :: string
  r_TLS :: bool
  r_Header :: header

subsection \<open>Header laws\<close>

text \<open>The canonical forms of the keys the gateway uses.\<close>

lemma canonical_keys [simp]:
  "canonicalKey ''X-Forwarded-For'' = ''X-Forwarded-For''"
  "canonicalKey ''X-Real-IP'' = ''X-Real-Ip''"
  "canonicalKey ''X-API-Key'' = ''X-Api-Key''"
  "canonicalKey ''X-User-ID'' = ''X-User-Id''"
  "canonicalKey ''X-Request-ID'' = ''X-Request-Id''"
  "canonicalKey ''X-Trace-ID'' = ''X-Trace-Id''"
  "canonicalKey ''X-Span-ID'' = ''X-Span-Id''"
  "canonicalKey ''traceparent'' = ''Traceparent''"
  "canonicalKey ''Authorization'' = ''Authorization''"
  "canonicalKey ''X-Forwarded-Host'' = ''X-Forwarded-Host''"
  "canonicalKey ''X-Forwarded-Proto'' = ''X-Forwarded-Proto''"
  "canonicalKey ''X-Gateway-Backend'' = ''X-Gateway-Backend''"
  "canonicalKey ''Retry-After'' = ''Retry-After''"
  "canonicalKey ''X-RateLimit-Reset'' = ''X-Ratelimit-Reset''"
  "canonicalKey ''Content-Type'' = ''Content-Type''"
  "canonicalKey ''Content-Length'' = ''Content-Length''"
  "canonicalKey ''X-Content-Type-Options'' = ''X-Content-Type-Options''"
  "canonicalKey ''User-Agent'' = ''User-Agent''"
  by code_simp+

lemma Get_Set [simp]:
  "header_Get (header_Set h k v) k' =
     (if canonicalKey k' = canonicalKey k then v else header_Get h k')"
  by (simp add: header_Get_def header_Set_def)

lemma Get_Del [simp]:
  "header_Get (header_Del h k) k' =
     (if canonicalKey k' = canonicalKey k then '''' else header_Get h k')"
  by (simp add: header_Get_def header_Del_def)

lemma Get_empty [simp]: "header_Get Map.empty k = ''''"
  by (simp add: header_Get_def)

end
