(* ===== verification/Config.thy ===== *)
theory Config
  imports Http
begin

section \<open>Package config: the configuration\<close>

text \<open>
  The structs of \<open>internal/config/config.go\<close>. A pointer field that may be nil
  (\<open>RateLimit\<close>, \<open>CircuitBreaker\<close>) is an option. Field names keep the source's, with the
  struct's initials in front, because Isabelle's record fields share one name space.
\<close>

record CircuitBreakerConfig =
  cbc_FailureThreshold :: int
  cbc_MinRequests :: int
  cbc_OpenDurationSeconds :: int
  cbc_HalfOpenRequests :: int

record RateLimitConfig =
  rlc_Algorithm :: string
  rlc_Rate :: int
  rlc_Burst :: int
  rlc_Window :: string
  rlc_KeyBy :: string
  rlc_RedisURL :: string

record BackendConfig =
  bc_URL :: string
  bc_Weight :: int

record RouteConfig =
  rc_PathPrefix :: string
  rc_Backends :: "BackendConfig list"
  rc_LBAlgorithm :: string
  rc_RateLimit :: "RateLimitConfig option"
  rc_CircuitBreaker :: "CircuitBreakerConfig option"
  rc_TimeoutSeconds :: int
  rc_StripPrefix :: bool

record ServerConfig =
  sc_Addr :: string
  sc_ReadTimeoutSeconds :: int
  sc_WriteTimeoutSeconds :: int

record AdminConfig =
  ac_Addr :: string

record LoggingConfig =
  lc_Level :: string
  lc_Format :: string

record AuthConfig =
  au_Enabled :: bool
  au_JWKSURL :: string
  au_PublicKeyPath :: string
  au_SkipPaths :: "string list"

record TracingConfig =
  tc_Enabled :: bool
  tc_Exporter :: string
  tc_ServiceName :: string

record Config =
  cfg_Server :: ServerConfig
  cfg_Admin :: AdminConfig
  cfg_Routes :: "RouteConfig list"
  cfg_Logging :: LoggingConfig
  cfg_Auth :: AuthConfig
  cfg_Tracing :: TracingConfig

subsection \<open>Validation\<close>

datatype validate_error =
    PathPrefixRequired nat
  | BackendRequired string
  | AuthKeyRequired

definition weightDefault :: "BackendConfig \<Rightarrow> BackendConfig" where
  "weightDefault b = (if bc_Weight b = 0 then b\<lparr>bc_Weight := 1\<rparr> else b)"

definition routeDefaults :: "RouteConfig \<Rightarrow> RouteConfig" where
  "routeDefaults r =
     (let r1 = r\<lparr>rc_Backends := map weightDefault (rc_Backends r)\<rparr>;
          r2 = (if rc_LBAlgorithm r1 = [] then r1\<lparr>rc_LBAlgorithm := ''round_robin''\<rparr> else r1)
      in if rc_TimeoutSeconds r2 = 0 then r2\<lparr>rc_TimeoutSeconds := 30\<rparr> else r2)"

text \<open>The loop over the routes from index \<open>i\<close>; an error leaves the routes after it untouched.\<close>

fun validateRoutes :: "nat \<Rightarrow> RouteConfig list \<Rightarrow> RouteConfig list \<times> validate_error option" where
  "validateRoutes i [] = ([], None)"
| "validateRoutes i (r # rs) =
     (if rc_PathPrefix r = [] then (r # rs, Some (PathPrefixRequired i))
      else if rc_Backends r = [] then (r # rs, Some (BackendRequired (rc_PathPrefix r)))
      else (let (rs', e) = validateRoutes (Suc i) rs in (routeDefaults r # rs', e)))"

definition serverDefaults :: "Config \<Rightarrow> Config" where
  "serverDefaults cfg =
     (let s = cfg_Server cfg;
          s1 = (if sc_Addr s = [] then s\<lparr>sc_Addr := '':8080''\<rparr> else s);
          a = cfg_Admin cfg;
          a1 = (if ac_Addr a = [] then a\<lparr>ac_Addr := '':9090''\<rparr> else a);
          s2 = (if sc_ReadTimeoutSeconds s1 = 0 then s1\<lparr>sc_ReadTimeoutSeconds := 30\<rparr> else s1);
          s3 = (if sc_WriteTimeoutSeconds s2 = 0 then s2\<lparr>sc_WriteTimeoutSeconds := 30\<rparr> else s2)
      in cfg\<lparr>cfg_Server := s3, cfg_Admin := a1\<rparr>)"

definition tracingDefaults :: "TracingConfig \<Rightarrow> TracingConfig" where
  "tracingDefaults t =
     (if \<not> tc_Enabled t then t
      else (let t1 = (if tc_ServiceName t = [] then t\<lparr>tc_ServiceName := ''gateway-pro''\<rparr> else t)
            in if tc_Exporter t1 = [] then t1\<lparr>tc_Exporter := ''stdout''\<rparr> else t1))"

text \<open>\<open>validate\<close> fills defaults in place: the configuration as it leaves it, and its error.\<close>

definition validate :: "Config \<Rightarrow> Config \<times> validate_error option" where
  "validate cfg =
     (let cfg1 = serverDefaults cfg;
          (rs, e) = validateRoutes 0 (cfg_Routes cfg1);
          cfg2 = cfg1\<lparr>cfg_Routes := rs\<rparr>
      in case e of
           Some err \<Rightarrow> (cfg2, Some err)
         | None \<Rightarrow>
             if au_Enabled (cfg_Auth cfg2) \<and> au_JWKSURL (cfg_Auth cfg2) = [] \<and> au_PublicKeyPath (cfg_Auth cfg2) = []
             then (cfg2, Some AuthKeyRequired)
             else (cfg2\<lparr>cfg_Tracing := tracingDefaults (cfg_Tracing cfg2)\<rparr>, None))"

subsection \<open>Loading\<close>

text \<open>\<open>os.ExpandEnv\<close>: the names after a dollar sign are replaced by the environment's values.\<close>

definition isShellSpecialVar :: "char \<Rightarrow> bool" where
  "isShellSpecialVar c \<longleftrightarrow> c \<in> set ''*#$@!?-0123456789''"

definition isAlphaNum :: "char \<Rightarrow> bool" where
  "isAlphaNum c \<longleftrightarrow> c = CHR ''_'' \<or> isDigitByte c \<or> isLowerByte c \<or> isUpperByte c"

text \<open>The name at the front of a non-empty string and the number of bytes it takes.\<close>

definition getShellName :: "string \<Rightarrow> string \<times> nat" where
  "getShellName s =
     (if hd s = CHR ''{''
      then if 2 < length s \<and> isShellSpecialVar (s ! 1) \<and> s ! 2 = CHR ''}'' then ([s ! 1], 3)
           else (let i = Suc (scan (\<lambda>c. c \<noteq> CHR ''}'') (tl s))
                 in if i < length s then (if i = 1 then ([], 2) else (drop 1 (take i s), i + 1))
                    else ([], 1))
      else if isShellSpecialVar (hd s) then ([hd s], 1)
      else (let i = scan isAlphaNum s in (take i s, i)))"

function os_Expand :: "(string \<Rightarrow> string) \<Rightarrow> string \<Rightarrow> string" where
  "os_Expand getenv [] = []"
| "os_Expand getenv (c # cs) =
     (if c = CHR ''$'' \<and> cs \<noteq> []
      then (case getShellName cs of
              (name, w) \<Rightarrow>
                (if name = [] \<and> 0 < w then [] else if name = [] then [c] else getenv name) @
                os_Expand getenv (drop w cs))
      else c # os_Expand getenv cs)"
  by pat_completeness auto
termination by (relation "measure (\<lambda>(g, s). length s)") auto

datatype load_error =
    ReadConfig string
  | ParseConfig
  | InvalidConfig validate_error

text \<open>\<open>readFile\<close> and \<open>getenv\<close> are the operating system, \<open>unmarshal\<close> the YAML library.\<close>

definition load :: "(string \<Rightarrow> string option) \<Rightarrow> (string \<Rightarrow> string) \<Rightarrow> (string \<Rightarrow> Config option) \<Rightarrow> string \<Rightarrow> load_error + Config" where
  "load readFile getenv unmarshal path =
     (case readFile path of
        None \<Rightarrow> Inl (ReadConfig path)
      | Some data \<Rightarrow>
          (case unmarshal (os_Expand getenv data) of
             None \<Rightarrow> Inl ParseConfig
           | Some cfg \<Rightarrow>
               (case validate cfg of
                  (cfg', Some e) \<Rightarrow> Inl (InvalidConfig e)
                | (cfg', None) \<Rightarrow> Inr cfg')))"

subsection \<open>What validation establishes\<close>

definition route_valid :: "RouteConfig \<Rightarrow> bool" where
  "route_valid r \<longleftrightarrow> rc_PathPrefix r \<noteq> [] \<and> rc_Backends r \<noteq> []"

definition route_normal :: "RouteConfig \<Rightarrow> bool" where
  "route_normal r \<longleftrightarrow> route_valid r \<and> list_all (\<lambda>b. bc_Weight b \<noteq> 0) (rc_Backends r) \<and>
     rc_LBAlgorithm r \<noteq> [] \<and> rc_TimeoutSeconds r \<noteq> 0"

definition auth_valid :: "AuthConfig \<Rightarrow> bool" where
  "auth_valid a \<longleftrightarrow> \<not> au_Enabled a \<or> au_JWKSURL a \<noteq> [] \<or> au_PublicKeyPath a \<noteq> []"

text \<open>What the rest of the gateway may assume of a configuration that was loaded.\<close>

definition config_normal :: "Config \<Rightarrow> bool" where
  "config_normal cfg \<longleftrightarrow>
     sc_Addr (cfg_Server cfg) \<noteq> [] \<and> ac_Addr (cfg_Admin cfg) \<noteq> [] \<and>
     sc_ReadTimeoutSeconds (cfg_Server cfg) \<noteq> 0 \<and> sc_WriteTimeoutSeconds (cfg_Server cfg) \<noteq> 0 \<and>
     list_all route_normal (cfg_Routes cfg) \<and> auth_valid (cfg_Auth cfg) \<and>
     (\<not> tc_Enabled (cfg_Tracing cfg) \<or> tc_ServiceName (cfg_Tracing cfg) \<noteq> [] \<and> tc_Exporter (cfg_Tracing cfg) \<noteq> [])"

lemma weightDefault_nz [simp]: "bc_Weight (weightDefault b) \<noteq> 0"
  by (simp add: weightDefault_def)

lemma weightDefault_id: "bc_Weight b \<noteq> 0 \<Longrightarrow> weightDefault b = b"
  by (simp add: weightDefault_def)

lemma routeDefaults_normal: "route_valid r \<Longrightarrow> route_normal (routeDefaults r)"
  by (simp add: route_valid_def route_normal_def routeDefaults_def Let_def list_all_iff)

lemma routeDefaults_id: "route_normal r \<Longrightarrow> routeDefaults r = r"
proof -
  assume r: "route_normal r"
  then have "map weightDefault (rc_Backends r) = rc_Backends r"
    by (simp add: route_normal_def list_all_iff weightDefault_id map_idI)
  with r show ?thesis by (simp add: routeDefaults_def route_normal_def)
qed

lemma validateRoutes_ok:
  "snd (validateRoutes i rs) = None \<longleftrightarrow> list_all route_valid rs"
  by (induction rs arbitrary: i) (auto simp: route_valid_def case_prod_beta)

lemma validateRoutes_result:
  "snd (validateRoutes i rs) = None \<Longrightarrow> fst (validateRoutes i rs) = map routeDefaults rs"
  by (induction rs arbitrary: i) (auto simp: case_prod_beta split: if_splits)

lemma validate_Some: "validate cfg = (cfg', None) \<longleftrightarrow>
    list_all route_valid (cfg_Routes cfg) \<and> auth_valid (cfg_Auth cfg) \<and>
    cfg' = (serverDefaults cfg)\<lparr>cfg_Routes := map routeDefaults (cfg_Routes cfg),
      cfg_Tracing := tracingDefaults (cfg_Tracing cfg)\<rparr>"
proof -
  have same: "cfg_Routes (serverDefaults cfg) = cfg_Routes cfg" "cfg_Auth (serverDefaults cfg) = cfg_Auth cfg"
      "cfg_Tracing (serverDefaults cfg) = cfg_Tracing cfg"
    by (simp_all add: serverDefaults_def Let_def)
  show ?thesis
    using validateRoutes_ok [of 0 "cfg_Routes cfg"] validateRoutes_result [of 0 "cfg_Routes cfg"]
    by (auto simp: validate_def same Let_def case_prod_beta auth_valid_def split: option.splits)
qed

lemma load_normal_cfg:
  assumes "load readFile getenv unmarshal path = Inr cfg"
  shows "config_normal cfg" and "validate cfg = (cfg, None)"
proof -
  obtain cfg0 where v: "validate cfg0 = (cfg, None)"
    using assms by (auto simp: load_def split: option.splits prod.splits)
  then have n: "list_all route_valid (cfg_Routes cfg0)" "auth_valid (cfg_Auth cfg0)"
      "cfg = (serverDefaults cfg0)\<lparr>cfg_Routes := map routeDefaults (cfg_Routes cfg0),
        cfg_Tracing := tracingDefaults (cfg_Tracing cfg0)\<rparr>"
    by (simp_all add: validate_Some)
  then have routes: "list_all route_normal (cfg_Routes cfg)"
    by (auto simp: list_all_iff routeDefaults_normal)
  then have normal: "config_normal cfg"
    using n(2) by (auto simp: config_normal_def n(3) serverDefaults_def tracingDefaults_def Let_def)
  have "list_all route_valid (cfg_Routes cfg)" "map routeDefaults (cfg_Routes cfg) = cfg_Routes cfg"
    using routes by (auto simp: list_all_iff route_normal_def routeDefaults_id map_idI)
  moreover have "serverDefaults cfg = cfg" "tracingDefaults (cfg_Tracing cfg) = cfg_Tracing cfg"
    using normal by (auto simp: config_normal_def serverDefaults_def tracingDefaults_def Let_def)
  ultimately have "validate cfg = (cfg, None)"
    using normal by (simp add: validate_Some config_normal_def)
  with normal show "config_normal cfg" "validate cfg = (cfg, None)" by simp_all
qed

text \<open>
  C19. A configuration that loads is one the gateway can rely on: addresses and timeouts are set,
  every route has a prefix, a balancing algorithm and at least one backend, no weight is zero,
  enabled authentication names a key source. Validating it again accepts it and changes nothing.
\<close>

theorem load_normal:
  assumes "load readFile getenv unmarshal path = Inr cfg"
  shows "config_normal cfg \<and> validate cfg = (cfg, None)"
  using load_normal_cfg [OF assms] by blast

definition example_config :: Config where
  "example_config = \<lparr>cfg_Server = \<lparr>sc_Addr = [], sc_ReadTimeoutSeconds = 0, sc_WriteTimeoutSeconds = 0\<rparr>,
     cfg_Admin = \<lparr>ac_Addr = []\<rparr>,
     cfg_Routes = [\<lparr>rc_PathPrefix = ''/api'', rc_Backends = [\<lparr>bc_URL = ''http://a'', bc_Weight = 0\<rparr>],
       rc_LBAlgorithm = [], rc_RateLimit = None, rc_CircuitBreaker = None, rc_TimeoutSeconds = 0, rc_StripPrefix = False\<rparr>],
     cfg_Logging = \<lparr>lc_Level = [], lc_Format = []\<rparr>,
     cfg_Auth = \<lparr>au_Enabled = False, au_JWKSURL = [], au_PublicKeyPath = [], au_SkipPaths = []\<rparr>,
     cfg_Tracing = \<lparr>tc_Enabled = True, tc_Exporter = [], tc_ServiceName = []\<rparr>\<rparr>"

theorem load_normal_witness:
  "config_normal (fst (validate example_config))"
proof -
  have "load (\<lambda>p. Some ''x'') (\<lambda>v. []) (\<lambda>s. Some example_config) ''gateway.yaml'' = Inr (fst (validate example_config))"
    by (simp add: load_def validate_def example_config_def serverDefaults_def Let_def)
  from load_normal [OF this] show ?thesis by blast
qed

definition first_bad :: "(RouteConfig \<Rightarrow> bool) \<Rightarrow> RouteConfig list \<Rightarrow> nat option" where
  "first_bad ok rs = (let i = scan ok rs in if i < length rs then Some i else None)"

lemma validateRoutes_first:
  "snd (validateRoutes k rs) =
     (case first_bad route_valid rs of
        None \<Rightarrow> None
      | Some i \<Rightarrow> Some (if rc_PathPrefix (rs ! i) = [] then PathPrefixRequired (k + i)
                         else BackendRequired (rc_PathPrefix (rs ! i))))"
  by (induction rs arbitrary: k) (auto simp: first_bad_def route_valid_def case_prod_beta Let_def split: option.splits)

text \<open>
  C37. Validation reports the first route that is wrong, and what is wrong with it: a missing
  prefix with its index, otherwise missing backends with its prefix. The authentication section
  is only looked at when all routes are right; nothing else is ever an error.
\<close>

theorem validate_first_error:
  "snd (validate cfg) =
     (case first_bad route_valid (cfg_Routes cfg) of
        Some i \<Rightarrow> Some (if rc_PathPrefix (cfg_Routes cfg ! i) = [] then PathPrefixRequired i
                         else BackendRequired (rc_PathPrefix (cfg_Routes cfg ! i)))
      | None \<Rightarrow> if auth_valid (cfg_Auth cfg) then None else Some AuthKeyRequired)"
proof -
  have "cfg_Routes (serverDefaults cfg) = cfg_Routes cfg" "cfg_Auth (serverDefaults cfg) = cfg_Auth cfg"
    by (simp_all add: serverDefaults_def Let_def)
  then show ?thesis
    using validateRoutes_first [of 0 "cfg_Routes cfg"]
    by (auto simp: validate_def Let_def case_prod_beta auth_valid_def split: option.splits)
qed

lemma os_Expand_plain: "CHR ''$'' \<notin> set s \<Longrightarrow> os_Expand getenv (s @ t) = s @ os_Expand getenv t"
  by (induction s) auto

lemma scan_until: "c \<notin> set s \<Longrightarrow> scan (\<lambda>x. x \<noteq> c) (s @ c # t) = length s"
  by (induction s) auto

text \<open>
  Environment references are replaced and everything else is kept: text without a dollar sign
  reaches the parser unchanged, and a reference in braces is replaced by the variable's value,
  which is not expanded again.
\<close>

theorem expand_reference:
  assumes "CHR ''$'' \<notin> set pre" and "name \<noteq> []" and "CHR ''}'' \<notin> set name"
  shows "os_Expand getenv (pre @ ''${'' @ name @ ''}'' @ post) = pre @ getenv name @ os_Expand getenv post \<and>
    os_Expand getenv pre = pre"
proof -
  let ?s = "CHR ''{'' # name @ CHR ''}'' # post"
  have "getShellName ?s = (name, length name + 2)"
  proof (cases "2 < length ?s \<and> isShellSpecialVar (?s ! 1) \<and> ?s ! 2 = CHR ''}''")
    case True
    obtain c n where name: "name = c # n" using assms(2) by (cases name) auto
    with True assms(3) have "n = []" by (cases n) (auto simp: numeral_2_eq_2)
    with name True show ?thesis by (simp add: getShellName_def)
  next
    case False
    have "scan (\<lambda>c. c \<noteq> CHR ''}'') (name @ CHR ''}'' # post) = length name" by (rule scan_until [OF assms(3)])
    with False assms(2) show ?thesis by (auto simp: getShellName_def Let_def)
  qed
  then have "os_Expand getenv (''${'' @ name @ ''}'' @ post) = getenv name @ os_Expand getenv post"
    using assms(2) by simp
  then show ?thesis using os_Expand_plain [OF assms(1)] os_Expand_plain [OF assms(1), of getenv "[]"] by simp
qed

theorem expand_reference_witness:
  "os_Expand (\<lambda>v. if v = ''HOST'' then ''db:$1'' else []) ''url: ${HOST}/x'' = ''url: db:$1/x''"
  using expand_reference [of "''url: ''" "''HOST''" "\<lambda>v. if v = ''HOST'' then ''db:$1'' else []" "''/x''"] by simp

end
