(* ===== verification/LoadBalancer.thy ===== *)
theory LoadBalancer
  imports Config Http
begin

section \<open>Package loadbalancer: backends and balancing strategies\<close>

text \<open>
  \<open>internal/loadbalancer/loadbalancer.go\<close>. A \<open>*Backend\<close> is shared by balancers, health
  checkers and requests in flight and is mutated through every alias, so backends live in an
  explicit store and a pointer is an address: an index into the store, which only grows. The
  four balancers are records of their own; \<open>balancer\<close> is the value behind the interface. A
  \<open>Next\<close> call is one atomic step.
\<close>

subsection \<open>Backends and their store\<close>

datatype lb_error = ErrNoHealthyBackend

record Backend =
  be_URL :: string
  be_Weight :: int
  be_alive :: bool
  be_inflight :: int

type_synonym addr = nat
type_synonym store = "Backend list"

definition be_IsAlive :: "store \<Rightarrow> addr \<Rightarrow> bool" where
  "be_IsAlive st a = be_alive (st ! a)"

definition be_SetAlive :: "store \<Rightarrow> addr \<Rightarrow> bool \<Rightarrow> store" where
  "be_SetAlive st a v = st[a := (st ! a)\<lparr>be_alive := v\<rparr>]"

definition be_Inflight :: "store \<Rightarrow> addr \<Rightarrow> int" where
  "be_Inflight st a = be_inflight (st ! a)"

definition be_Inc :: "store \<Rightarrow> addr \<Rightarrow> store" where
  "be_Inc st a = st[a := (st ! a)\<lparr>be_inflight := i64 (be_inflight (st ! a) + 1)\<rparr>]"

definition be_Dec :: "store \<Rightarrow> addr \<Rightarrow> store" where
  "be_Dec st a = st[a := (st ! a)\<lparr>be_inflight := i64 (be_inflight (st ! a) - 1)\<rparr>]"

definition newBackend :: "store \<Rightarrow> BackendConfig \<Rightarrow> store \<times> addr" where
  "newBackend st c =
     (st @ [\<lparr>be_URL = bc_URL c, be_Weight = bc_Weight c, be_alive = True, be_inflight = 0\<rparr>], length st)"

fun buildBackends :: "store \<Rightarrow> BackendConfig list \<Rightarrow> store \<times> addr list" where
  "buildBackends st [] = (st, [])"
| "buildBackends st (c # cs) =
     (let (st1, a) = newBackend st c; (st2, as) = buildBackends st1 cs in (st2, a # as))"

definition healthy :: "store \<Rightarrow> addr list \<Rightarrow> addr list" where
  "healthy st bs = filter (be_IsAlive st) bs"

text \<open>\<open>byURL\<close> keeps the last backend of a URL; the weight of a surviving backend is overwritten
  in place.\<close>

fun byURL :: "store \<Rightarrow> (string \<Rightarrow> addr option) \<Rightarrow> addr list \<Rightarrow> (string \<Rightarrow> addr option)" where
  "byURL st m [] = m"
| "byURL st m (b # bs) = byURL st (m(be_URL (st ! b) \<mapsto> b)) bs"

fun mergeLoop :: "(string \<Rightarrow> addr option) \<Rightarrow> store \<Rightarrow> BackendConfig list \<Rightarrow> store \<times> addr list" where
  "mergeLoop m st [] = (st, [])"
| "mergeLoop m st (c # cs) =
     (case m (bc_URL c) of
        Some b \<Rightarrow>
          let (st2, as) = mergeLoop m (st[b := (st ! b)\<lparr>be_Weight := bc_Weight c\<rparr>]) cs in (st2, b # as)
      | None \<Rightarrow>
          let (st1, a) = newBackend st c; (st2, as) = mergeLoop m st1 cs in (st2, a # as))"

definition mergeBackends :: "store \<Rightarrow> addr list \<Rightarrow> BackendConfig list \<Rightarrow> store \<times> addr list" where
  "mergeBackends st existing cfgs = mergeLoop (byURL st Map.empty existing) st cfgs"

subsection \<open>Round robin\<close>

record roundRobin =
  rr_backends :: "addr list"
  rr_counter :: "64 word"

definition rr_Next :: "store \<Rightarrow> request \<Rightarrow> roundRobin \<Rightarrow> roundRobin \<times> (lb_error + addr)" where
  "rr_Next st r rr =
     (let alive = healthy st (rr_backends rr) in
      if length alive = 0 then (rr, Inl ErrNoHealthyBackend)
      else let rr' = rr\<lparr>rr_counter := rr_counter rr + 1\<rparr>;
               idx = rr_counter rr' - 1
           in (rr', Inr (alive ! unat (idx mod word_of_nat (length alive)))))"

definition rr_Update :: "store \<Rightarrow> BackendConfig list \<Rightarrow> roundRobin \<Rightarrow> store \<times> roundRobin" where
  "rr_Update st cfgs rr =
     (let (st', bs) = mergeBackends st (rr_backends rr) cfgs in (st', rr\<lparr>rr_backends := bs\<rparr>))"

subsection \<open>Least connections\<close>

record leastConn =
  lc_backends :: "addr list"

fun lc_scan :: "store \<Rightarrow> addr \<Rightarrow> addr list \<Rightarrow> addr" where
  "lc_scan st best [] = best"
| "lc_scan st best (b # bs) = lc_scan st (if be_Inflight st b < be_Inflight st best then b else best) bs"

definition lc_Next :: "store \<Rightarrow> request \<Rightarrow> leastConn \<Rightarrow> leastConn \<times> (lb_error + addr)" where
  "lc_Next st r lc =
     (case healthy st (lc_backends lc) of
        [] \<Rightarrow> (lc, Inl ErrNoHealthyBackend)
      | b # bs \<Rightarrow> (lc, Inr (lc_scan st b bs)))"

definition lc_Update :: "store \<Rightarrow> BackendConfig list \<Rightarrow> leastConn \<Rightarrow> store \<times> leastConn" where
  "lc_Update st cfgs lc =
     (let (st', bs) = mergeBackends st (lc_backends lc) cfgs in (st', lc\<lparr>lc_backends := bs\<rparr>))"

subsection \<open>Smooth weighted round robin\<close>

record wBackend =
  wb_Backend :: addr
  wb_current :: int

record weighted =
  w_backends :: "wBackend list"

definition newWeighted :: "addr list \<Rightarrow> weighted" where
  "newWeighted bs = \<lparr>w_backends = map (\<lambda>b. \<lparr>wb_Backend = b, wb_current = 0\<rparr>) bs\<rparr>"

text \<open>
  One pass over the backends from position \<open>i\<close>: the entries with their new counters, the total
  weight of the alive ones and the best entry so far with its counter.
\<close>

fun w_scan :: "store \<Rightarrow> nat \<Rightarrow> wBackend list \<Rightarrow> int \<Rightarrow> (nat \<times> int) option \<Rightarrow>
    wBackend list \<times> int \<times> (nat \<times> int) option" where
  "w_scan st i [] tot best = ([], tot, best)"
| "w_scan st i (b # bs) tot best =
     (if \<not> be_IsAlive st (wb_Backend b)
      then let (bs', tot', best') = w_scan st (Suc i) bs tot best in (b # bs', tot', best')
      else let weight = be_Weight (st ! wb_Backend b);
               c = i64 (wb_current b + weight);
               best1 = (case best of
                          None \<Rightarrow> Some (i, c)
                        | Some (j, cj) \<Rightarrow> if cj < c then Some (i, c) else Some (j, cj));
               (bs', tot', best') = w_scan st (Suc i) bs (i64 (tot + weight)) best1
           in (b\<lparr>wb_current := c\<rparr> # bs', tot', best'))"

definition w_Next :: "store \<Rightarrow> request \<Rightarrow> weighted \<Rightarrow> weighted \<times> (lb_error + addr)" where
  "w_Next st r w =
     (let (bs, tot, best) = w_scan st 0 (w_backends w) 0 None in
      case best of
        None \<Rightarrow> (w\<lparr>w_backends := bs\<rparr>, Inl ErrNoHealthyBackend)
      | Some (j, cj) \<Rightarrow>
          (w\<lparr>w_backends := bs[j := (bs ! j)\<lparr>wb_current := i64 (wb_current (bs ! j) - tot)\<rparr>]\<rparr>,
           Inr (wb_Backend (bs ! j))))"

definition backendSlice :: "wBackend list \<Rightarrow> addr list" where
  "backendSlice wb = map wb_Backend wb"

definition w_Backends :: "weighted \<Rightarrow> addr list" where
  "w_Backends w = map wb_Backend (w_backends w)"

definition w_Update :: "store \<Rightarrow> BackendConfig list \<Rightarrow> weighted \<Rightarrow> store \<times> weighted" where
  "w_Update st cfgs w =
     (let (st', merged) = mergeBackends st (backendSlice (w_backends w)) cfgs
      in (st', w\<lparr>w_backends := map (\<lambda>b. \<lparr>wb_Backend = b, wb_current = 0\<rparr>) merged\<rparr>))"

subsection \<open>IP hash\<close>

record ipHash =
  ih_backends :: "addr list"

definition clientIP :: "request \<Rightarrow> string" where
  "clientIP r =
     (if header_Get (r_Header r) ''X-Forwarded-For'' \<noteq> ''''
      then header_Get (r_Header r) ''X-Forwarded-For''
      else if header_Get (r_Header r) ''X-Real-IP'' \<noteq> ''''
      then header_Get (r_Header r) ''X-Real-IP''
      else r_RemoteAddr r)"

unbundle bit_operations_syntax

fun fnv1a_from :: "32 word \<Rightarrow> string \<Rightarrow> 32 word" where
  "fnv1a_from h [] = h"
| "fnv1a_from h (c # cs) = fnv1a_from ((h XOR word_of_nat (byte_of c)) * 16777619) cs"

definition fnv1a :: "string \<Rightarrow> 32 word" where
  "fnv1a s = fnv1a_from 2166136261 s"

definition ih_Next :: "store \<Rightarrow> request \<Rightarrow> ipHash \<Rightarrow> ipHash \<times> (lb_error + addr)" where
  "ih_Next st r ih =
     (let alive = healthy st (ih_backends ih) in
      if length alive = 0 then (ih, Inl ErrNoHealthyBackend)
      else (ih, Inr (alive ! unat (fnv1a (clientIP r) mod word_of_nat (length alive)))))"

definition ih_Update :: "store \<Rightarrow> BackendConfig list \<Rightarrow> ipHash \<Rightarrow> store \<times> ipHash" where
  "ih_Update st cfgs ih =
     (let (st', bs) = mergeBackends st (ih_backends ih) cfgs in (st', ih\<lparr>ih_backends := bs\<rparr>))"

subsection \<open>The interface value and its factory\<close>

datatype balancer =
    RoundRobin roundRobin
  | LeastConn leastConn
  | Weighted weighted
  | IpHash ipHash

definition lb_New :: "store \<Rightarrow> string \<Rightarrow> BackendConfig list \<Rightarrow> store \<times> balancer" where
  "lb_New st algorithm cfgs =
     (let (st', backends) = buildBackends st cfgs in
      (st', if algorithm = ''least_conn'' then LeastConn \<lparr>lc_backends = backends\<rparr>
            else if algorithm = ''weighted'' then Weighted (newWeighted backends)
            else if algorithm = ''ip_hash'' then IpHash \<lparr>ih_backends = backends\<rparr>
            else RoundRobin \<lparr>rr_backends = backends, rr_counter = 0\<rparr>))"

fun lb_Next :: "store \<Rightarrow> request \<Rightarrow> balancer \<Rightarrow> balancer \<times> (lb_error + addr)" where
  "lb_Next st r (RoundRobin x) = (case rr_Next st r x of (x', res) \<Rightarrow> (RoundRobin x', res))"
| "lb_Next st r (LeastConn x) = (case lc_Next st r x of (x', res) \<Rightarrow> (LeastConn x', res))"
| "lb_Next st r (Weighted x) = (case w_Next st r x of (x', res) \<Rightarrow> (Weighted x', res))"
| "lb_Next st r (IpHash x) = (case ih_Next st r x of (x', res) \<Rightarrow> (IpHash x', res))"

fun lb_Backends :: "balancer \<Rightarrow> addr list" where
  "lb_Backends (RoundRobin x) = rr_backends x"
| "lb_Backends (LeastConn x) = lc_backends x"
| "lb_Backends (Weighted x) = w_Backends x"
| "lb_Backends (IpHash x) = ih_backends x"

fun lb_Update :: "store \<Rightarrow> BackendConfig list \<Rightarrow> balancer \<Rightarrow> store \<times> balancer" where
  "lb_Update st cfgs (RoundRobin x) = map_prod id RoundRobin (rr_Update st cfgs x)"
| "lb_Update st cfgs (LeastConn x) = map_prod id LeastConn (lc_Update st cfgs x)"
| "lb_Update st cfgs (Weighted x) = map_prod id Weighted (w_Update st cfgs x)"
| "lb_Update st cfgs (IpHash x) = map_prod id IpHash (ih_Update st cfgs x)"

subsection \<open>The contract of a balancer\<close>

text \<open>
  What the proxy relies on, whatever the strategy: \<open>Next\<close> returns an alive backend of the list
  when there is one, fails otherwise, and never changes the list; \<open>Update\<close> replaces the list
  by the merge of the old one with the new configuration. \<open>ok\<close> is the balancer's own
  well-formedness.
\<close>

lemma set_healthy [simp]: "set (healthy st bs) = {a \<in> set bs. be_IsAlive st a}"
  by (auto simp: healthy_def)

lemma healthy_empty_iff: "healthy st bs = [] \<longleftrightarrow> (\<forall>a \<in> set bs. \<not> be_IsAlive st a)"
  by (auto simp: healthy_def filter_empty_conv)

fun lb_run :: "(store \<Rightarrow> request \<Rightarrow> 'b \<Rightarrow> 'b \<times> (lb_error + addr)) \<Rightarrow> 'b \<Rightarrow>
    (store \<times> request) list \<Rightarrow> 'b \<times> (lb_error + addr) list" where
  "lb_run next b [] = (b, [])"
| "lb_run next b ((st, r) # srs) =
     (let (b', x) = next st r b; (b'', xs) = lb_run next b' srs in (b'', x # xs))"

definition pick_ok :: "addr list \<Rightarrow> store \<Rightarrow> lb_error + addr \<Rightarrow> bool" where
  "pick_ok bs st x =
     (case x of
        Inl e \<Rightarrow> healthy st bs = []
      | Inr a \<Rightarrow> a \<in> set (healthy st bs))"

locale balancing =
  fixes pick :: "store \<Rightarrow> request \<Rightarrow> 'b \<Rightarrow> 'b \<times> (lb_error + addr)"
    and bk :: "'b \<Rightarrow> addr list"
    and upd :: "store \<Rightarrow> BackendConfig list \<Rightarrow> 'b \<Rightarrow> store \<times> 'b"
    and ok :: "'b \<Rightarrow> bool"
  assumes pick_list: "bk (fst (pick st r b)) = bk b"
    and pick_result: "ok b \<Longrightarrow> pick_ok (bk b) st (snd (pick st r b))"
    and pick_keeps_ok: "ok b \<Longrightarrow> ok (fst (pick st r b))"
    and upd_merges: "map_prod id bk (upd st cfgs b) = mergeBackends st (bk b) cfgs"
    and upd_ok: "length cfgs < 2 ^ 32 \<Longrightarrow> ok (snd (upd st cfgs b))"
begin

lemma pick_error_iff: "ok b \<Longrightarrow> (\<exists>e. snd (pick st r b) = Inl e) \<longleftrightarrow> healthy st (bk b) = []"
  using pick_result [of b st r] by (auto simp: pick_ok_def simp del: set_healthy split: sum.splits)

lemma run_list: "bk (fst (lb_run pick b srs)) = bk b"
proof (induction srs arbitrary: b)
  case Nil
  then show ?case by simp
next
  case (Cons sr srs)
  obtain st r where "sr = (st, r)" by (cases sr)
  moreover obtain b' x where "pick st r b = (b', x)" by (cases "pick st r b")
  moreover from this have "bk b' = bk b" using pick_list [of st r b] by simp
  ultimately show ?case using Cons.IH [of b'] by (simp add: case_prod_beta)
qed

lemma run_results:
  "ok b \<Longrightarrow> list_all2 (\<lambda>(st, r) x. pick_ok (bk b) st x) srs (snd (lb_run pick b srs))"
proof (induction srs arbitrary: b)
  case Nil
  then show ?case by simp
next
  case (Cons sr srs)
  obtain st r where sr: "sr = (st, r)" by (cases sr)
  obtain b' x where bx: "pick st r b = (b', x)" by (cases "pick st r b")
  with pick_list [of st r b] pick_result [OF Cons.prems, of st r] pick_keeps_ok [OF Cons.prems, of st r]
  have "bk b' = bk b" "pick_ok (bk b) st x" "ok b'" by simp_all
  with Cons.IH [of b'] sr bx show ?case by (auto split: prod.splits)
qed

end

subsection \<open>The four strategies keep the contract\<close>

definition few :: "addr list \<Rightarrow> bool" where
  "few bs \<longleftrightarrow> length bs < 2 ^ 32"

lemma length_healthy: "length (healthy st bs) \<le> length bs"
  by (simp add: healthy_def)

lemma word_mod_index:
  fixes h :: "'a::len word"
  assumes "0 < n" and "n < 2 ^ LENGTH('a)"
  shows "unat (h mod word_of_nat n) = unat h mod n" and "unat (h mod word_of_nat n) < n"
  using assms by (simp_all add: unat_mod_distrib unat_of_nat)

lemma healthy_nth_ok: "i < length (healthy st bs) \<Longrightarrow> pick_ok bs st (Inr (healthy st bs ! i))"
  using nth_mem [of i "healthy st bs"] by (simp add: pick_ok_def del: set_healthy)

lemma mergeLoop_length: "length (snd (mergeLoop m st cfgs)) = length cfgs"
  by (induction m st cfgs rule: mergeLoop.induct) (auto simp: newBackend_def split: option.splits prod.splits)

lemma merge_few: "length cfgs < 2 ^ 32 \<Longrightarrow> mergeBackends st bs cfgs = (st', bs') \<Longrightarrow> few bs'"
  using mergeLoop_length [of "byURL st Map.empty bs" st cfgs]
  by (simp add: mergeBackends_def few_def)

interpretation rr: balancing rr_Next rr_backends rr_Update "\<lambda>x. few (rr_backends x)"
proof (unfold_locales, goal_cases)
  case (2 b st r)
  then show ?case
    using length_healthy [of st "rr_backends b"]
    by (auto simp: rr_Next_def few_def Let_def pick_ok_def [of _ _ "Inl _"]
        intro!: healthy_nth_ok word_mod_index(2))
qed (auto simp: rr_Next_def rr_Update_def Let_def merge_few split: prod.splits)

lemma lc_scan_in: "lc_scan st b bs \<in> insert b (set bs)"
  by (induction st b bs rule: lc_scan.induct) auto

interpretation lc: balancing lc_Next lc_backends lc_Update "\<lambda>x. few (lc_backends x)"
proof (unfold_locales, goal_cases)
  case (2 b st r)
  show ?case
  proof (cases "healthy st (lc_backends b)")
    case Nil
    then show ?thesis by (simp add: lc_Next_def pick_ok_def)
  next
    case (Cons a as)
    then show ?thesis using lc_scan_in [of st a as]
      by (simp add: lc_Next_def pick_ok_def del: set_healthy)
  qed
qed (auto simp: lc_Next_def lc_Update_def merge_few split: prod.splits list.splits)

interpretation ih: balancing ih_Next ih_backends ih_Update "\<lambda>x. few (ih_backends x)"
proof (unfold_locales, goal_cases)
  case (2 b st r)
  then show ?case
    using length_healthy [of st "ih_backends b"]
    by (auto simp: ih_Next_def few_def Let_def pick_ok_def [of _ _ "Inl _"]
        intro!: healthy_nth_ok word_mod_index(2))
qed (auto simp: ih_Next_def ih_Update_def Let_def merge_few split: prod.splits)

text \<open>
  The scan of the weighted balancer, taken apart: every alive entry is bumped by its weight,
  and the best entry is the first one with the greatest new counter.
\<close>

definition w_bump :: "store \<Rightarrow> wBackend \<Rightarrow> wBackend" where
  "w_bump st b =
     (if be_IsAlive st (wb_Backend b)
      then b\<lparr>wb_current := i64 (wb_current b + be_Weight (st ! wb_Backend b))\<rparr> else b)"

fun w_better :: "(nat \<times> int) option \<Rightarrow> nat \<Rightarrow> int \<Rightarrow> (nat \<times> int) option" where
  "w_better None i c = Some (i, c)"
| "w_better (Some (j, cj)) i c = (if cj < c then Some (i, c) else Some (j, cj))"

fun w_best :: "store \<Rightarrow> nat \<Rightarrow> wBackend list \<Rightarrow> (nat \<times> int) option \<Rightarrow> (nat \<times> int) option" where
  "w_best st i [] best = best"
| "w_best st i (b # bs) best =
     w_best st (Suc i) bs
       (if be_IsAlive st (wb_Backend b) then w_better best i (wb_current (w_bump st b)) else best)"

fun w_total :: "store \<Rightarrow> wBackend list \<Rightarrow> int \<Rightarrow> int" where
  "w_total st [] tot = tot"
| "w_total st (b # bs) tot =
     w_total st bs (if be_IsAlive st (wb_Backend b) then i64 (tot + be_Weight (st ! wb_Backend b)) else tot)"

lemma w_bump_Backend [simp]: "wb_Backend (w_bump st b) = wb_Backend b"
  by (simp add: w_bump_def)

lemma w_better_not_None: "w_better best i c \<noteq> None"
  by (cases best) auto

lemma w_scan_eq:
  "w_scan st i bs tot best = (map (w_bump st) bs, w_total st bs tot, w_best st i bs best)"
proof (induction bs arbitrary: i tot best)
  case Nil
  then show ?case by simp
next
  case (Cons b bs)
  then show ?case
    by (cases "be_IsAlive st (wb_Backend b)"; cases best) (auto simp: w_bump_def Let_def)
qed

lemma w_best_None:
  "w_best st i bs best = None \<longleftrightarrow> best = None \<and> (\<forall>b \<in> set bs. \<not> be_IsAlive st (wb_Backend b))"
proof (induction bs arbitrary: i best)
  case Nil
  then show ?case by simp
next
  case (Cons b bs)
  then show ?case by (cases best) auto
qed

text \<open>The best entry of a scan from the front: alive, and no other alive entry is ahead of it.\<close>

lemma w_best_Some:
  "w_best st i bs best = Some (j, c) \<Longrightarrow>
     (best = Some (j, c) \<or>
        (i \<le> j \<and> j < i + length bs \<and> be_IsAlive st (wb_Backend (bs ! (j - i))) \<and>
         c = wb_current (w_bump st (bs ! (j - i))))) \<and>
     (\<forall>b \<in> set bs. be_IsAlive st (wb_Backend b) \<longrightarrow> wb_current (w_bump st b) \<le> c) \<and>
     (\<forall>j' c'. best = Some (j', c') \<longrightarrow> c' \<le> c)"
proof (induction bs arbitrary: i best)
  case Nil
  then show ?case by simp
next
  case (Cons b bs)
  let ?best = "if be_IsAlive st (wb_Backend b) then w_better best i (wb_current (w_bump st b)) else best"
  from Cons.prems have "w_best st (Suc i) bs ?best = Some (j, c)" by simp
  note IH = Cons.IH [OF this]
  then have here: "?best = Some (j, c) \<or> Suc i \<le> j \<and> j < Suc i + length bs \<and>
      be_IsAlive st (wb_Backend (bs ! (j - Suc i))) \<and> c = wb_current (w_bump st (bs ! (j - Suc i)))"
    by blast
  have better: "w_better best i d = Some (j', c') \<Longrightarrow>
      (best = Some (j', c') \<or> j' = i \<and> c' = d) \<and> d \<le> c' \<and> (\<forall>j'' c''. best = Some (j'', c'') \<longrightarrow> c'' \<le> c')"
    for d j' c' by (cases "(best, i, d)" rule: w_better.cases) (auto split: if_splits)
  show ?case
  proof (cases "be_IsAlive st (wb_Backend b)")
    case False
    with IH show ?thesis by (auto simp: nth_Cons')
  next
    case True
    then obtain j' c' where b': "w_better best i (wb_current (w_bump st b)) = Some (j', c')"
      using w_better_not_None by (metis option.exhaust surj_pair)
    with IH True have "c' \<le> c" by simp
    with better [OF b'] here IH True b' show ?thesis
      by (auto simp: nth_Cons' intro: order_trans)
  qed
qed

lemma w_Next_eq:
  "w_Next st r w =
     (case w_best st 0 (w_backends w) None of
        None \<Rightarrow> (w\<lparr>w_backends := map (w_bump st) (w_backends w)\<rparr>, Inl ErrNoHealthyBackend)
      | Some (j, cj) \<Rightarrow>
          (w\<lparr>w_backends := (map (w_bump st) (w_backends w))
               [j := (map (w_bump st) (w_backends w) ! j)
                  \<lparr>wb_current := i64 (wb_current (map (w_bump st) (w_backends w) ! j) -
                     w_total st (w_backends w) 0)\<rparr>]\<rparr>,
           Inr (wb_Backend (map (w_bump st) (w_backends w) ! j))))"
  by (simp add: w_Next_def w_scan_eq)

lemma map_Backend_bump [simp]: "map wb_Backend (map (w_bump st) bs) = map wb_Backend bs"
  by simp

lemma w_Backends_Next: "w_Backends (fst (w_Next st r w)) = w_Backends w"
  by (auto simp: w_Next_eq w_Backends_def map_update_same split: option.splits)

lemma w_Next_pick: "pick_ok (w_Backends w) st (snd (w_Next st r w))"
proof (cases "w_best st 0 (w_backends w) None")
  case None
  then have "\<forall>b \<in> set (w_backends w). \<not> be_IsAlive st (wb_Backend b)" by (simp add: w_best_None)
  with None show ?thesis
    by (simp add: w_Next_eq pick_ok_def healthy_empty_iff w_Backends_def)
next
  case (Some jc)
  obtain j c where "jc = (j, c)" by (cases jc)
  with Some w_best_Some [of st 0 "w_backends w" None j c] show ?thesis
    by (auto simp: w_Next_eq pick_ok_def w_Backends_def)
qed

interpretation wrr: balancing w_Next w_Backends w_Update "\<lambda>x. few (w_Backends x)"
  by unfold_locales
    (auto simp: w_Backends_Next w_Next_pick w_Update_def w_Backends_def [of "w_backends_update _ _"]
      backendSlice_def w_Backends_def [symmetric] merge_few o_def split: prod.splits)

text \<open>The interface value inherits the contract of the strategy behind it.\<close>

definition lb_ok :: "balancer \<Rightarrow> bool" where
  "lb_ok b \<longleftrightarrow> few (lb_Backends b)"

lemma lb_Backends_comp:
  "lb_Backends \<circ> RoundRobin = rr_backends"
  "lb_Backends \<circ> LeastConn = lc_backends"
  "lb_Backends \<circ> Weighted = w_Backends"
  "lb_Backends \<circ> IpHash = ih_backends"
  by (auto simp: fun_eq_iff)

interpretation lb: balancing lb_Next lb_Backends lb_Update lb_ok
proof (unfold_locales, goal_cases)
  case (1 st r b)
  show ?case
    by (cases b) (simp_all add: case_prod_beta rr.pick_list lc.pick_list wrr.pick_list ih.pick_list)
next
  case (2 b st r)
  then show ?case
    by (cases b) (simp_all add: case_prod_beta lb_ok_def
        rr.pick_result lc.pick_result wrr.pick_result ih.pick_result)
next
  case (3 b st r)
  then show ?case
    by (cases b) (simp_all add: case_prod_beta lb_ok_def
        rr.pick_list lc.pick_list wrr.pick_list ih.pick_list)
next
  case (4 st cfgs b)
  show ?case
    using rr.upd_merges lc.upd_merges wrr.upd_merges ih.upd_merges
    by (cases b) (simp_all add: prod.map_comp lb_Backends_comp)
next
  case (5 cfgs st b)
  then show ?case
    using rr.upd_ok lc.upd_ok wrr.upd_ok ih.upd_ok
    by (cases b) (simp_all add: lb_ok_def)
qed

end
