(* ===== verification/BalancerProps.thy ===== *)
theory BalancerProps
  imports LoadBalancer
begin

section \<open>What each balancing strategy guarantees\<close>

text \<open>
  Fairness of the round robin and of the smooth weighted round robin, minimality of the least
  connections choice, stickiness of the IP hash, and what a configuration update keeps of the
  backends. Calls of a run see the same store where the property is about a fixed set of alive
  backends.
\<close>

subsection \<open>Round robin\<close>

abbreviation same_store :: "store \<Rightarrow> request list \<Rightarrow> (store \<times> request) list" where
  "same_store st rs \<equiv> map (Pair st) rs"

lemma rr_Next_alive:
  assumes "healthy st (rr_backends rr) \<noteq> []" and "few (rr_backends rr)"
  shows "rr_Next st r rr = (rr\<lparr>rr_counter := rr_counter rr + 1\<rparr>,
    Inr (healthy st (rr_backends rr) ! (unat (rr_counter rr) mod length (healthy st (rr_backends rr)))))"
proof -
  let ?n = "length (healthy st (rr_backends rr))"
  have "0 < ?n" using assms(1) by simp
  moreover have "?n < 2 ^ 64"
    using assms(2) length_healthy [of st "rr_backends rr"] by (simp add: few_def)
  ultimately show ?thesis
    using assms(1) word_mod_index(1) [of ?n "rr_counter rr"] by (simp add: rr_Next_def Let_def)
qed

lemma rr_run_picks:
  assumes "healthy st (rr_backends rr) \<noteq> []" and "few (rr_backends rr)"
    and "unat (rr_counter rr) + length rs \<le> 2 ^ 64"
  shows "snd (lb_run rr_Next rr (same_store st rs)) =
    map (\<lambda>i. Inr (healthy st (rr_backends rr) !
      ((unat (rr_counter rr) + i) mod length (healthy st (rr_backends rr))))) [0..<length rs]"
  using assms
proof (induction rs arbitrary: rr)
  case Nil
  then show ?case by simp
next
  case (Cons r rs)
  let ?rr = "rr\<lparr>rr_counter := rr_counter rr + 1\<rparr>"
  show ?case
  proof (cases rs)
    case Nil
    with Cons.prems show ?thesis by (simp add: rr_Next_alive)
  next
    case (Cons r' rs')
    then have "unat (rr_counter rr) + 1 < 2 ^ 64" using Cons.prems(3) by simp
    then have c: "unat (rr_counter rr + 1) = Suc (unat (rr_counter rr))"
      by (simp add: unat_word_ariths)
    have "snd (lb_run rr_Next ?rr (same_store st rs)) =
      map (\<lambda>i. Inr (healthy st (rr_backends rr) !
        ((Suc (unat (rr_counter rr)) + i) mod length (healthy st (rr_backends rr))))) [0..<length rs]"
      using Cons.IH [of ?rr] Cons.prems c by simp
    then show ?thesis
      using Cons.prems by (simp add: rr_Next_alive case_prod_beta map_upt_Suc del: upt_Suc)
  qed
qed

text \<open>
  C40. Round robin is exactly fair: as long as the set of alive backends does not change and the
  64-bit counter does not wrap, \<open>k\<close> rounds of as many calls as there are alive backends return
  \<open>k\<close> times the same rotation of the list of alive backends, each of them once per round.
\<close>

theorem round_robin_fair:
  assumes "healthy st (rr_backends rr) \<noteq> []" and "few (rr_backends rr)"
    and "length rs = k * length (healthy st (rr_backends rr))"
    and "unat (rr_counter rr) + length rs \<le> 2 ^ 64"
  shows "snd (lb_run rr_Next rr (same_store st rs)) =
    concat (replicate k (map Inr (rotate (unat (rr_counter rr)) (healthy st (rr_backends rr)))))"
proof -
  let ?alive = "healthy st (rr_backends rr)" and ?c = "unat (rr_counter rr)"
  let ?f = "\<lambda>i. Inr (?alive ! ((?c + i) mod length ?alive)) :: lb_error + addr"
  have "?f (i + length ?alive) = ?f i" for i
    using mod_add_self2 [of "?c + i" "length ?alive"] by (simp add: add.assoc)
  from map_upt_periodic [of ?f, OF this]
  have "map ?f [0..<length rs] = concat (replicate k (map ?f [0..<length ?alive]))"
    unfolding assms(3) .
  moreover have "map ?f [0..<length ?alive] = map Inr (rotate ?c ?alive)"
    by (simp flip: rotate_as_map)
  ultimately show ?thesis
    using rr_run_picks [OF assms(1,2,4)] by simp
qed

definition example_store :: store where
  "example_store =
    [\<lparr>be_URL = ''http://a'', be_Weight = 5, be_alive = True, be_inflight = 2\<rparr>,
     \<lparr>be_URL = ''http://b'', be_Weight = 1, be_alive = True, be_inflight = 1\<rparr>,
     \<lparr>be_URL = ''http://c'', be_Weight = 1, be_alive = False, be_inflight = 0\<rparr>,
     \<lparr>be_URL = ''http://d'', be_Weight = 1, be_alive = True, be_inflight = 1\<rparr>]"

definition example_request :: request where
  "example_request = \<lparr>r_Method = ''GET'', r_URLScheme = [], r_URLHost = [], r_Path = ''/api'',
     r_Host = ''gw'', r_RemoteAddr = ''10.0.0.1:4001'', r_TLS = False, r_Header = Map.empty\<rparr>"

lemma example_healthy: "healthy example_store [0, 1, 2, 3] = [0, 1, 3]"
  by (simp add: healthy_def be_IsAlive_def example_store_def)

theorem round_robin_fair_witness:
  "snd (lb_run rr_Next \<lparr>rr_backends = [0, 1, 2, 3], rr_counter = 1\<rparr>
     (same_store example_store (replicate 6 example_request))) =
   [Inr 1, Inr 3, Inr 0, Inr 1, Inr 3, Inr 0]"
  using round_robin_fair [of example_store "\<lparr>rr_backends = [0, 1, 2, 3], rr_counter = 1\<rparr>"
      "replicate 6 example_request" "Suc (Suc 0)"]
  by (simp add: example_healthy [simplified] few_def)

subsection \<open>Least connections\<close>

lemma lc_scan_minimal:
  "b \<in> insert best (set bs) \<Longrightarrow> be_Inflight st (lc_scan st best bs) \<le> be_Inflight st b"
proof (induction bs arbitrary: best b)
  case Nil
  then show ?case by simp
next
  case (Cons c bs)
  let ?best = "if be_Inflight st c < be_Inflight st best then c else best"
  have "be_Inflight st (lc_scan st ?best bs) \<le> be_Inflight st ?best" by (rule Cons.IH) simp
  moreover have "b \<in> set bs \<Longrightarrow> be_Inflight st (lc_scan st ?best bs) \<le> be_Inflight st b"
    by (rule Cons.IH) simp
  ultimately show ?case using Cons.prems by (auto split: if_splits)
qed

text \<open>The first of several minimal entries wins.\<close>

lemma lc_scan_first:
  "\<exists>i < Suc (length bs). (best # bs) ! i = lc_scan st best bs \<and>
     (\<forall>j < i. be_Inflight st (lc_scan st best bs) < be_Inflight st ((best # bs) ! j))"
proof (induction bs arbitrary: best)
  case Nil
  then show ?case by simp
next
  case (Cons c bs)
  let ?new = "be_Inflight st c < be_Inflight st best"
  let ?best = "if ?new then c else best"
  let ?r = "lc_scan st ?best bs"
  obtain i where i: "i < Suc (length bs)" "(?best # bs) ! i = ?r"
      "\<forall>j < i. be_Inflight st ?r < be_Inflight st ((?best # bs) ! j)"
    using Cons.IH [of ?best] by blast
  show ?case
  proof (cases "i = 0 \<and> \<not> ?new")
    case True
    with i show ?thesis by (intro exI [of _ 0]) auto
  next
    case False
    have le: "be_Inflight st ?r \<le> be_Inflight st ?best" by (rule lc_scan_minimal) simp
    have first: "0 < i \<Longrightarrow> be_Inflight st ?r < be_Inflight st ?best"
      using i(3) by fastforce
    have "be_Inflight st ?r < be_Inflight st ((best # c # bs) ! j)" if "j < Suc i" for j
    proof (cases j)
      case 0
      with False le first show ?thesis by (auto split: if_splits)
    next
      case (Suc j')
      show ?thesis
      proof (cases j')
        case 0
        with Suc that first show ?thesis by (auto split: if_splits)
      next
        case (Suc j'')
        with \<open>j = Suc j'\<close> that i(3) show ?thesis by fastforce
      qed
    qed
    then have "\<forall>j < Suc i. be_Inflight st ?r < be_Inflight st ((best # c # bs) ! j)" by blast
    moreover have "(best # c # bs) ! Suc i = ?r"
      using False i(2) by (cases i) auto
    ultimately show ?thesis using i(1) by (intro exI [of _ "Suc i"]) auto
  qed
qed

text \<open>
  Least connections: the backend returned is alive, no alive backend has fewer requests in
  flight, and every alive backend listed before it has more.
\<close>

theorem least_conn_minimal:
  assumes "lc_Next st r lc = (lc', Inr a)"
  shows "\<exists>i < length (healthy st (lc_backends lc)). healthy st (lc_backends lc) ! i = a \<and>
    (\<forall>b \<in> set (healthy st (lc_backends lc)). be_Inflight st a \<le> be_Inflight st b) \<and>
    (\<forall>j < i. be_Inflight st a < be_Inflight st (healthy st (lc_backends lc) ! j))"
proof -
  from assms obtain b bs where bs: "healthy st (lc_backends lc) = b # bs" "a = lc_scan st b bs"
    by (auto simp: lc_Next_def split: list.splits)
  obtain i where "i < length (b # bs)" "(b # bs) ! i = a"
      "\<forall>j < i. be_Inflight st a < be_Inflight st ((b # bs) ! j)"
    using lc_scan_first [of bs b st] bs(2) by auto
  moreover have "\<forall>c \<in> set (b # bs). be_Inflight st a \<le> be_Inflight st c"
    using lc_scan_minimal bs(2) by auto
  ultimately show ?thesis unfolding bs(1) by blast
qed

theorem least_conn_minimal_witness:
  "lc_Next example_store example_request \<lparr>lc_backends = [0, 1, 2, 3]\<rparr> = (\<lparr>lc_backends = [0, 1, 2, 3]\<rparr>, Inr 1) \<and>
   be_Inflight example_store 1 \<le> be_Inflight example_store 0"
proof -
  have "lc_Next example_store example_request \<lparr>lc_backends = [0, 1, 2, 3]\<rparr> =
      (\<lparr>lc_backends = [0, 1, 2, 3]\<rparr>, Inr 1)"
    by (simp add: lc_Next_def healthy_def be_IsAlive_def be_Inflight_def example_store_def)
  moreover from least_conn_minimal [OF this] have "0 \<in> set (healthy example_store [0, 1, 2, 3]) \<longrightarrow>
      be_Inflight example_store 1 \<le> be_Inflight example_store 0" by auto
  ultimately show ?thesis by (simp add: example_healthy [simplified])
qed

subsection \<open>IP hash\<close>

text \<open>
  IP hash is sticky: with the same alive backends, two requests with the same client address
  get the same result, whatever else they carry and whatever happened in between.
\<close>

theorem ip_hash_sticky:
  assumes "clientIP r = clientIP r'"
    and "healthy st (ih_backends ih) = healthy st' (ih_backends ih')"
  shows "snd (ih_Next st r ih) = snd (ih_Next st' r' ih')"
  using assms by (simp add: ih_Next_def Let_def)

theorem ip_hash_sticky_witness:
  "snd (ih_Next example_store example_request \<lparr>ih_backends = [0, 1, 2, 3]\<rparr>) =
   snd (ih_Next (be_Inc example_store 1) (example_request\<lparr>r_Path := ''/other''\<rparr>) \<lparr>ih_backends = [0, 1, 3]\<rparr>)"
  by (rule ip_hash_sticky)
    (simp_all add: clientIP_def example_request_def healthy_def be_IsAlive_def be_Inc_def example_store_def)

lemma fnv1a_from_append: "fnv1a_from h (s @ t) = fnv1a_from (fnv1a_from h s) t"
  by (induction h s rule: fnv1a_from.induct) auto

lemma fnv1a_snoc: "fnv1a (s @ [c]) = (fnv1a s XOR word_of_nat (byte_of c)) * 16777619"
  by (simp add: fnv1a_def fnv1a_from_append)

lemma even_fnv1a_snoc: "even (fnv1a (s @ [c])) \<longleftrightarrow> (even (fnv1a s) \<longleftrightarrow> even (byte_of c))"
  by (simp add: fnv1a_snoc even_mult_iff even_xor_iff)

lemma unat_mod_2: "unat (w mod 2) = (if even w then 0 else 1)" for w :: "32 word"
  by (auto simp: even_iff_mod_2_eq_zero odd_iff_mod_2_eq_one)

text \<open>
  Without forwarding headers the hashed address is \<open>RemoteAddr\<close>, port included: with two
  alive backends, two connections of one client whose addresses end in digits of different
  parity are sent to different backends.
\<close>

theorem ip_hash_depends_on_port:
  assumes "healthy st (ih_backends ih) = [a, b]" and "a \<noteq> b"
    and "header_Get (r_Header r) ''X-Forwarded-For'' = []" and "header_Get (r_Header r) ''X-Real-IP'' = []"
    and "even (byte_of c) \<noteq> even (byte_of d)"
  shows "snd (ih_Next st (r\<lparr>r_RemoteAddr := s @ [c]\<rparr>) ih) \<noteq>
    snd (ih_Next st (r\<lparr>r_RemoteAddr := s @ [d]\<rparr>) ih)"
proof -
  have "even (fnv1a (s @ [c])) \<noteq> even (fnv1a (s @ [d]))"
    using assms(5) by (simp add: even_fnv1a_snoc)
  with assms(1-4) show ?thesis
    by (auto simp: ih_Next_def clientIP_def unat_mod_2 numeral_2_eq_2 [symmetric])
qed

theorem ip_hash_depends_on_port_witness:
  "snd (ih_Next example_store (example_request\<lparr>r_RemoteAddr := ''10.0.0.1:400'' @ ''1''\<rparr>) \<lparr>ih_backends = [0, 1]\<rparr>) \<noteq>
   snd (ih_Next example_store (example_request\<lparr>r_RemoteAddr := ''10.0.0.1:400'' @ ''2''\<rparr>) \<lparr>ih_backends = [0, 1]\<rparr>)"
  by (rule ip_hash_depends_on_port [of _ _ 0 1])
    (simp_all add: healthy_def be_IsAlive_def example_store_def example_request_def byte_of_def)

subsection \<open>Updating the list of backends\<close>

text \<open>An address table in step with the store.\<close>

definition table_ok :: "(string \<Rightarrow> addr option) \<Rightarrow> store \<Rightarrow> bool" where
  "table_ok m st \<longleftrightarrow> (\<forall>u a. m u = Some a \<longrightarrow> a < length st \<and> be_URL (st ! a) = u)"

lemma table_ok_put: "table_ok m st \<Longrightarrow> a < length st \<Longrightarrow> table_ok (m(be_URL (st ! a) \<mapsto> a)) st"
  by (simp add: table_ok_def)

lemma set_weight_URL [simp]: "be_URL (st[b := (st ! b)\<lparr>be_Weight := w\<rparr>] ! a) = be_URL (st ! a)"
  by (cases "a = b"; cases "b < length st") (auto simp: list_update_beyond)

lemma table_ok_weight: "table_ok m st \<Longrightarrow> table_ok m (st[b := (st ! b)\<lparr>be_Weight := w\<rparr>])"
  by (simp add: table_ok_def)

lemma table_ok_new: "table_ok m st \<Longrightarrow> table_ok m (st @ [b])"
  by (auto simp: table_ok_def nth_append less_SucI)

lemma byURL_ok:
  "table_ok m st \<Longrightarrow> \<forall>a \<in> set bs. a < length st \<Longrightarrow> table_ok (byURL st m bs) st"
proof (induction bs arbitrary: m)
  case (Cons b bs)
  then show ?case using table_ok_put [of m st b] by simp
qed simp

lemma byURL_lookup:
  "distinct (map (\<lambda>a. be_URL (st ! a)) bs) \<Longrightarrow>
     byURL st m bs u = (case find (\<lambda>a. be_URL (st ! a) = u) bs of None \<Rightarrow> m u | Some a \<Rightarrow> Some a)"
proof (induction bs arbitrary: m)
  case Nil
  then show ?case by simp
next
  case (Cons b bs)
  have "byURL st (m(be_URL (st ! b) \<mapsto> b)) bs u = (case find (\<lambda>a. be_URL (st ! a) = u) bs of
      None \<Rightarrow> (m(be_URL (st ! b) \<mapsto> b)) u | Some a \<Rightarrow> Some a)"
    by (rule Cons.IH) (use Cons.prems in simp)
  moreover have "be_URL (st ! b) = u \<Longrightarrow> find (\<lambda>a. be_URL (st ! a) = u) bs = None"
    using Cons.prems by (auto simp: find_None_iff image_iff)
  ultimately show ?case by (simp split: option.splits)
qed

text \<open>
  What one configured entry gets: the backend of the table, or a new one; either way with the
  configured URL.
\<close>

definition merged_entry :: "(string \<Rightarrow> addr option) \<Rightarrow> nat \<Rightarrow> store \<Rightarrow> BackendConfig \<Rightarrow> addr \<Rightarrow> bool" where
  "merged_entry m n st c a \<longleftrightarrow> a < length st \<and> be_URL (st ! a) = bc_URL c \<and>
     (case m (bc_URL c) of
        Some b \<Rightarrow> a = b
      | None \<Rightarrow> n \<le> a \<and> be_alive (st ! a) \<and> be_inflight (st ! a) = 0)"

lemma mergeLoop_frame:
  assumes "table_ok m st" and "mergeLoop m st cfgs = (st', bs)"
  shows "length st \<le> length st' \<and>
    (\<forall>a < length st. st' ! a = (st ! a)\<lparr>be_Weight := be_Weight (st' ! a)\<rparr>) \<and>
    (\<forall>a < length st. (\<forall>c \<in> set cfgs. m (bc_URL c) \<noteq> Some a) \<longrightarrow> st' ! a = st ! a)"
  using assms
proof (induction cfgs arbitrary: st bs)
  case Nil
  then show ?case by simp
next
  case (Cons c cs)
  show ?case
  proof (cases "m (bc_URL c)")
    case (Some b)
    let ?st = "st[b := (st ! b)\<lparr>be_Weight := bc_Weight c\<rparr>]"
    from Some Cons.prems obtain bs' where "mergeLoop m ?st cs = (st', bs')"
      by (auto split: prod.splits)
    moreover have "table_ok m ?st"
      using Cons.prems(1) by (rule table_ok_weight)
    ultimately have IH: "length st \<le> length st'"
      "\<forall>a < length st. st' ! a = (?st ! a)\<lparr>be_Weight := be_Weight (st' ! a)\<rparr>"
      "\<forall>a < length st. (\<forall>c \<in> set cs. m (bc_URL c) \<noteq> Some a) \<longrightarrow> st' ! a = ?st ! a"
      using Cons.IH [of ?st bs'] by simp_all
    have "st' ! a = (st ! a)\<lparr>be_Weight := be_Weight (st' ! a)\<rparr>" if "a < length st" for a
      using spec [OF IH(2), of a] that by (cases "a = b") auto
    with IH Some show ?thesis by auto
  next
    case None
    let ?new = "\<lparr>be_URL = bc_URL c, be_Weight = bc_Weight c, be_alive = True, be_inflight = 0\<rparr>"
    from None Cons.prems obtain bs' where "mergeLoop m (st @ [?new]) cs = (st', bs')"
      by (auto simp: newBackend_def split: prod.splits)
    moreover have "table_ok m (st @ [?new])"
      using Cons.prems(1) by (rule table_ok_new)
    ultimately have IH: "Suc (length st) \<le> length st'"
      "\<forall>a < Suc (length st). st' ! a = ((st @ [?new]) ! a)\<lparr>be_Weight := be_Weight (st' ! a)\<rparr>"
      "\<forall>a < Suc (length st). (\<forall>c \<in> set cs. m (bc_URL c) \<noteq> Some a) \<longrightarrow> st' ! a = (st @ [?new]) ! a"
      using Cons.IH [of "st @ [?new]" bs'] by simp_all
    have "(st @ [?new]) ! a = st ! a" if "a < length st" for a
      using that by (simp add: nth_append)
    with IH show ?thesis by (metis less_SucI Suc_leD list.set_intros(2))
  qed
qed

lemma mergeLoop_entries:
  assumes "table_ok m st" and "mergeLoop m st cfgs = (st', bs)"
  shows "list_all2 (merged_entry m (length st) st') cfgs bs \<and>
    (distinct (map bc_URL cfgs) \<longrightarrow> list_all2 (\<lambda>c a. be_Weight (st' ! a) = bc_Weight c) cfgs bs)"
  using assms
proof (induction cfgs arbitrary: st bs)
  case Nil
  then show ?case by simp
next
  case (Cons c cs)
  show ?case
  proof (cases "m (bc_URL c)")
    case (Some b)
    let ?st = "st[b := (st ! b)\<lparr>be_Weight := bc_Weight c\<rparr>]"
    from Some Cons.prems obtain bs' where bs': "mergeLoop m ?st cs = (st', bs')" "bs = b # bs'"
      by (auto split: prod.splits)
    have t: "table_ok m ?st"
      using Cons.prems(1) by (rule table_ok_weight)
    have b: "b < length st" "be_URL (st ! b) = bc_URL c"
      using Cons.prems(1) Some by (auto simp: table_ok_def)
    note frame = mergeLoop_frame [OF t bs'(1)]
    then have "st' ! b = (?st ! b)\<lparr>be_Weight := be_Weight (st' ! b)\<rparr>" using b by auto
    from arg_cong [OF this, of be_URL] have "be_URL (st' ! b) = bc_URL c" using b by simp
    moreover have "st' ! b = ?st ! b" if "distinct (map bc_URL (c # cs))"
    proof -
      have "m (bc_URL c') \<noteq> Some b" if "c' \<in> set cs" for c'
      proof
        assume "m (bc_URL c') = Some b"
        with Cons.prems(1) b have "bc_URL c = bc_URL c'" by (auto simp: table_ok_def)
        with that \<open>distinct (map bc_URL (c # cs))\<close> show False by auto
      qed
      with frame b show ?thesis by auto
    qed
    ultimately show ?thesis
      using Cons.IH [OF t bs'(1)] bs'(2) b frame Some by (auto simp: merged_entry_def)
  next
    case None
    let ?new = "\<lparr>be_URL = bc_URL c, be_Weight = bc_Weight c, be_alive = True, be_inflight = 0\<rparr>"
    from None Cons.prems obtain bs' where
      bs': "mergeLoop m (st @ [?new]) cs = (st', bs')" "bs = length st # bs'"
      by (auto simp: newBackend_def split: prod.splits)
    have t: "table_ok m (st @ [?new])"
      using Cons.prems(1) by (rule table_ok_new)
    note frame = mergeLoop_frame [OF t bs'(1)]
    have "\<forall>c \<in> set cs. m (bc_URL c) \<noteq> Some (length st)"
      using Cons.prems(1) by (auto simp: table_ok_def)
    with frame have new: "st' ! length st = ?new" by auto
    have "list_all2 (merged_entry m (length st) st') cs bs'"
      using Cons.IH [OF t bs'(1)]
      by (auto elim!: list_all2_mono simp: merged_entry_def split: option.splits)
    moreover have "merged_entry m (length st) st' c (length st)"
      using frame new None by (auto simp: merged_entry_def)
    ultimately show ?thesis
      using Cons.IH [OF t bs'(1)] bs'(2) new by auto
  qed
qed

text \<open>
  A configuration update keeps what it can: the new list has exactly the configured URLs and
  weights in the configured order; a URL already served keeps its backend object, with its
  liveness and its count of requests in flight; a new URL gets a fresh backend, alive and idle;
  and no other backend object changes.
\<close>

theorem merge_keeps_backends:
  assumes "mergeBackends st existing cfgs = (st', bs)"
    and "\<forall>a \<in> set existing. a < length st" and "distinct (map (\<lambda>a. be_URL (st ! a)) existing)"
    and "distinct (map bc_URL cfgs)"
  shows "map (\<lambda>a. be_URL (st' ! a)) bs = map bc_URL cfgs \<and>
    map (\<lambda>a. be_Weight (st' ! a)) bs = map bc_Weight cfgs \<and>
    (\<forall>a < length st. st' ! a = (st ! a)\<lparr>be_Weight := be_Weight (st' ! a)\<rparr> \<and>
       (a \<notin> set bs \<longrightarrow> st' ! a = st ! a)) \<and>
    list_all2 (\<lambda>c a. case find (\<lambda>b. be_URL (st ! b) = bc_URL c) existing of
        Some b \<Rightarrow> a = b
      | None \<Rightarrow> length st \<le> a \<and> be_alive (st' ! a) \<and> be_inflight (st' ! a) = 0) cfgs bs"
proof -
  let ?m = "byURL st Map.empty existing"
  have t: "table_ok ?m st" using assms(2) by (intro byURL_ok) (auto simp: table_ok_def)
  have look: "?m u = find (\<lambda>b. be_URL (st ! b) = u) existing" for u
    using byURL_lookup [OF assms(3), of Map.empty u] by (auto split: option.splits)
  from assms(1) have loop: "mergeLoop ?m st cfgs = (st', bs)" by (simp add: mergeBackends_def)
  note entries = mergeLoop_entries [OF t loop] and frame = mergeLoop_frame [OF t loop]
  have "map (\<lambda>a. be_URL (st' ! a)) bs = map bc_URL cfgs"
    using entries by (auto simp: list_all2_conv_all_nth merged_entry_def intro: nth_equalityI)
  moreover have "map (\<lambda>a. be_Weight (st' ! a)) bs = map bc_Weight cfgs"
    using entries assms(4) by (auto simp: list_all2_conv_all_nth intro: nth_equalityI)
  moreover have "st' ! a = st ! a" if "a < length st" "a \<notin> set bs" for a
  proof -
    have "\<forall>c \<in> set cfgs. ?m (bc_URL c) \<noteq> Some a"
      using entries that(2) by (fastforce simp: list_all2_conv_all_nth merged_entry_def in_set_conv_nth)
    with frame that(1) show ?thesis by blast
  qed
  moreover have "list_all2 (\<lambda>c a. case find (\<lambda>b. be_URL (st ! b) = bc_URL c) existing of
        Some b \<Rightarrow> a = b
      | None \<Rightarrow> length st \<le> a \<and> be_alive (st' ! a) \<and> be_inflight (st' ! a) = 0) cfgs bs"
    using entries by (auto simp: merged_entry_def look split: option.splits elim!: list_all2_mono)
  ultimately show ?thesis using frame by blast
qed

theorem merge_keeps_backends_witness:
  "\<exists>st' bs. mergeBackends example_store [0, 1]
      [\<lparr>bc_URL = ''http://b'', bc_Weight = 9\<rparr>, \<lparr>bc_URL = ''http://e'', bc_Weight = 2\<rparr>] = (st', bs) \<and>
    bs = [1, 4] \<and> be_inflight (st' ! 1) = 1 \<and> be_Weight (st' ! 1) = 9"
proof -
  let ?cfgs = "[\<lparr>bc_URL = ''http://b'', bc_Weight = 9\<rparr>, \<lparr>bc_URL = ''http://e'', bc_Weight = 2\<rparr>]"
  obtain st' bs where m: "mergeBackends example_store [0, 1] ?cfgs = (st', bs)"
    by (cases "mergeBackends example_store [0, 1] ?cfgs")
  then have "bs = [1, 4]"
    by (auto simp: mergeBackends_def example_store_def newBackend_def)
  moreover have "\<forall>a \<in> set [0, 1]. a < length example_store"
    "distinct (map (\<lambda>a. be_URL (example_store ! a)) [0, 1])" "distinct (map bc_URL ?cfgs)"
    by (simp_all add: example_store_def)
  note merge_keeps_backends [OF m this]
  then have w: "map (\<lambda>a. be_Weight (st' ! a)) bs = map bc_Weight ?cfgs"
    and old: "\<forall>a < length example_store. st' ! a = (example_store ! a)\<lparr>be_Weight := be_Weight (st' ! a)\<rparr>"
    by blast+
  have "st' ! 1 = (example_store ! 1)\<lparr>be_Weight := be_Weight (st' ! 1)\<rparr>"
    using spec [OF old, of 1] by (simp add: example_store_def)
  then have "be_inflight (st' ! 1) = be_inflight (example_store ! 1)"
    by (metis Backend.select_convs(4) Backend.surjective Backend.update_convs(2))
  ultimately show ?thesis using m w by (auto simp: example_store_def)
qed

subsection \<open>The contract over a run\<close>

text \<open>
  C8. Whatever the strategy and however the liveness of the backends changes between calls, a
  balancer built by the factory returns, at every call of every run, a backend of its list that
  is alive at that call, and fails exactly when none of them is.
\<close>

theorem balancer_contract:
  assumes "lb_New st0 algorithm cfgs = (st1, b)" and "length cfgs < 2 ^ 32"
  shows "lb_Backends b = snd (buildBackends st0 cfgs) \<and>
    list_all2 (\<lambda>(st, r) x. pick_ok (lb_Backends b) st x) srs (snd (lb_run lb_Next b srs))"
proof -
  have bs: "lb_Backends b = snd (buildBackends st0 cfgs)"
    using assms(1)
    by (auto simp: lb_New_def newWeighted_def w_Backends_def o_def split: prod.splits if_splits)
  have "length (snd (buildBackends st cs)) = length cs" for st cs
    by (induction st cs rule: buildBackends.induct) (auto simp: newBackend_def split: prod.splits)
  with bs assms(2) have "lb_ok b" by (simp add: lb_ok_def few_def)
  from lb.run_results [OF this] bs show ?thesis by blast
qed

theorem balancer_contract_witness:
  "snd (lb_run lb_Next (snd (lb_New [] ''least_conn'' [\<lparr>bc_URL = ''http://a'', bc_Weight = 1\<rparr>]))
     [(fst (lb_New [] ''least_conn'' [\<lparr>bc_URL = ''http://a'', bc_Weight = 1\<rparr>]), example_request)]) = [Inr 0]"
proof -
  let ?new = "lb_New [] ''least_conn'' [\<lparr>bc_URL = ''http://a'', bc_Weight = 1\<rparr>]"
  have "lb_Backends (snd ?new) = snd (buildBackends [] [\<lparr>bc_URL = ''http://a'', bc_Weight = 1\<rparr>]) \<and>
    list_all2 (\<lambda>(st, r) x. pick_ok (lb_Backends (snd ?new)) st x) [(fst ?new, example_request)]
      (snd (lb_run lb_Next (snd ?new) [(fst ?new, example_request)]))"
    by (rule balancer_contract [of "[]" _ _ "fst ?new"]) simp_all
  then obtain x where x: "snd (lb_run lb_Next (snd ?new) [(fst ?new, example_request)]) = [x]"
      "pick_ok [0] (fst ?new) x"
    by (auto simp: list_all2_Cons1 newBackend_def)
  moreover have "healthy (fst ?new) [0] = [0]"
    by (simp add: lb_New_def newBackend_def healthy_def be_IsAlive_def)
  ultimately have "x = Inr 0" by (cases x) (simp_all add: pick_ok_def del: set_healthy)
  with x(1) show ?thesis by (simp only:)
qed

end
