(* ===== verification/WeightedProps.thy ===== *)
theory WeightedProps
  imports BalancerProps
begin

section \<open>Smooth weighted round robin\<close>

text \<open>
  The counters of the weighted balancer after \<open>t\<close> calls, of which an entry of weight \<open>w\<close> got
  \<open>n\<close>, are \<open>t w - W n\<close> where \<open>W\<close> is the total weight of the alive entries; they sum to zero
  and none falls to \<open>- W\<close>. Both bounds of the distribution follow. The store, and with it the
  set of alive backends and their weights, does not change during a run.
\<close>

definition aliveWeight :: "store \<Rightarrow> addr \<Rightarrow> int" where
  "aliveWeight st a = (if be_IsAlive st a then be_Weight (st ! a) else 0)"

definition totalWeight :: "store \<Rightarrow> addr list \<Rightarrow> int" where
  "totalWeight st bs = (\<Sum>a\<leftarrow>bs. aliveWeight st a)"

definition weights_ok :: "store \<Rightarrow> addr list \<Rightarrow> bool" where
  "weights_ok st bs \<longleftrightarrow> distinct bs \<and> (\<forall>a \<in> set bs. 0 \<le> aliveWeight st a) \<and>
     0 < totalWeight st bs \<and> int (length bs) * totalWeight st bs < 2 ^ 63"

text \<open>The state after the picks \<open>ps\<close>.\<close>

definition swrr_inv :: "store \<Rightarrow> addr list \<Rightarrow> addr list \<Rightarrow> weighted \<Rightarrow> bool" where
  "swrr_inv st bs ps w \<longleftrightarrow> w_Backends w = bs \<and> set ps \<subseteq> set bs \<and>
     (\<forall>b \<in> set (w_backends w).
        wb_current b = int (length ps) * aliveWeight st (wb_Backend b) -
          totalWeight st bs * int (count_list ps (wb_Backend b)) \<and>
        - totalWeight st bs < wb_current b)"

lemma swrr_invI:
  assumes "w_Backends w = bs" and "set ps \<subseteq> set bs"
    and "\<And>k. k < length (w_backends w) \<Longrightarrow>
      wb_current (w_backends w ! k) = int (length ps) * aliveWeight st (wb_Backend (w_backends w ! k)) -
        totalWeight st bs * int (count_list ps (wb_Backend (w_backends w ! k))) \<and>
      - totalWeight st bs < wb_current (w_backends w ! k)"
  shows "swrr_inv st bs ps w"
  unfolding swrr_inv_def
proof (intro conjI ballI)
  fix b assume "b \<in> set (w_backends w)"
  then obtain k where "k < length (w_backends w)" "b = w_backends w ! k"
    by (auto simp: in_set_conv_nth)
  then show "wb_current b = int (length ps) * aliveWeight st (wb_Backend b) -
      totalWeight st bs * int (count_list ps (wb_Backend b))" "- totalWeight st bs < wb_current b"
    using assms(3) by blast+
qed (use assms in auto)

lemma totalWeight_set: "distinct bs \<Longrightarrow> totalWeight st bs = (\<Sum>a\<in>set bs. aliveWeight st a)"
  by (simp add: totalWeight_def sum_list_distinct_conv_sum_set)

lemma sum_counters:
  assumes "weights_ok st bs" and "set ps \<subseteq> set bs"
  shows "(\<Sum>a\<in>set bs. int (length ps) * aliveWeight st a - totalWeight st bs * int (count_list ps a)) = 0"
proof -
  have "(\<Sum>a\<in>set bs. int (count_list ps a)) = int (length ps)"
    using sum_count_list [OF assms(2)] by (simp flip: of_nat_sum)
  then show ?thesis
    using assms(1) by (simp add: sum_subtractf totalWeight_set weights_ok_def
        flip: sum_distrib_left)
qed

text \<open>Partial sums of the weights stay in range, so the total of a scan is exact.\<close>

lemma w_total_exact:
  assumes "\<forall>b \<in> set bs. 0 \<le> aliveWeight st (wb_Backend b)" and "0 \<le> tot"
    and "tot + (\<Sum>b\<leftarrow>bs. aliveWeight st (wb_Backend b)) < 2 ^ 63"
  shows "w_total st bs tot = tot + (\<Sum>b\<leftarrow>bs. aliveWeight st (wb_Backend b))"
  using assms
proof (induction bs arbitrary: tot)
  case Nil
  then show ?case by simp
next
  case (Cons b bs)
  have nonneg: "0 \<le> (\<Sum>b\<leftarrow>bs. aliveWeight st (wb_Backend b))"
    using Cons.prems(1) by (intro sum_list_nonneg) auto
  show ?case
  proof (cases "be_IsAlive st (wb_Backend b)")
    case True
    then have "i64 (tot + be_Weight (st ! wb_Backend b)) = tot + be_Weight (st ! wb_Backend b)"
      using Cons.prems nonneg by (intro i64_small) (auto simp: aliveWeight_def)
    with True Cons.IH [of "tot + be_Weight (st ! wb_Backend b)"] Cons.prems nonneg
    show ?thesis by (simp add: aliveWeight_def)
  next
    case False
    with Cons.IH [of tot] Cons.prems show ?thesis by (simp add: aliveWeight_def)
  qed
qed

lemma swrr_total_small:
  assumes "weights_ok st bs"
  shows "totalWeight st bs < 2 ^ 63"
proof -
  have "bs \<noteq> []" using assms by (auto simp: weights_ok_def totalWeight_def)
  then have "1 \<le> int (length bs)" by (cases bs) auto
  then have "1 * totalWeight st bs \<le> int (length bs) * totalWeight st bs"
    using assms by (intro mult_right_mono) (auto simp: weights_ok_def)
  also have "\<dots> < 2 ^ 63" using assms unfolding weights_ok_def by blast
  finally show ?thesis by simp
qed

lemma swrr_total:
  assumes "weights_ok st bs" and "w_Backends w = bs"
  shows "w_total st (w_backends w) 0 = totalWeight st bs"
proof -
  have map: "(\<Sum>b\<leftarrow>w_backends w. aliveWeight st (wb_Backend b)) = totalWeight st bs"
    using assms(2) by (auto simp: totalWeight_def w_Backends_def o_def)
  have "\<forall>b \<in> set (w_backends w). 0 \<le> aliveWeight st (wb_Backend b)"
    using assms by (auto simp: weights_ok_def w_Backends_def)
  moreover have "totalWeight st bs < 2 ^ 63" by (rule swrr_total_small [OF assms(1)])
  ultimately show ?thesis using w_total_exact [of "w_backends w" st 0] map by simp
qed

text \<open>The counters sum to zero and are above \<open>- W\<close>, so they are below \<open>n W\<close>.\<close>

lemma swrr_counter_bound:
  assumes "weights_ok st bs" and "swrr_inv st bs ps w" and "b \<in> set (w_backends w)"
  shows "wb_current b + aliveWeight st (wb_Backend b) \<le> int (length bs) * totalWeight st bs"
proof -
  let ?W = "totalWeight st bs"
  let ?cur = "\<lambda>a. int (length ps) * aliveWeight st a - ?W * int (count_list ps a)"
  let ?a = "wb_Backend b"
  have d: "distinct bs" using assms(1) by (simp add: weights_ok_def)
  have a: "?a \<in> set bs" using assms(2,3) by (auto simp: swrr_inv_def w_Backends_def)
  have low: "- ?W \<le> ?cur c" if "c \<in> set bs" for c
    using assms(2) that by (fastforce simp: swrr_inv_def w_Backends_def)
  have "(\<Sum>c\<in>set bs. ?cur c) = ?cur ?a + (\<Sum>c\<in>set bs - {?a}. ?cur c)"
    using a by (simp add: sum.remove)
  moreover have "(\<Sum>c\<in>set bs - {?a}. - ?W) \<le> (\<Sum>c\<in>set bs - {?a}. ?cur c)"
    using low by (intro sum_mono) auto
  moreover have "(\<Sum>c\<in>set bs. ?cur c) = 0"
    using assms(1,2) sum_counters by (auto simp: swrr_inv_def)
  ultimately have "?cur ?a \<le> int (card (set bs - {?a})) * ?W" by simp
  moreover have "int (card (set bs - {?a})) = int (length bs) - 1"
    using a d by (cases bs) (auto simp: distinct_card card_Diff_singleton_if)
  moreover have "aliveWeight st ?a \<le> ?W"
    using assms(1) a unfolding totalWeight_set [OF d]
    by (intro member_le_sum) (auto simp: weights_ok_def)
  moreover have "wb_current b = ?cur ?a" using assms(2,3) by (auto simp: swrr_inv_def)
  ultimately show ?thesis by (simp add: algebra_simps)
qed

text \<open>One call: every alive counter is exact, the winner is positive, and the invariant holds
  for one pick more.\<close>

lemma swrr_bump:
  assumes "weights_ok st bs" and "swrr_inv st bs ps w" and "b \<in> set (w_backends w)"
  shows "wb_current (w_bump st b) = wb_current b + aliveWeight st (wb_Backend b)"
proof (cases "be_IsAlive st (wb_Backend b)")
  case True
  have "wb_Backend b \<in> set bs" using assms(2,3) by (auto simp: swrr_inv_def w_Backends_def)
  then have "0 \<le> aliveWeight st (wb_Backend b)" using assms(1) by (auto simp: weights_ok_def)
  moreover have "- totalWeight st bs < wb_current b" using assms(2,3) by (auto simp: swrr_inv_def)
  moreover have "totalWeight st bs < 2 ^ 63"
    using swrr_total_small [OF assms(1)] .
  ultimately have "in_i64 (wb_current b + aliveWeight st (wb_Backend b))"
    using swrr_counter_bound [OF assms] assms(1) by (auto simp: in_i64_def weights_ok_def)
  with True show ?thesis by (simp add: w_bump_def aliveWeight_def)
next
  case False
  then show ?thesis by (simp add: w_bump_def aliveWeight_def)
qed

lemma swrr_bumped_sum:
  assumes "weights_ok st bs" and "swrr_inv st bs ps w"
  shows "(\<Sum>b\<leftarrow>w_backends w. wb_current (w_bump st b)) = totalWeight st bs"
proof -
  let ?cur = "\<lambda>a. int (length ps) * aliveWeight st a - totalWeight st bs * int (count_list ps a)"
  have d: "distinct bs" using assms(1) by (simp add: weights_ok_def)
  have bk: "map wb_Backend (w_backends w) = bs" using assms(2) by (simp add: swrr_inv_def w_Backends_def)
  have "map (\<lambda>b. wb_current (w_bump st b)) (w_backends w) =
      map (\<lambda>b. ?cur (wb_Backend b) + aliveWeight st (wb_Backend b)) (w_backends w)"
    using swrr_bump [OF assms] assms(2) by (auto simp: swrr_inv_def)
  also have "\<dots> = map (\<lambda>a. ?cur a + aliveWeight st a) bs"
    unfolding bk [symmetric] by simp
  finally have "(\<Sum>b\<leftarrow>w_backends w. wb_current (w_bump st b)) = (\<Sum>a\<in>set bs. ?cur a + aliveWeight st a)"
    using d by (simp add: sum_list_distinct_conv_sum_set)
  also have "\<dots> = totalWeight st bs"
    using sum_counters [OF assms(1)] assms(2) d
    by (simp add: sum.distrib totalWeight_set [OF d] swrr_inv_def)
  finally show ?thesis .
qed

lemma swrr_step:
  assumes ok: "weights_ok st bs" and inv: "swrr_inv st bs ps w"
  shows "\<exists>a w'. w_Next st r w = (w', Inr a) \<and> swrr_inv st bs (ps @ [a]) w'"
proof -
  let ?W = "totalWeight st bs" and ?es = "w_backends w"
  have W: "0 < ?W" using ok by (simp add: weights_ok_def)
  have bk: "map wb_Backend ?es = bs" using inv by (simp add: swrr_inv_def w_Backends_def)
  have d: "distinct bs" using ok by (simp add: weights_ok_def)
  have pos: "\<exists>b \<in> set ?es. 0 < wb_current (w_bump st b)"
  proof (rule ccontr)
    assume "\<not> ?thesis"
    then have "(\<Sum>b\<leftarrow>?es. wb_current (w_bump st b)) \<le> 0"
      by (intro sum_list_nonpos) (auto simp: not_less)
    with swrr_bumped_sum [OF ok inv] W show False by simp
  qed
  have dead: "wb_current (w_bump st b) \<le> 0" if "b \<in> set ?es" "\<not> be_IsAlive st (wb_Backend b)" for b
    using inv that W by (auto simp: swrr_inv_def w_bump_def aliveWeight_def)
  from pos dead have "w_best st 0 ?es None \<noteq> None"
    by (auto simp: w_best_None not_less [symmetric])
  then obtain j c where best: "w_best st 0 ?es None = Some (j, c)" by auto
  with w_best_Some [of st 0 ?es None j c]
  have j: "j < length ?es" "be_IsAlive st (wb_Backend (?es ! j))" "c = wb_current (w_bump st (?es ! j))"
    and c: "\<And>b. b \<in> set ?es \<Longrightarrow> be_IsAlive st (wb_Backend b) \<Longrightarrow> wb_current (w_bump st b) \<le> c"
    by auto
  have c1: "0 < c" using pos dead c by (metis not_le order_less_le_trans)
  let ?a = "wb_Backend (?es ! j)"
  let ?new = "(w_bump st (?es ! j))\<lparr>wb_current := i64 (c - ?W)\<rparr>"
  let ?w' = "w\<lparr>w_backends := (map (w_bump st) ?es)[j := ?new]\<rparr>"
  have "w_Next st r w = (?w', Inr ?a)"
    using best j swrr_total [OF ok] inv by (simp add: w_Next_eq swrr_inv_def)
  moreover have "swrr_inv st bs (ps @ [?a]) ?w'"
  proof -
    have "in_i64 (c - ?W)"
      using c1 j swrr_counter_bound [OF ok inv, of "?es ! j"] swrr_bump [OF ok inv, of "?es ! j"]
        swrr_total_small [OF ok] ok W by (auto simp: in_i64_def weights_ok_def)
    then have new: "wb_current ?new = c - ?W" by simp
    have other: "wb_Backend (?es ! k) \<noteq> ?a" if "k < length ?es" "k \<noteq> j" for k
      using that j(1) d unfolding bk [symmetric] by (auto simp: distinct_conv_nth)
    have entry: "wb_current (w_backends ?w' ! k) =
        int (length (ps @ [?a])) * aliveWeight st (wb_Backend (w_backends ?w' ! k)) -
          ?W * int (count_list (ps @ [?a]) (wb_Backend (w_backends ?w' ! k))) \<and>
        - ?W < wb_current (w_backends ?w' ! k)" if k: "k < length ?es" for k
    proof -
      have mem: "?es ! k \<in> set ?es" using k by simp
      then have cur: "wb_current (?es ! k) = int (length ps) * aliveWeight st (wb_Backend (?es ! k)) -
          ?W * int (count_list ps (wb_Backend (?es ! k)))" "- ?W < wb_current (?es ! k)"
        using inv by (auto simp: swrr_inv_def)
      have "0 \<le> aliveWeight st (wb_Backend (?es ! k))"
        using ok mem bk by (auto simp: weights_ok_def)
      with cur swrr_bump [OF ok inv mem] other [OF k] k j new c1 show ?thesis
        by (cases "k = j") (auto simp: algebra_simps)
    qed
    have a: "?a \<in> set bs" using j(1) bk by (metis length_map nth_map nth_mem)
    show ?thesis
    proof (rule swrr_invI)
      show "w_Backends ?w' = bs"
        using bk by (simp add: w_Backends_def map_update_same o_def j(1))
      show "set (ps @ [?a]) \<subseteq> set bs" using inv a by (simp add: swrr_inv_def)
    qed (rule entry, simp)
  qed
  ultimately show ?thesis by blast
qed

lemma swrr_run:
  assumes "weights_ok st bs" and "swrr_inv st bs ps w"
  shows "\<exists>qs w'. lb_run w_Next w (same_store st rs) = (w', map Inr qs) \<and> length qs = length rs \<and>
    swrr_inv st bs (ps @ qs) w'"
  using assms(2)
proof (induction rs arbitrary: ps w)
  case Nil
  then show ?case by simp
next
  case (Cons r rs)
  from swrr_step [OF assms(1) Cons.prems] obtain a w1 where
    1: "w_Next st r w = (w1, Inr a)" "swrr_inv st bs (ps @ [a]) w1" by blast
  from Cons.IH [OF 1(2)] obtain qs w' where
    "lb_run w_Next w1 (same_store st rs) = (w', map Inr qs)" "length qs = length rs"
    "swrr_inv st bs ((ps @ [a]) @ qs) w'" by blast
  with 1 show ?case by (intro exI [of _ "a # qs"] exI [of _ w']) simp
qed

lemma swrr_entry: "swrr_inv st bs ps w \<Longrightarrow> a \<in> set bs \<Longrightarrow> \<exists>b \<in> set (w_backends w). wb_Backend b = a"
  by (auto simp: swrr_inv_def w_Backends_def)

lemma swrr_start:
  assumes "weights_ok st (w_Backends w)" and "\<forall>b \<in> set (w_backends w). wb_current b = 0"
  shows "swrr_inv st (w_Backends w) [] w"
  using assms by (auto simp: swrr_inv_def weights_ok_def)

text \<open>
  C18. Weighted balancing is exact: from a fresh balancer (all counters zero) as many calls as the
  total weight of the alive backends return every alive backend exactly as often as its weight,
  no dead one, and leave the balancer in its initial state, so the pattern repeats. The weights
  are not negative, their sum is positive and small enough that no 64-bit counter overflows.
\<close>

theorem weighted_exact_period:
  assumes "weights_ok st (w_Backends w)" and "\<forall>b \<in> set (w_backends w). wb_current b = 0"
    and "int (length rs) = totalWeight st (w_Backends w)"
  shows "\<exists>ps. lb_run w_Next w (same_store st rs) = (w, map Inr ps) \<and>
    (\<forall>a \<in> set (w_Backends w). int (count_list ps a) = aliveWeight st a)"
proof -
  let ?bs = "w_Backends w" and ?W = "totalWeight st (w_Backends w)"
  have d: "distinct ?bs" and W: "0 < ?W" using assms(1) by (simp_all add: weights_ok_def)
  from swrr_run [OF assms(1) swrr_start [OF assms(1,2)], of rs] obtain qs w' where
    run: "lb_run w_Next w (same_store st rs) = (w', map Inr qs)" and len: "length qs = length rs"
    and inv: "swrr_inv st ?bs qs w'" by auto
  have cur: "wb_current b = ?W * (aliveWeight st (wb_Backend b) - int (count_list qs (wb_Backend b)))"
      "- ?W < wb_current b" if "b \<in> set (w_backends w')" for b
    using inv that len assms(3) by (auto simp: swrr_inv_def algebra_simps)
  have le: "int (count_list qs a) \<le> aliveWeight st a" if a: "a \<in> set ?bs" for a
  proof -
    from a obtain b where b: "b \<in> set (w_backends w')" "wb_Backend b = a"
      using swrr_entry [OF inv] by blast
    from cur [OF b(1)] have "?W * (- 1) < ?W * (aliveWeight st a - int (count_list qs a))"
      using b(2) by simp
    with W have "- 1 < aliveWeight st a - int (count_list qs a)"
      by (simp only: mult_less_cancel_left_pos)
    then show ?thesis by simp
  qed
  have "(\<Sum>a\<in>set ?bs. int (count_list qs a)) = (\<Sum>a\<in>set ?bs. aliveWeight st a)"
    using sum_count_list [of qs "set ?bs"] inv len assms(3)
    by (simp add: swrr_inv_def totalWeight_set [OF d] flip: of_nat_sum)
  then have eq: "int (count_list qs a) = aliveWeight st a" if "a \<in> set ?bs" for a
    using sum_mono_inv [of "\<lambda>a. int (count_list qs a)" "set ?bs" "aliveWeight st"] le that by simp
  have "w_backends w' = w_backends w"
  proof (rule nth_equalityI)
    have bk: "map wb_Backend (w_backends w') = map wb_Backend (w_backends w)"
      using inv by (simp add: swrr_inv_def w_Backends_def)
    then show len': "length (w_backends w') = length (w_backends w)" by (rule map_eq_imp_length_eq)
    fix i assume i: "i < length (w_backends w')"
    then have "w_backends w' ! i \<in> set (w_backends w')" "wb_Backend (w_backends w' ! i) \<in> set ?bs"
      using bk by (auto simp: w_Backends_def simp flip: bk)
    with cur(1) eq have "wb_current (w_backends w' ! i) = 0" by simp
    moreover have "wb_current (w_backends w ! i) = 0" using assms(2) i len' by simp
    moreover have "wb_Backend (w_backends w' ! i) = wb_Backend (w_backends w ! i)"
      using bk i len' by (metis nth_map)
    ultimately show "w_backends w' ! i = w_backends w ! i" by (simp add: wBackend.equality)
  qed
  then have "w' = w" by (simp add: weighted.equality)
  with run eq show ?thesis by blast
qed

lemma example_weights: "weights_ok example_store [0, 1, 2, 3]"
  by (simp add: weights_ok_def totalWeight_def aliveWeight_def be_IsAlive_def example_store_def)

theorem weighted_exact_period_witness:
  "\<exists>ps. lb_run w_Next (newWeighted [0, 1, 2, 3]) (same_store example_store (replicate 7 example_request)) =
      (newWeighted [0, 1, 2, 3], map Inr ps) \<and>
    int (count_list ps 0) = 5 \<and> int (count_list ps 1) = 1 \<and> int (count_list ps 2) = 0 \<and>
    int (count_list ps 3) = 1"
proof -
  have bk: "w_Backends (newWeighted [0, 1, 2, 3]) = [0, 1, 2, 3]"
    by (simp add: newWeighted_def w_Backends_def)
  have W: "totalWeight example_store [0, 1, 2, 3] = 7"
    by (simp add: totalWeight_def aliveWeight_def be_IsAlive_def example_store_def)
  have zero: "\<forall>b \<in> set (w_backends (newWeighted [0, 1, 2, 3])). wb_current b = 0"
    by (simp add: newWeighted_def)
  from weighted_exact_period [of example_store "newWeighted [0, 1, 2, 3]" "replicate 7 example_request",
      unfolded bk W, OF example_weights zero]
  obtain ps where "lb_run w_Next (newWeighted [0, 1, 2, 3]) (same_store example_store (replicate 7 example_request)) =
      (newWeighted [0, 1, 2, 3], map Inr ps)"
    "\<forall>a \<in> set [0, 1, 2, 3]. int (count_list ps a) = aliveWeight example_store a"
    by auto
  then show ?thesis
    by (intro exI [of _ ps]) (simp add: aliveWeight_def be_IsAlive_def example_store_def)
qed

text \<open>
  C34. Weighted balancing is smooth: after any number \<open>t\<close> of calls from a fresh balancer, a
  backend of weight \<open>w\<close> out of a total \<open>W\<close> has been returned less than \<open>t w / W + 1\<close> times, so
  no backend ever gets ahead of its share by a full call.
\<close>

theorem weighted_never_ahead:
  assumes "weights_ok st (w_Backends w)" and "\<forall>b \<in> set (w_backends w). wb_current b = 0"
  shows "\<exists>ps w'. lb_run w_Next w (same_store st rs) = (w', map Inr ps) \<and>
    (\<forall>a \<in> set (w_Backends w). totalWeight st (w_Backends w) * int (count_list ps a) <
       int (length rs) * aliveWeight st a + totalWeight st (w_Backends w))"
proof -
  let ?bs = "w_Backends w" and ?W = "totalWeight st (w_Backends w)"
  from swrr_run [OF assms(1) swrr_start [OF assms], of rs] obtain qs w' where
    run: "lb_run w_Next w (same_store st rs) = (w', map Inr qs)" and len: "length qs = length rs"
    and inv: "swrr_inv st ?bs qs w'" by auto
  have "?W * int (count_list qs a) < int (length rs) * aliveWeight st a + ?W" if a: "a \<in> set ?bs" for a
  proof -
    from a obtain b where "b \<in> set (w_backends w')" "wb_Backend b = a"
      using swrr_entry [OF inv] by blast
    with inv len show ?thesis by (auto simp: swrr_inv_def)
  qed
  with run show ?thesis by blast
qed

theorem weighted_never_ahead_witness:
  "\<exists>ps w'. lb_run w_Next (newWeighted [0, 1, 2, 3]) (same_store example_store [example_request, example_request]) =
      (w', map Inr ps) \<and> 7 * int (count_list ps 0) < 2 * 5 + 7"
proof -
  have bk: "w_Backends (newWeighted [0, 1, 2, 3]) = [0, 1, 2, 3]"
    by (simp add: newWeighted_def w_Backends_def)
  have W: "totalWeight example_store [0, 1, 2, 3] = 7" "aliveWeight example_store 0 = 5"
    by (simp_all add: totalWeight_def aliveWeight_def be_IsAlive_def example_store_def)
  have zero: "\<forall>b \<in> set (w_backends (newWeighted [0, 1, 2, 3])). wb_current b = 0"
    by (simp add: newWeighted_def)
  from weighted_never_ahead [of example_store "newWeighted [0, 1, 2, 3]" "[example_request, example_request]",
      unfolded bk W, OF example_weights zero]
  obtain ps w' where "lb_run w_Next (newWeighted [0, 1, 2, 3]) (same_store example_store [example_request, example_request]) =
      (w', map Inr ps)"
    "\<forall>a \<in> set [0, 1, 2, 3]. 7 * int (count_list ps a) <
      int (length [example_request, example_request]) * aliveWeight example_store a + 7"
    by blast
  with W show ?thesis by (intro exI [of _ ps] exI [of _ w']) auto
qed

end
