(* ===== verification/Float64.thy ===== *)
theory Float64
  imports Complex_Main Prelude
begin

section \<open>Go's float64\<close>

text \<open>
  IEEE 754 binary64 with rounding to nearest, ties to even, as far as the gateway uses it: the
  finite values are exact rationals, and every operation rounds its exact result. Subnormal
  numbers and overflow to an infinity are included; the sign of a zero is not kept (the only
  divisors are converted integers). Operations are not fused, and converting a value outside
  the range of \<open>int64\<close> gives the smallest integer, as on amd64.
\<close>

subsection \<open>Rounding a rational\<close>

fun bits :: "nat \<Rightarrow> nat" where
  "bits n = (if n = 0 then 0 else Suc (bits (n div 2)))"

declare bits.simps [simp del]

definition ilog2 :: "rat \<Rightarrow> int" where
  "ilog2 q = (let (a, b) = quotient_of q; k = int (bits (nat a)) - int (bits (nat b))
     in if 2 powi k \<le> q then k else k - 1)"

definition half_even :: "rat \<Rightarrow> int" where
  "half_even x = (let f = \<lfloor>x\<rfloor>; d = x - of_int f in
     if d < 1 / 2 then f else if 1 / 2 < d then f + 1 else if even f then f else f + 1)"

definition ulp_exp :: "rat \<Rightarrow> int" where
  "ulp_exp x = max (ilog2 \<bar>x\<bar>) (- 1022) - 52"

definition rnd :: "rat \<Rightarrow> rat" where
  "rnd x = (if x = 0 then 0 else of_int (half_even (x / 2 powi ulp_exp x)) * 2 powi ulp_exp x)"

subsection \<open>Values and operations\<close>

datatype float64 = Fin rat | PInf | NInf | NaN

definition f_round :: "rat \<Rightarrow> float64" where
  "f_round x = (let r = rnd x in if 2 ^ 1024 \<le> r then PInf else if r \<le> - (2 ^ 1024) then NInf else Fin r)"

definition f_of_int :: "int \<Rightarrow> float64" where
  "f_of_int n = f_round (of_int n)"

fun f_neg :: "float64 \<Rightarrow> float64" where
  "f_neg (Fin x) = Fin (- x)"
| "f_neg PInf = NInf"
| "f_neg NInf = PInf"
| "f_neg NaN = NaN"

fun f_add :: "float64 \<Rightarrow> float64 \<Rightarrow> float64" where
  "f_add (Fin x) (Fin y) = f_round (x + y)"
| "f_add NaN b = NaN"
| "f_add a NaN = NaN"
| "f_add PInf NInf = NaN"
| "f_add NInf PInf = NaN"
| "f_add PInf b = PInf"
| "f_add NInf b = NInf"
| "f_add a PInf = PInf"
| "f_add a NInf = NInf"

definition f_sub :: "float64 \<Rightarrow> float64 \<Rightarrow> float64" where
  "f_sub a b = f_add a (f_neg b)"

definition f_inf :: "rat \<Rightarrow> float64" where
  "f_inf s = (if s = 0 then NaN else if 0 < s then PInf else NInf)"

fun f_sign :: "float64 \<Rightarrow> rat" where
  "f_sign (Fin x) = sgn x"
| "f_sign PInf = 1"
| "f_sign NInf = - 1"
| "f_sign NaN = 0"

fun f_mul :: "float64 \<Rightarrow> float64 \<Rightarrow> float64" where
  "f_mul (Fin x) (Fin y) = f_round (x * y)"
| "f_mul NaN b = NaN"
| "f_mul a NaN = NaN"
| "f_mul a b = f_inf (f_sign a * f_sign b)"

fun f_div :: "float64 \<Rightarrow> float64 \<Rightarrow> float64" where
  "f_div (Fin x) (Fin y) = (if y = 0 then f_inf (sgn x) else f_round (x / y))"
| "f_div NaN b = NaN"
| "f_div a NaN = NaN"
| "f_div (Fin x) b = Fin 0"
| "f_div a (Fin y) = f_inf (f_sign a * (if y = 0 then 1 else sgn y))"
| "f_div a b = NaN"

fun f_less :: "float64 \<Rightarrow> float64 \<Rightarrow> bool" where
  "f_less (Fin x) (Fin y) = (x < y)"
| "f_less NaN b = False"
| "f_less a NaN = False"
| "f_less NInf b = (b \<noteq> NInf)"
| "f_less a PInf = (a \<noteq> PInf)"
| "f_less a b = False"

definition rat_trunc :: "rat \<Rightarrow> int" where
  "rat_trunc x = (if 0 \<le> x then \<lfloor>x\<rfloor> else - \<lfloor>- x\<rfloor>)"

fun f_to_int64 :: "float64 \<Rightarrow> int" where
  "f_to_int64 (Fin x) = (if in_i64 (rat_trunc x) then rat_trunc x else - (2 ^ 63))"
| "f_to_int64 a = - (2 ^ 63)"

text \<open>\<open>time.Duration.Seconds\<close>: whole seconds plus the remaining nanoseconds as a fraction.\<close>

definition duration_Seconds :: "duration \<Rightarrow> float64" where
  "duration_Seconds d =
     f_add (f_of_int (d sdiv time_Second)) (f_div (f_of_int (d smod time_Second)) (f_of_int (10 ^ 9)))"

subsection \<open>The binary exponent\<close>

lemma bits_0 [simp]: "bits 0 = 0"
  by (simp add: bits.simps)

lemma bits_1 [simp]: "bits (Suc 0) = 1"
  by (subst bits.simps) simp

lemma bits_bounds: "0 < n \<Longrightarrow> 2 ^ (bits n - 1) \<le> n \<and> n < 2 ^ bits n \<and> 0 < bits n"
proof (induction n rule: bits.induct)
  case (1 n)
  show ?case
  proof (cases "n div 2 = 0")
    case True
    with 1 have "n = 1" by simp
    then show ?thesis by simp
  next
    case False
    then have IH: "2 ^ (bits (n div 2) - 1) \<le> n div 2" "n div 2 < 2 ^ bits (n div 2)" "0 < bits (n div 2)"
      using 1 by auto
    moreover have b: "bits n = Suc (bits (n div 2))" using 1 by (simp add: bits.simps [of n])
    moreover have "(2::nat) ^ bits (n div 2) = 2 * 2 ^ (bits (n div 2) - 1)"
      using IH(3) by (metis Suc_pred' power_Suc)
    moreover have "n < 2 * (n div 2) + 2" by simp
    moreover have "2 * 2 ^ (bits (n div 2) - 1) \<le> n"
      using mult_le_mono2 [OF IH(1), of 2] times_div_less_eq_dividend [of 2 n] by linarith
    ultimately show ?thesis by auto
  qed
qed

lemma pow2_pos [simp]: "0 < (2::rat) powi k"
  by simp

lemma pow2_nz [simp]: "(2::rat) powi k \<noteq> 0"
  by simp

lemma pow2_add: "(2::rat) powi (a + b) = 2 powi a * 2 powi b"
  by (simp add: power_int_add)

lemma pow2_mono: "a \<le> b \<Longrightarrow> (2::rat) powi a \<le> 2 powi b"
  by (simp add: power_int_increasing)

lemma pow2_less_iff: "(2::rat) powi a < 2 powi b \<longleftrightarrow> a < b"
  by (meson not_less one_less_numeral_iff pow2_mono power_int_strict_increasing semiring_norm(76))

lemma ilog2_bounds:
  assumes "0 < q"
  shows "2 powi ilog2 q \<le> q" and "q < 2 powi (ilog2 q + 1)"
proof -
  obtain a b where ab: "quotient_of q = (a, b)" by (cases "quotient_of q")
  then have b: "0 < b" and q: "q = of_int a / of_int b"
    by (auto dest: quotient_of_denom_pos quotient_of_div)
  with assms have a: "0 < a" by (simp add: zero_less_divide_iff)
  let ?x = "bits (nat a)" and ?y = "bits (nat b)"
  have nat_bounds: "(2::rat) powi (int (bits (nat c)) - 1) \<le> of_int c \<and> of_int c < (2::rat) powi int (bits (nat c))"
    if c: "0 < c" for c
  proof -
    have "2 ^ (bits (nat c) - 1) \<le> nat c" "nat c < 2 ^ bits (nat c)" "0 < bits (nat c)"
      using bits_bounds [of "nat c"] c by auto
    then have "of_nat (2 ^ (bits (nat c) - 1)) \<le> (of_nat (nat c) :: rat)"
        "(of_nat (nat c) :: rat) < of_nat (2 ^ bits (nat c))"
      by (simp_all only: of_nat_le_iff of_nat_less_iff)
    moreover have "(2::rat) powi (int (bits (nat c)) - 1) = 2 ^ (bits (nat c) - 1)"
      using \<open>0 < bits (nat c)\<close> by (simp add: power_int_def nat_diff_distrib)
    ultimately show ?thesis using c by simp
  qed
  let ?k = "int ?x - int ?y"
  have "2 powi (?k - 1) * (of_int b :: rat) \<le> 2 powi (?k - 1) * 2 powi int ?y"
    using nat_bounds [OF b] by (intro mult_left_mono) auto
  also have "\<dots> = 2 powi (int ?x - 1)" by (simp only: pow2_add [symmetric]) simp
  also have "\<dots> \<le> of_int a" using nat_bounds [OF a] by simp
  finally have low: "2 powi (?k - 1) \<le> q" using b q by (simp add: pos_le_divide_eq)
  have "(of_int a :: rat) < 2 powi int ?x" using nat_bounds [OF a] by simp
  also have "\<dots> = 2 powi (?k + 1) * 2 powi (int ?y - 1)" by (simp only: pow2_add [symmetric]) simp
  also have "\<dots> \<le> 2 powi (?k + 1) * of_int b"
    using nat_bounds [OF b] by (intro mult_left_mono) auto
  finally have high: "q < 2 powi (?k + 1)" using b q by (simp add: pos_divide_less_eq)
  have "ilog2 q = (if 2 powi ?k \<le> q then ?k else ?k - 1)" by (simp add: ilog2_def ab Let_def)
  with low high show "2 powi ilog2 q \<le> q" "q < 2 powi (ilog2 q + 1)" by auto
qed

lemma ilog2_mono: "0 < x \<Longrightarrow> x \<le> y \<Longrightarrow> ilog2 x \<le> ilog2 y"
proof -
  assume "0 < x" "x \<le> y"
  then have "2 powi ilog2 x < (2::rat) powi (ilog2 y + 1)"
    using ilog2_bounds(1) [of x] ilog2_bounds(2) [of y] by simp
  then show ?thesis by (simp add: pow2_less_iff)
qed

subsection \<open>Rounding is monotone, odd, and exact on representable values\<close>

lemma half_even_int [simp]: "half_even (of_int n) = n"
  by (simp add: half_even_def)

lemma half_even_mono: "x \<le> y \<Longrightarrow> half_even x \<le> half_even y"
proof -
  assume xy: "x \<le> y"
  then have f: "\<lfloor>x\<rfloor> \<le> \<lfloor>y\<rfloor>" by (rule floor_mono)
  show ?thesis
  proof (cases "\<lfloor>x\<rfloor> = \<lfloor>y\<rfloor>")
    case True
    with xy show ?thesis by (auto simp: half_even_def Let_def)
  next
    case False
    with f have "\<lfloor>x\<rfloor> + 1 \<le> \<lfloor>y\<rfloor>" by simp
    then show ?thesis by (auto simp: half_even_def Let_def)
  qed
qed

lemma half_even_neg: "half_even (- x) = - half_even x"
proof (cases "x = of_int \<lfloor>x\<rfloor>")
  case True
  then have "half_even (- x) = half_even (of_int (- \<lfloor>x\<rfloor>))" "half_even x = half_even (of_int \<lfloor>x\<rfloor>)" by simp_all
  then show ?thesis by (simp only: half_even_int)
next
  case False
  then have "\<lfloor>- x\<rfloor> = - \<lfloor>x\<rfloor> - 1" by (simp add: floor_eq_iff) linarith
  then show ?thesis by (auto simp: half_even_def Let_def)
qed

lemma ulp_exp_neg [simp]: "ulp_exp (- x) = ulp_exp x"
  by (simp add: ulp_exp_def)

lemma rnd_0 [simp]: "rnd 0 = 0"
  by (simp add: rnd_def)

lemma rnd_neg: "rnd (- x) = - rnd x"
  by (simp add: rnd_def half_even_neg)

lemma scaled_bound: "0 < x \<Longrightarrow> x / 2 powi ulp_exp x < 2 ^ 53"
proof -
  assume x: "0 < x"
  have "x < 2 powi (ilog2 x + 1)" by (rule ilog2_bounds [OF x])
  also have "\<dots> \<le> 2 powi (ulp_exp x + 53)"
    using x by (intro pow2_mono) (simp add: ulp_exp_def)
  finally have "x < 2 powi ulp_exp x * 2 ^ 53" by (simp add: pow2_add)
  then show ?thesis by (simp add: pos_divide_less_eq mult.commute)
qed

lemma half_even_le: "x \<le> of_int n \<Longrightarrow> half_even x \<le> n"
  using half_even_mono [of x "of_int n"] by simp

lemma half_even_ge: "of_int n \<le> x \<Longrightarrow> n \<le> half_even x"
  using half_even_mono [of "of_int n" x] by simp

lemma rnd_nonneg: "0 \<le> x \<Longrightarrow> 0 \<le> rnd x"
  using half_even_ge [of 0 "x / 2 powi ulp_exp x"] by (simp add: rnd_def)

lemma rnd_pos_le: "0 < x \<Longrightarrow> rnd x \<le> 2 powi (ulp_exp x + 53)"
proof -
  assume x: "0 < x"
  have "half_even (x / 2 powi ulp_exp x) \<le> 2 ^ 53"
    using scaled_bound [OF x] by (intro half_even_le) simp
  then have "of_int (half_even (x / 2 powi ulp_exp x)) \<le> (of_int (2 ^ 53) :: rat)"
    by (simp only: of_int_le_iff)
  then have "rnd x \<le> 2 ^ 53 * 2 powi ulp_exp x"
    using x by (simp add: rnd_def mult_right_mono)
  then show ?thesis by (simp add: pow2_add mult.commute)
qed

lemma rnd_pos_ge:
  assumes "0 < x" and "2 powi (ulp_exp x + 52) \<le> x"
  shows "2 powi (ulp_exp x + 52) \<le> rnd x"
proof -
  have "2 powi ulp_exp x * 2 ^ 52 \<le> x" using assms(2) by (simp add: pow2_add)
  then have "2 ^ 52 \<le> x / 2 powi ulp_exp x" by (simp add: pos_le_divide_eq mult.commute)
  then have "2 ^ 52 \<le> half_even (x / 2 powi ulp_exp x)" by (intro half_even_ge) simp
  then have "(of_int (2 ^ 52) :: rat) \<le> of_int (half_even (x / 2 powi ulp_exp x))"
    by (simp only: of_int_le_iff)
  then have "2 ^ 52 * 2 powi ulp_exp x \<le> rnd x"
    using assms(1) by (simp add: rnd_def mult_right_mono)
  then show ?thesis by (simp add: pow2_add mult.commute)
qed

lemma rnd_mono_pos:
  assumes "0 < x" and "x \<le> y"
  shows "rnd x \<le> rnd y"
proof (cases "ulp_exp x = ulp_exp y")
  case True
  have "x / 2 powi ulp_exp x \<le> y / 2 powi ulp_exp x"
    using assms by (intro divide_right_mono) auto
  then have "half_even (x / 2 powi ulp_exp x) \<le> half_even (y / 2 powi ulp_exp x)" by (rule half_even_mono)
  with True assms show ?thesis by (simp add: rnd_def mult_right_mono)
next
  case False
  have y: "0 < y" using assms by simp
  have "ilog2 x \<le> ilog2 y" using assms by (rule ilog2_mono)
  with False assms y have less: "ulp_exp x < ulp_exp y" and unclamped: "ulp_exp y = ilog2 y - 52"
    by (auto simp: ulp_exp_def)
  have "rnd x \<le> 2 powi (ulp_exp x + 53)" by (rule rnd_pos_le [OF assms(1)])
  also have "\<dots> \<le> 2 powi (ulp_exp y + 52)" using less by (intro pow2_mono) simp
  also have "\<dots> \<le> rnd y"
    using ilog2_bounds(1) [OF y] unclamped by (intro rnd_pos_ge [OF y]) simp
  finally show ?thesis .
qed

lemma rnd_mono: "x \<le> y \<Longrightarrow> rnd x \<le> rnd y"
proof -
  assume xy: "x \<le> y"
  consider "0 < x" | "x \<le> 0" "0 \<le> y" | "y < 0" by linarith
  then show ?thesis
  proof cases
    case 1
    with xy show ?thesis by (rule rnd_mono_pos [rotated])
  next
    case 2
    then have "0 \<le> rnd (- x)" "0 \<le> rnd y" by (auto intro: rnd_nonneg)
    then show ?thesis by (simp add: rnd_neg)
  next
    case 3
    with xy have "rnd (- y) \<le> rnd (- x)" by (intro rnd_mono_pos) auto
    then show ?thesis by (simp add: rnd_neg)
  qed
qed

text \<open>The numbers \<open>k 2^j\<close> with at most 53 bits and an exponent in range are exact.\<close>

definition representable :: "rat \<Rightarrow> bool" where
  "representable x \<longleftrightarrow> (\<exists>k j. x = of_int k * 2 powi j \<and> \<bar>k\<bar> \<le> 2 ^ 53 \<and> - 1074 \<le> j)"

lemma pow2_int: "0 \<le> i \<Longrightarrow> (2::rat) powi i = of_int (2 ^ nat i)"
  by (simp add: power_int_def)

lemma scaled_int:
  assumes "x = of_int k * 2 powi j" and "u \<le> j"
  shows "rnd' = of_int (half_even (x / 2 powi u)) * 2 powi u \<Longrightarrow> rnd' = x"
proof -
  have "x / 2 powi u = of_int k * 2 powi (j - u)"
    using assms(1) by (simp add: power_int_diff)
  also have "\<dots> = of_int (k * 2 ^ nat (j - u))" using assms(2) by (simp add: pow2_int)
  finally have "half_even (x / 2 powi u) = k * 2 ^ nat (j - u)" "x / 2 powi u = of_int (k * 2 ^ nat (j - u))"
    by (simp_all only: half_even_int)
  then have "of_int (half_even (x / 2 powi u)) = x / 2 powi u" by simp
  then show "rnd' = of_int (half_even (x / 2 powi u)) * 2 powi u \<Longrightarrow> rnd' = x" by simp
qed

lemma rnd_exact:
  assumes "representable x"
  shows "rnd x = x"
proof (cases "x = 0")
  case False
  from assms obtain k j where kj: "x = of_int k * 2 powi j" "\<bar>k\<bar> \<le> 2 ^ 53" "- 1074 \<le> j"
    by (auto simp: representable_def)
  let ?u = "ulp_exp x"
  have r: "rnd x = of_int (half_even (x / 2 powi ?u)) * 2 powi ?u" using False by (simp add: rnd_def)
  show ?thesis
  proof (cases "?u \<le> j")
    case True
    from scaled_int [OF kj(1) True r] show ?thesis .
  next
    case low: False
    with kj(3) have e: "?u = ilog2 \<bar>x\<bar> - 52" by (auto simp: ulp_exp_def max_def split: if_splits)
    have abs: "\<bar>x\<bar> = of_int \<bar>k\<bar> * 2 powi j" using kj(1) by (simp add: abs_mult)
    have "2 powi (?u + 52) \<le> \<bar>x\<bar>" using ilog2_bounds(1) [of "\<bar>x\<bar>"] False e by simp
    moreover have "of_int \<bar>k\<bar> \<le> (of_int (2 ^ 53) :: rat)" using kj(2) by (simp only: of_int_le_iff)
    then have "\<bar>x\<bar> \<le> 2 ^ 53 * 2 powi j" unfolding abs by (intro mult_right_mono) auto
    ultimately have ge: "2 powi (?u + 52) \<le> (2::rat) powi (j + 53)" by (simp add: pow2_add mult.commute)
    have "j + 1 \<le> ?u" using low by simp
    moreover have "?u \<le> j + 1"
    proof (rule ccontr)
      assume "\<not> ?thesis"
      then have "2 powi (j + 53) < (2::rat) powi (?u + 52)" by (subst pow2_less_iff) simp
      with ge show False by (meson not_less)
    qed
    ultimately have u: "?u = j + 1" by simp
    with ge \<open>2 powi (?u + 52) \<le> \<bar>x\<bar>\<close> \<open>\<bar>x\<bar> \<le> 2 ^ 53 * 2 powi j\<close>
    have "\<bar>x\<bar> = 2 ^ 53 * 2 powi j" by (simp add: pow2_add)
    then have "of_int \<bar>k\<bar> = (2 ^ 53 :: rat)" unfolding abs by simp
    then have "of_int \<bar>k\<bar> = (of_int (2 ^ 53) :: rat)" by simp
    then have "\<bar>k\<bar> = 2 ^ 53" by (simp only: of_int_eq_iff)
    then have "k = 2 ^ 53 \<or> k = - (2 ^ 53)" by (simp add: abs_if split: if_splits)
    then have "k = 2 * (k div 2)" by auto
    then have "(of_int k :: rat) = 2 * of_int (k div 2)" by (metis of_int_mult of_int_numeral)
    then have "x = of_int (k div 2) * 2 powi (j + 1)" using kj(1) by (simp add: pow2_add)
    from scaled_int [OF this _ r] u show ?thesis by simp
  qed
qed simp

subsection \<open>Facts for the users of the arithmetic\<close>

lemma representable_int: "\<bar>n\<bar> \<le> 2 ^ 53 \<Longrightarrow> representable (of_int n)"
  unfolding representable_def by (intro exI [of _ n] exI [of _ 0]) simp

lemma representable_neg: "representable x \<Longrightarrow> representable (- x)"
proof -
  assume "representable x"
  then obtain k j where "x = of_int k * 2 powi j" "\<bar>k\<bar> \<le> 2 ^ 53" "- 1074 \<le> j"
    by (auto simp: representable_def)
  then show ?thesis
    unfolding representable_def by (intro exI [of _ "- k"] exI [of _ j]) simp
qed

lemma representable_rnd: "representable (rnd x)"
proof -
  have pos: "representable (rnd x)" if "0 < x" for x
  proof -
    let ?k = "half_even (x / 2 powi ulp_exp x)"
    have "?k \<le> 2 ^ 53" using scaled_bound [OF that] by (intro half_even_le) simp
    moreover have "0 \<le> ?k" using that by (intro half_even_ge) simp
    moreover have "- 1074 \<le> ulp_exp x" by (simp add: ulp_exp_def)
    ultimately show ?thesis
      using that unfolding representable_def by (intro exI [of _ ?k] exI [of _ "ulp_exp x"]) (simp add: rnd_def)
  qed
  consider "0 < x" | "x = 0" | "0 < - x" by linarith
  then show ?thesis
  proof cases
    case 2
    then show ?thesis using representable_int [of 0] by simp
  next
    case 3
    from representable_neg [OF pos [OF this]] show ?thesis by (simp add: rnd_neg)
  qed (rule pos)
qed

lemma rnd_idem [simp]: "rnd (rnd x) = rnd x"
  by (rule rnd_exact [OF representable_rnd])

lemma rnd_int [simp]: "\<bar>n\<bar> \<le> 2 ^ 53 \<Longrightarrow> rnd (of_int n) = of_int n"
  by (rule rnd_exact [OF representable_int])

lemma rnd_0_1 [simp]: "rnd 1 = 1"
  using rnd_int [of 1] by simp

lemma rnd_between: "a \<le> x \<Longrightarrow> x \<le> b \<Longrightarrow> rnd a = a \<Longrightarrow> rnd b = b \<Longrightarrow> a \<le> rnd x \<and> rnd x \<le> b"
  using rnd_mono [of a x] rnd_mono [of x b] by simp

lemma representable_pow2: "- 1074 \<le> j \<Longrightarrow> representable (2 powi j)"
  unfolding representable_def by (intro exI [of _ 1] exI [of _ j]) simp

lemma f_round_Fin: "\<bar>x\<bar> \<le> 2 ^ 1000 \<Longrightarrow> f_round x = Fin (rnd x)"
proof -
  assume x: "\<bar>x\<bar> \<le> 2 ^ 1000"
  have big: "rnd (2 powi 1000) = 2 powi 1000"
    by (rule rnd_exact, rule representable_pow2) simp
  have "- (2 powi 1000) \<le> x" "x \<le> 2 powi 1000"
    using x by (simp_all add: abs_le_iff power_int_def)
  then have "- (2 powi 1000) \<le> rnd x \<and> rnd x \<le> 2 powi 1000"
    by (rule rnd_between) (use big rnd_neg in simp_all)
  moreover have "2 powi 1000 < (2::rat) ^ 1024"
    using pow2_less_iff [of 1000 1024] by (simp add: power_int_def)
  ultimately show ?thesis by (auto simp: f_round_def Let_def)
qed

lemma small_abs: "\<bar>x\<bar> \<le> 2 ^ k \<Longrightarrow> k \<le> 1000 \<Longrightarrow> \<bar>x\<bar> \<le> (2::rat) ^ 1000"
  by (meson order_trans power_increasing one_le_numeral)

lemma f_of_int_Fin: "in_i64 n \<Longrightarrow> f_of_int n = Fin (rnd (of_int n))"
proof -
  assume "in_i64 n"
  then have "\<bar>n\<bar> \<le> 2 ^ 63" by (auto simp: in_i64_def)
  then have "of_int \<bar>n\<bar> \<le> (of_int (2 ^ 63) :: rat)" by (simp only: of_int_le_iff)
  then have "\<bar>of_int n\<bar> \<le> (2::rat) ^ 63" by simp
  from small_abs [OF this] show ?thesis by (simp add: f_of_int_def f_round_Fin)
qed

lemma f_of_int_small [simp]: "\<bar>n\<bar> \<le> 2 ^ 53 \<Longrightarrow> f_of_int n = Fin (of_int n)"
  by (subst f_of_int_Fin) (auto simp: in_i64_def)

text \<open>The seconds of a duration: a finite value, not negative, at most ten billion.\<close>

lemma duration_Seconds_Fin:
  assumes "0 \<le> d" and "in_i64 d"
  shows "\<exists>s. duration_Seconds d = Fin s \<and> 0 \<le> s \<and> s \<le> 10 ^ 10 \<and> rnd s = s"
proof -
  let ?q = "d sdiv time_Second" and ?m = "d smod time_Second"
  have q: "0 \<le> ?q" "?q \<le> 9223372037" and m: "0 \<le> ?m" "?m < 10 ^ 9"
    using assms by (simp_all add: time_Second_def sdiv_nonneg smod_nonneg in_i64_def)
  let ?f = "(of_int ?m / 10 ^ 9) :: rat"
  have f: "0 \<le> ?f" "?f \<le> 1" using m by simp_all
  then have rf: "0 \<le> rnd ?f \<and> rnd ?f \<le> 1" by (intro rnd_between) auto
  have div: "f_div (f_of_int ?m) (f_of_int (10 ^ 9)) = Fin (rnd ?f)"
    using m f f_round_Fin [of ?f] small_abs [of ?f 0] by simp
  let ?s = "of_int ?q + rnd ?f"
  have s: "0 \<le> ?s" "?s \<le> 10 ^ 10"
  proof -
    have "(of_int ?q :: rat) \<le> 9223372037" using q(2) by (metis of_int_le_iff of_int_numeral)
    then show "0 \<le> ?s" "?s \<le> 10 ^ 10" using rf q(1) by simp_all
  qed
  have "duration_Seconds d = f_round ?s"
    using q div by (simp add: duration_Seconds_def)
  also have "\<dots> = Fin (rnd ?s)"
    using s small_abs [of ?s 34] by (intro f_round_Fin) simp
  moreover have "0 \<le> rnd ?s \<and> rnd ?s \<le> 10 ^ 10"
    using s rnd_int [of "10 ^ 10"] by (intro rnd_between) simp_all
  ultimately show ?thesis by auto
qed

lemma duration_Seconds_0 [simp]: "duration_Seconds 0 = Fin 0"
  by (simp add: duration_Seconds_def time_Second_def f_round_Fin)

end
