(* ===== verification/GoTime.thy ===== *)
theory GoTime
  imports Float64 Http
begin

section \<open>Parsing durations\<close>

text \<open>
  \<open>time.ParseDuration\<close>, which the rate limiter applies to the configured window: an optional
  sign and a sequence of decimal numbers with units; \<open>None\<close> is its error. Sums are kept in
  \<open>uint64\<close>, fractions go through \<open>float64\<close>.
\<close>

definition u64 :: "int \<Rightarrow> int" where
  "u64 x = x mod 2 ^ 64"

definition digit_val :: "char \<Rightarrow> int" where
  "digit_val c = int (byte_of c) - 48"

fun leadingInt :: "int \<Rightarrow> string \<Rightarrow> (int \<times> string) option" where
  "leadingInt x [] = Some (x, [])"
| "leadingInt x (c # cs) =
     (if \<not> isDigitByte c then Some (x, c # cs)
      else if 2 ^ 63 div 10 < x then None
      else let x' = x * 10 + digit_val c in if 2 ^ 63 < x' then None else leadingInt x' cs)"

text \<open>The digits after the point, up to what fits; \<open>over\<close> is set once a digit did not.\<close>

fun leadingFraction :: "int \<Rightarrow> float64 \<Rightarrow> bool \<Rightarrow> string \<Rightarrow> int \<times> float64 \<times> string" where
  "leadingFraction x scale over [] = (x, scale, [])"
| "leadingFraction x scale over (c # cs) =
     (if \<not> isDigitByte c then (x, scale, c # cs)
      else if over then leadingFraction x scale True cs
      else if (2 ^ 63 - 1) div 10 < x then leadingFraction x scale True cs
      else let y = x * 10 + digit_val c in
           if 2 ^ 63 < y then leadingFraction x scale True cs
           else leadingFraction y (f_mul scale (f_of_int 10)) False cs)"

definition unitMap :: "string \<Rightarrow> int option" where
  "unitMap u =
     map_of [(''ns'', 1), (''us'', 10 ^ 3), ([CHR 0xC2, CHR 0xB5, CHR ''s''], 10 ^ 3),
       ([CHR 0xCE, CHR 0xBC, CHR ''s''], 10 ^ 3), (''ms'', 10 ^ 6), (''s'', 10 ^ 9),
       (''m'', 60 * 10 ^ 9), (''h'', 3600 * 10 ^ 9)] u"

definition isUnitByte :: "char \<Rightarrow> bool" where
  "isUnitByte c \<longleftrightarrow> \<not> (c = CHR ''.'' \<or> isDigitByte c)"

fun f_to_uint64 :: "float64 \<Rightarrow> int" where
  "f_to_uint64 (Fin x) = u64 (rat_trunc x)"
| "f_to_uint64 a = 2 ^ 63"

text \<open>The fraction, its scale, the rest, and whether a digit followed the point.\<close>

definition parseFraction :: "string \<Rightarrow> int \<times> float64 \<times> string \<times> bool" where
  "parseFraction s =
     (case s of
        [] \<Rightarrow> (0, f_of_int 1, s, False)
      | c # cs \<Rightarrow>
          if c = CHR ''.''
          then (case leadingFraction 0 (f_of_int 1) False cs of
                  (f, scale, s') \<Rightarrow> (f, scale, s', length s' \<noteq> length cs))
          else (0, f_of_int 1, s, False))"

text \<open>The value of a number in nanoseconds, unless it overflows.\<close>

definition scaleUnit :: "int \<Rightarrow> int \<Rightarrow> float64 \<Rightarrow> int \<Rightarrow> int option" where
  "scaleUnit v f scale unit =
     (if 2 ^ 63 div unit < v then None
      else if 0 < f
      then let v' = u64 (v * unit + f_to_uint64 (f_mul (f_of_int f) (f_div (f_of_int unit) scale)))
           in if 2 ^ 63 < v' then None else Some v'
      else Some (v * unit))"

text \<open>One number with its unit: its nanoseconds and the rest of the string.\<close>

definition parseItem :: "string \<Rightarrow> (int \<times> string) option" where
  "parseItem s =
     (if s = [] \<or> \<not> (hd s = CHR ''.'' \<or> isDigitByte (hd s)) then None
      else case leadingInt 0 s of
        None \<Rightarrow> None
      | Some (v, s1) \<Rightarrow>
          (case parseFraction s1 of
             (f, scale, s2, post) \<Rightarrow>
               if length s1 = length s \<and> \<not> post then None
               else if takeWhile isUnitByte s2 = [] then None
               else case unitMap (takeWhile isUnitByte s2) of
                 None \<Rightarrow> None
               | Some unit \<Rightarrow>
                   (case scaleUnit v f scale unit of
                      None \<Rightarrow> None
                    | Some v' \<Rightarrow> Some (v', dropWhile isUnitByte s2))))"

lemma leadingInt_length: "leadingInt x s = Some (v, s') \<Longrightarrow> length s' \<le> length s"
  by (induction x s rule: leadingInt.induct) (auto simp: Let_def split: if_splits)

lemma leadingFraction_length: "leadingFraction x sc ov s = (f, sc', s') \<Longrightarrow> length s' \<le> length s"
  by (induction x sc ov s rule: leadingFraction.induct) (auto simp: Let_def split: if_splits)

lemma dropWhile_shorter: "takeWhile P s \<noteq> [] \<Longrightarrow> length (dropWhile P s) < length s"
  by (cases s) (auto simp: less_Suc_eq_le length_dropWhile_le split: if_splits)

lemma parseFraction_length: "parseFraction s = (f, sc, s', p) \<Longrightarrow> length s' \<le> length s"
  by (cases s) (auto simp: parseFraction_def split: if_splits prod.splits dest!: leadingFraction_length)

lemma parseItem_shorter: "parseItem s = Some (v, s') \<Longrightarrow> length s' < length s"
  by (auto simp: parseItem_def split: if_splits option.splits prod.splits
      dest!: leadingInt_length parseFraction_length dropWhile_shorter)

function parseItems :: "int \<Rightarrow> string \<Rightarrow> int option" where
  "parseItems d s =
     (if s = [] then Some d
      else case parseItem s of
        None \<Rightarrow> None
      | Some (v, s') \<Rightarrow> let d' = u64 (d + v) in if 2 ^ 63 < d' then None else parseItems d' s')"
  by pat_completeness auto
termination
  by (relation "measure (\<lambda>(d, s). length s)") (auto dest: parseItem_shorter)

declare parseItems.simps [simp del]

definition time_ParseDuration :: "string \<Rightarrow> duration option" where
  "time_ParseDuration str =
     (let (neg, s) = (case str of
            c # cs \<Rightarrow> if c = CHR ''-'' \<or> c = CHR ''+'' then (c = CHR ''-'', cs) else (False, str)
          | [] \<Rightarrow> (False, []))
      in if s = ''0'' then Some 0
         else if s = [] then None
         else case parseItems 0 s of
           None \<Rightarrow> None
         | Some d \<Rightarrow> if neg then Some (- d) else if 2 ^ 63 - 1 < d then None else Some d)"

lemma parse_1m: "time_ParseDuration ''1m'' = Some (60 * 10 ^ 9)"
  by (simp add: time_ParseDuration_def parseItems.simps parseItem_def parseFraction_def scaleUnit_def
      unitMap_def isDigitByte_def isUnitByte_def byte_of_def digit_val_def u64_def Let_def)

lemma parse_empty: "time_ParseDuration [] = None"
  by (simp add: time_ParseDuration_def)

end
