(* ===== verification/RateLimiter.thy ===== *)
theory RateLimiter
  imports Config GoTime
begin

section \<open>Package ratelimiter: per-key rate limiting\<close>

text \<open>
  \<open>internal/ratelimiter/ratelimiter.go\<close>. A bucket is only touched under its own lock and the
  table under the limiter's, so an \<open>Allow\<close> call is one atomic step on the limiter. The clock
  readings are the first arguments: \<open>t0\<close> is the reading of a bucket's creation. The outcome of
  a call is a panic or the value behind \<open>error\<close>.
\<close>

subsection \<open>Keys and outcomes\<close>

datatype rl_result =
    Allowed
  | ErrRateLimited duration

definition buildKeyFn :: "string \<Rightarrow> request \<Rightarrow> string" where
  "buildKeyFn keyBy r =
     (if keyBy = ''api_key'' then
        (if header_Get (r_Header r) ''X-API-Key'' \<noteq> []
         then ''apikey:'' @ header_Get (r_Header r) ''X-API-Key'' else ''apikey:anonymous'')
      else if keyBy = ''user'' then
        (if header_Get (r_Header r) ''X-User-ID'' \<noteq> []
         then ''user:'' @ header_Get (r_Header r) ''X-User-ID'' else ''user:anonymous'')
      else
        (if header_Get (r_Header r) ''X-Forwarded-For'' \<noteq> []
         then ''ip:'' @ header_Get (r_Header r) ''X-Forwarded-For''
         else ''ip:'' @ r_RemoteAddr r))"

subsection \<open>Local token bucket\<close>

record tbBucket =
  tb_tokens :: float64
  tb_lastFill :: time

record localTokenBucket =
  tl_buckets :: "string \<Rightarrow> tbBucket option"
  tl_rate :: float64
  tl_burst :: int
  tl_keyFn :: "request \<Rightarrow> string"

definition rl_min :: "float64 \<Rightarrow> float64 \<Rightarrow> float64" where
  "rl_min a b = (if f_less a b then a else b)"

definition tl_getOrCreate :: "time \<Rightarrow> string \<Rightarrow> localTokenBucket \<Rightarrow> localTokenBucket \<times> tbBucket" where
  "tl_getOrCreate t0 key l =
     (case tl_buckets l key of
        Some b \<Rightarrow> (l, b)
      | None \<Rightarrow>
          (let b = \<lparr>tb_tokens = f_of_int (tl_burst l), tb_lastFill = t0\<rparr>
           in (l\<lparr>tl_buckets := (tl_buckets l)(key \<mapsto> b)\<rparr>, b)))"

definition tb_take :: "time \<Rightarrow> float64 \<Rightarrow> int \<Rightarrow> tbBucket \<Rightarrow> tbBucket \<times> rl_result" where
  "tb_take now rate burst b =
     (let elapsed = duration_Seconds (time_Sub now (tb_lastFill b));
          tokens = rl_min (f_of_int burst) (f_add (tb_tokens b) (f_mul elapsed rate));
          b1 = b\<lparr>tb_tokens := tokens, tb_lastFill := now\<rparr>
      in if f_less tokens (f_of_int 1)
         then (b1, ErrRateLimited
                (f_to_int64 (f_mul (f_div (f_sub (f_of_int 1) tokens) rate) (f_of_int (10 ^ 9)))))
         else (b1\<lparr>tb_tokens := f_sub tokens (f_of_int 1)\<rparr>, Allowed))"

definition tl_Allow :: "time \<Rightarrow> time \<Rightarrow> request \<Rightarrow> localTokenBucket \<Rightarrow> localTokenBucket \<times> (panic + rl_result)" where
  "tl_Allow t0 now r l =
     (let key = tl_keyFn l r;
          (l1, bucket) = tl_getOrCreate t0 key l;
          (bucket', res) = tb_take now (tl_rate l1) (tl_burst l1) bucket
      in (l1\<lparr>tl_buckets := (tl_buckets l1)(key \<mapsto> bucket')\<rparr>, Inr res))"

subsection \<open>Local sliding window\<close>

record localSlidingWindow =
  sl_buckets :: "string \<Rightarrow> time list option"
  sl_rate :: int
  sl_window :: duration
  sl_keyFn :: "request \<Rightarrow> string"

definition sl_getOrCreate :: "string \<Rightarrow> localSlidingWindow \<Rightarrow> localSlidingWindow \<times> time list" where
  "sl_getOrCreate key l =
     (case sl_buckets l key of
        Some b \<Rightarrow> (l, b)
      | None \<Rightarrow> (l\<lparr>sl_buckets := (sl_buckets l)(key \<mapsto> [])\<rparr>, []))"

text \<open>The timestamps that are left, and the verdict; \<open>timestamps[0]\<close> panics on an empty slice.\<close>

definition sw_take :: "time \<Rightarrow> int \<Rightarrow> duration \<Rightarrow> time list \<Rightarrow> time list \<times> (panic + rl_result)" where
  "sw_take now rate window ts =
     (let cutoff = now + i64 (- window);
          ts' = drop (scan (\<lambda>t. t < cutoff) ts) ts
      in if rate \<le> int (length ts')
         then (case ts' of
                 [] \<Rightarrow> (ts', Inl IndexOutOfRange)
               | oldest # _ \<Rightarrow> (ts', Inr (ErrRateLimited (time_Sub (oldest + window) now))))
         else (ts' @ [now], Inr Allowed))"

definition sl_Allow :: "time \<Rightarrow> request \<Rightarrow> localSlidingWindow \<Rightarrow> localSlidingWindow \<times> (panic + rl_result)" where
  "sl_Allow now r l =
     (let key = sl_keyFn l r;
          (l1, bucket) = sl_getOrCreate key l;
          (bucket', res) = sw_take now (sl_rate l1) (sl_window l1) bucket
      in (l1\<lparr>sl_buckets := (sl_buckets l1)(key \<mapsto> bucket')\<rparr>, res))"

subsection \<open>Redis\<close>

text \<open>
  The client runs the script on the server; \<open>run key now window limit\<close> is the list of integers
  it answers, or \<open>None\<close> when the call fails or times out.
\<close>

record redisLimiter =
  rd_rate :: int
  rd_window :: duration
  rd_keyFn :: "request \<Rightarrow> string"

type_synonym redis_run = "string \<Rightarrow> int \<Rightarrow> int \<Rightarrow> int \<Rightarrow> int list option"

definition time_Millisecond :: duration where
  "time_Millisecond = 1000000"

text \<open>Go's zero time is 62135596800 seconds before the Unix epoch.\<close>

definition time_UnixMilli :: "time \<Rightarrow> int" where
  "time_UnixMilli t = (t - 62135596800 * time_Second) div time_Millisecond"

definition rd_Allow :: "redis_run \<Rightarrow> time \<Rightarrow> request \<Rightarrow> redisLimiter \<Rightarrow> panic + rl_result" where
  "rd_Allow run now r rl =
     (let key = ''rl:'' @ rd_keyFn rl r;
          nowMs = time_UnixMilli now;
          windowMs = rd_window rl sdiv time_Millisecond
      in case run key nowMs windowMs (rd_rate rl) of
           None \<Rightarrow> Inr Allowed
         | Some [] \<Rightarrow> Inl IndexOutOfRange
         | Some (flag # rest) \<Rightarrow>
             if flag = 0
             then (case rest of
                     [] \<Rightarrow> Inl IndexOutOfRange
                   | oldestMs # _ \<Rightarrow>
                       Inr (ErrRateLimited (i64 (i64 (oldestMs + windowMs - nowMs) * time_Millisecond))))
             else Inr Allowed)"

subsection \<open>The interface value and its constructor\<close>

datatype limiter =
    NoopLimiter
  | TokenBucket localTokenBucket
  | SlidingWindow localSlidingWindow
  | RedisLimiter redisLimiter

datatype rl_error = InvalidWindow string | ParseRedisURL string

text \<open>\<open>parseURL\<close> is the Redis client library's check of the connection URL.\<close>

definition newRedisLimiter :: "(string \<Rightarrow> bool) \<Rightarrow> RateLimitConfig \<Rightarrow> (request \<Rightarrow> string) \<Rightarrow> rl_error + redisLimiter" where
  "newRedisLimiter parseURL cfg keyFn =
     (if \<not> parseURL (rlc_RedisURL cfg) then Inl (ParseRedisURL (rlc_RedisURL cfg))
      else let w = (case time_ParseDuration (rlc_Window cfg) of None \<Rightarrow> 0 | Some d \<Rightarrow> d);
               window = (if w = 0 then time_Second else w)
           in Inr \<lparr>rd_rate = rlc_Rate cfg, rd_window = window, rd_keyFn = keyFn\<rparr>)"

definition rl_New :: "(string \<Rightarrow> bool) \<Rightarrow> RateLimitConfig option \<Rightarrow> rl_error + limiter" where
  "rl_New parseURL cfg =
     (case cfg of
        None \<Rightarrow> Inr NoopLimiter
      | Some c \<Rightarrow>
          (let keyFn = buildKeyFn (rlc_KeyBy c) in
           if rlc_RedisURL c \<noteq> [] then map_sum id RedisLimiter (newRedisLimiter parseURL c keyFn)
           else if rlc_Algorithm c = ''sliding_window'' then
             (case time_ParseDuration (rlc_Window c) of
                None \<Rightarrow> Inl (InvalidWindow (rlc_Window c))
              | Some window \<Rightarrow>
                  Inr (SlidingWindow \<lparr>sl_buckets = Map.empty, sl_rate = rlc_Rate c,
                    sl_window = window, sl_keyFn = keyFn\<rparr>))
           else Inr (TokenBucket \<lparr>tl_buckets = Map.empty, tl_rate = f_of_int (rlc_Rate c),
                  tl_burst = rlc_Burst c, tl_keyFn = keyFn\<rparr>)))"

fun rl_Allow :: "redis_run \<Rightarrow> time \<Rightarrow> time \<Rightarrow> request \<Rightarrow> limiter \<Rightarrow> limiter \<times> (panic + rl_result)" where
  "rl_Allow run t0 now r NoopLimiter = (NoopLimiter, Inr Allowed)"
| "rl_Allow run t0 now r (TokenBucket l) = map_prod TokenBucket id (tl_Allow t0 now r l)"
| "rl_Allow run t0 now r (SlidingWindow l) = map_prod SlidingWindow id (sl_Allow now r l)"
| "rl_Allow run t0 now r (RedisLimiter l) = (RedisLimiter l, rd_Allow run now r l)"

end
