(* ===== verification/WindowProps.thy ===== *)
theory WindowProps
  imports RateLimiter
begin

section \<open>Keys are independent; the sliding window is exact\<close>

subsection \<open>Tables of buckets\<close>

text \<open>
  The contract both local limiters offer their caller: a call only reads and writes the bucket
  of its own key. What follows for the verdicts of a run is proved once: those of one key are
  the verdicts of one bucket fed with the calls of that key, whatever calls of other keys are
  interleaved with them.
\<close>

fun rl_run :: "('i \<Rightarrow> request \<Rightarrow> 'l \<Rightarrow> 'l \<times> 'o) \<Rightarrow> 'l \<Rightarrow> ('i \<times> request) list \<Rightarrow> 'l \<times> 'o list" where
  "rl_run f l [] = (l, [])"
| "rl_run f l ((i, r) # es) =
     (let (l', x) = f i r l; (l'', xs) = rl_run f l' es in (l'', x # xs))"

fun cell_run :: "('i \<Rightarrow> 'c \<Rightarrow> 'c \<times> 'o) \<Rightarrow> 'c \<Rightarrow> 'i list \<Rightarrow> 'c \<times> 'o list" where
  "cell_run f c [] = (c, [])"
| "cell_run f c (i # is) =
     (let (c', x) = f i c; (c'', xs) = cell_run f c' is in (c'', x # xs))"

definition verdicts_of :: "(request \<Rightarrow> string) \<Rightarrow> string \<Rightarrow> ('i \<times> request) list \<Rightarrow> 'o list \<Rightarrow> 'o list" where
  "verdicts_of key k es xs = map snd (filter (\<lambda>((i, r), x). key r = k) (zip es xs))"

definition calls_of :: "(request \<Rightarrow> string) \<Rightarrow> string \<Rightarrow> ('i \<times> request) list \<Rightarrow> 'i list" where
  "calls_of key k es = map fst (filter (\<lambda>(i, r). key r = k) es)"

locale keyed_limiter =
  fixes allow :: "'i \<Rightarrow> request \<Rightarrow> 'l \<Rightarrow> 'l \<times> 'o"
    and params :: "'l \<Rightarrow> 'p"
    and key :: "'p \<Rightarrow> request \<Rightarrow> string"
    and cell :: "'l \<Rightarrow> string \<Rightarrow> 'c"
    and step :: "'p \<Rightarrow> 'i \<Rightarrow> 'c \<Rightarrow> 'c \<times> 'o"
  assumes params_fixed: "params (fst (allow i r l)) = params l"
    and verdict: "snd (allow i r l) = snd (step (params l) i (cell l (key (params l) r)))"
    and only_own_cell: "cell (fst (allow i r l)) =
      (cell l)(key (params l) r := fst (step (params l) i (cell l (key (params l) r))))"
begin

lemma run_isolated:
  "verdicts_of (key (params l)) k es (snd (rl_run allow l es)) =
     snd (cell_run (step (params l)) (cell l k) (calls_of (key (params l)) k es)) \<and>
   cell (fst (rl_run allow l es)) k =
     fst (cell_run (step (params l)) (cell l k) (calls_of (key (params l)) k es))"
proof (induction es arbitrary: l)
  case Nil
  then show ?case by (simp add: verdicts_of_def calls_of_def)
next
  case (Cons e es)
  obtain i r where e: "e = (i, r)" by (cases e)
  obtain l' x where l': "allow i r l = (l', x)" by (cases "allow i r l")
  have "params l' = params l" "x = snd (step (params l) i (cell l (key (params l) r)))"
      "cell l' = (cell l)(key (params l) r := fst (step (params l) i (cell l (key (params l) r))))"
    using params_fixed [of i r l] verdict [of i r l] only_own_cell [of i r l] l' by simp_all
  with Cons.IH [of l'] e l' show ?case
    by (auto simp: verdicts_of_def calls_of_def case_prod_beta)
qed

end

text \<open>A limiter's own parameters, and its buckets read as cells that exist from the start.\<close>

definition tl_cell :: "localTokenBucket \<Rightarrow> string \<Rightarrow> tbBucket option" where
  "tl_cell l = tl_buckets l"

definition tl_params :: "localTokenBucket \<Rightarrow> float64 \<times> int \<times> (request \<Rightarrow> string)" where
  "tl_params l = (tl_rate l, tl_burst l, tl_keyFn l)"

fun tl_step :: "float64 \<times> int \<times> (request \<Rightarrow> string) \<Rightarrow> time \<times> time \<Rightarrow> tbBucket option \<Rightarrow>
    tbBucket option \<times> (panic + rl_result)" where
  "tl_step (rate, burst, keyFn) (t0, now) c =
     (let b = (case c of Some b \<Rightarrow> b | None \<Rightarrow> \<lparr>tb_tokens = f_of_int burst, tb_lastFill = t0\<rparr>);
          (b', res) = tb_take now rate burst b in (Some b', Inr res))"

interpretation tl: keyed_limiter "\<lambda>(t0, now). tl_Allow t0 now" tl_params "\<lambda>(rate, burst, keyFn). keyFn"
    tl_cell tl_step
  by unfold_locales
    (auto simp: tl_Allow_def tl_getOrCreate_def tl_params_def tl_cell_def Let_def
      split: option.splits prod.splits)

definition sl_cell :: "localSlidingWindow \<Rightarrow> string \<Rightarrow> time list" where
  "sl_cell l k = (case sl_buckets l k of None \<Rightarrow> [] | Some ts \<Rightarrow> ts)"

definition sl_params :: "localSlidingWindow \<Rightarrow> int \<times> duration \<times> (request \<Rightarrow> string)" where
  "sl_params l = (sl_rate l, sl_window l, sl_keyFn l)"

fun sl_step :: "int \<times> duration \<times> (request \<Rightarrow> string) \<Rightarrow> time \<Rightarrow> time list \<Rightarrow>
    time list \<times> (panic + rl_result)" where
  "sl_step (rate, window, keyFn) now ts = sw_take now rate window ts"

interpretation sl: keyed_limiter sl_Allow sl_params "\<lambda>(rate, window, keyFn). keyFn" sl_cell sl_step
  by unfold_locales
    (auto simp: sl_Allow_def sl_getOrCreate_def sl_params_def sl_cell_def fun_eq_iff Let_def
      split: option.splits prod.splits)

text \<open>
  Keys do not disturb each other in the sliding window limiter: in any interleaving of calls,
  the verdicts of the calls with one key are those of a single window that sees only them.
\<close>

theorem sliding_window_keys_isolated:
  "verdicts_of (sl_keyFn l) k es (snd (rl_run sl_Allow l es)) =
     snd (cell_run (\<lambda>now. sw_take now (sl_rate l) (sl_window l)) (sl_cell l k) (calls_of (sl_keyFn l) k es))"
proof -
  have "sl_step (sl_params l) = (\<lambda>now. sw_take now (sl_rate l) (sl_window l))"
    by (simp add: sl_params_def fun_eq_iff)
  with sl.run_isolated [of l k es] show ?thesis by (simp add: sl_params_def)
qed

text \<open>
  Keys do not disturb each other in the token bucket limiter: in any interleaving of calls,
  the verdicts of the calls with one key are those of a single bucket that sees only them.
\<close>

theorem token_bucket_keys_isolated:
  "verdicts_of (tl_keyFn l) k es (snd (rl_run (\<lambda>(t0, now). tl_Allow t0 now) l es)) =
     snd (cell_run (tl_step (tl_params l)) (tl_buckets l k) (calls_of (tl_keyFn l) k es))"
  using tl.run_isolated [of l k es] by (simp add: tl_params_def tl_cell_def)

subsection \<open>The sliding window against its specification\<close>

text \<open>
  The specification keeps every admission ever made and counts those of the last \<open>window\<close>
  nanoseconds. The limiter keeps what its evictions have left.
\<close>

definition inWindow :: "duration \<Rightarrow> time \<Rightarrow> time list \<Rightarrow> time list" where
  "inWindow window now adm = filter (\<lambda>a. now - window \<le> a) adm"

fun spec_window :: "int \<Rightarrow> duration \<Rightarrow> time list \<Rightarrow> time list \<Rightarrow> bool list" where
  "spec_window rate window adm [] = []"
| "spec_window rate window adm (now # ts) =
     (let ok = int (length (inWindow window now adm)) < rate
      in ok # spec_window rate window (if ok then adm @ [now] else adm) ts)"

definition window_ok :: "int \<Rightarrow> duration \<Rightarrow> bool" where
  "window_ok rate window \<longleftrightarrow> 0 < rate \<and> 0 \<le> window \<and> in_i64 window"

definition sw_rel :: "duration \<Rightarrow> time \<Rightarrow> time list \<Rightarrow> time list \<Rightarrow> bool" where
  "sw_rel window T ts adm \<longleftrightarrow> sorted adm \<and> (\<forall>a \<in> set adm. a \<le> T) \<and>
     (\<exists>c \<le> T - window. ts = filter (\<lambda>a. c \<le> a) adm)"

lemma window_cutoff: "window_ok rate window \<Longrightarrow> now + i64 (- window) = now - window"
  by (simp add: window_ok_def in_i64_def)

lemma evict_window:
  assumes "sw_rel window T ts adm" and "T \<le> now"
  shows "dropWhile (\<lambda>t. t < now - window) ts = inWindow window now adm"
proof -
  from assms(1) obtain c where c: "c \<le> T - window" "ts = filter (\<lambda>a. c \<le> a) adm"
    by (auto simp: sw_rel_def)
  have "sorted_wrt (\<lambda>x y. id x \<le> id y) ts"
    using assms(1) c by (simp add: sw_rel_def sorted_wrt_filter)
  from dropWhile_sorted_filter [OF this, of "now - window"]
  have "dropWhile (\<lambda>t. t < now - window) ts = filter (\<lambda>t. now - window \<le> t) ts" by simp
  also have "\<dots> = inWindow window now adm"
    unfolding c(2) inWindow_def using c(1) assms(2) by (auto intro!: filter_cong)
  finally show ?thesis .
qed

lemma sw_take_eq:
  assumes "window_ok rate window" and "sw_rel window T ts adm" and "T \<le> now"
  shows "sw_take now rate window ts =
    (if int (length (inWindow window now adm)) < rate then (inWindow window now adm @ [now], Inr Allowed)
     else (inWindow window now adm,
       Inr (ErrRateLimited (time_Sub (hd (inWindow window now adm) + window) now))))"
proof -
  have "0 < rate" using assms(1) by (simp add: window_ok_def)
  then show ?thesis
    by (auto simp: sw_take_def Let_def drop_scan window_cutoff [OF assms(1)] evict_window [OF assms(2,3)]
        split: list.splits)
qed

lemma sw_rel_next:
  assumes "sw_rel window T ts adm" and "T \<le> now" and "0 \<le> window"
  shows "sw_rel window now (inWindow window now adm) adm"
    and "sw_rel window now (inWindow window now adm @ [now]) (adm @ [now])"
proof -
  have old: "\<forall>a \<in> set adm. a \<le> now" using assms(1,2) by (auto simp: sw_rel_def)
  then show "sw_rel window now (inWindow window now adm) adm"
    using assms(1) by (auto simp: sw_rel_def inWindow_def)
  show "sw_rel window now (inWindow window now adm @ [now]) (adm @ [now])"
    using assms(1,3) old
    by (auto simp: sw_rel_def inWindow_def sorted_append intro!: exI [of _ "now - window"])
qed

abbreviation sw_run :: "int \<Rightarrow> duration \<Rightarrow> time list \<Rightarrow> time list \<Rightarrow> time list \<times> (panic + rl_result) list" where
  "sw_run rate window \<equiv> cell_run (\<lambda>now. sw_take now rate window)"

definition granted :: "panic + rl_result \<Rightarrow> bool" where
  "granted x \<longleftrightarrow> x = Inr Allowed"

lemma sw_refines:
  assumes "window_ok rate window" and "sw_rel window T ts adm" and "sorted (T # nows)"
  shows "map granted (snd (sw_run rate window ts nows)) = spec_window rate window adm nows"
  using assms(2,3)
proof (induction nows arbitrary: T ts adm)
  case Nil
  then show ?case by simp
next
  case (Cons now nows)
  then have now: "T \<le> now" and rest: "sorted (now # nows)" by auto
  have w: "0 \<le> window" using assms(1) by (simp add: window_ok_def)
  note take = sw_take_eq [OF assms(1) Cons.prems(1) now]
  show ?case
  proof (cases "int (length (inWindow window now adm)) < rate")
    case True
    with Cons.IH [OF sw_rel_next(2) [OF Cons.prems(1) now w] rest] take
    show ?thesis by (simp add: case_prod_beta granted_def)
  next
    case False
    with Cons.IH [OF sw_rel_next(1) [OF Cons.prems(1) now w] rest] take
    show ?thesis by (simp add: case_prod_beta granted_def)
  qed
qed

text \<open>The admissions of a run, and the bound every window respects.\<close>

fun admitted :: "time list \<Rightarrow> bool list \<Rightarrow> time list" where
  "admitted (t # ts) (ok # oks) = (if ok then t # admitted ts oks else admitted ts oks)"
| "admitted _ _ = []"

definition insideWindow :: "duration \<Rightarrow> time \<Rightarrow> time list \<Rightarrow> time list" where
  "insideWindow window t adm = filter (\<lambda>a. t - window \<le> a \<and> a \<le> t) adm"

lemma inside_snoc_bound:
  assumes "int (length (insideWindow window t adm)) \<le> rate" and "int (length (inWindow window now adm)) < rate"
    and "\<forall>a \<in> set adm. a \<le> now"
  shows "int (length (insideWindow window t (adm @ [now]))) \<le> rate"
proof (cases "t - window \<le> now \<and> now \<le> t")
  case True
  then have "length (insideWindow window t adm) \<le> length (inWindow window now adm)"
    unfolding insideWindow_def inWindow_def by (induction adm) auto
  with True assms(2) show ?thesis by (simp add: insideWindow_def)
next
  case False
  with assms(1) show ?thesis by (auto simp: insideWindow_def)
qed

lemma spec_window_bound:
  assumes "\<forall>t. int (length (insideWindow window t adm)) \<le> rate" and "\<forall>a \<in> set adm. a \<le> T" and "sorted (T # nows)"
  shows "int (length (insideWindow window t (adm @ admitted nows (spec_window rate window adm nows)))) \<le> rate"
  using assms
proof (induction nows arbitrary: T adm)
  case Nil
  then show ?case by simp
next
  case (Cons now nows)
  then have old: "\<forall>a \<in> set adm. a \<le> now" and rest: "sorted (now # nows)" by auto
  show ?case
  proof (cases "int (length (inWindow window now adm)) < rate")
    case True
    have "int (length (insideWindow window t (adm @ [now]))) \<le> rate" for t
      using Cons.prems(1) True old by (intro inside_snoc_bound) auto
    with Cons.IH [of "adm @ [now]" now] True old rest show ?thesis by simp
  next
    case False
    with Cons.IH [of adm now] Cons.prems(1) old rest show ?thesis by simp
  qed
qed

lemma sorted_hd: "sorted ts \<Longrightarrow> sorted ((case ts of [] \<Rightarrow> 0 | t # _ \<Rightarrow> t) # (ts :: time list))"
  by (cases ts) auto

lemma sw_rel_empty: "sw_rel window T [] []"
  by (auto simp: sw_rel_def)

text \<open>
  C6. The sliding window limiter is exact: a bucket that starts empty takes, at clock readings
  that do not go backwards, exactly the decisions of the specification that remembers every
  admission: admit if and only if fewer than \<open>rate\<close> admissions lie in the last \<open>window\<close> nanoseconds.
  Evicting from the front loses nothing.
\<close>

theorem sliding_window_refines:
  assumes "window_ok rate window" and "sorted nows"
  shows "map granted (snd (sw_run rate window [] nows)) = spec_window rate window [] nows"
  by (rule sw_refines [OF assms(1) sw_rel_empty sorted_hd [OF assms(2)]])

theorem sliding_window_refines_witness:
  "map granted (snd (sw_run 2 10 [] [0, 3, 5, 10, 11, 14])) = [True, True, False, False, True, True]"
  by (subst sliding_window_refines) (simp_all add: window_ok_def in_i64_def inWindow_def)

text \<open>
  C33. The limit holds in every window: whatever instants a limiter is called at (not going
  backwards), every interval of the configured length, wherever it is placed, contains at most
  \<open>rate\<close> admitted requests.
\<close>

theorem sliding_window_never_exceeds:
  assumes "window_ok rate window" and "sorted nows"
  shows "int (length (insideWindow window t (admitted nows (map granted (snd (sw_run rate window [] nows)))))) \<le> rate"
proof -
  have "map granted (snd (sw_run rate window [] nows)) = spec_window rate window [] nows"
    by (rule sw_refines [OF assms(1) sw_rel_empty sorted_hd [OF assms(2)]])
  moreover have "0 < rate" using assms(1) by (simp add: window_ok_def)
  then have "\<forall>t. int (length (insideWindow window t [])) \<le> rate" by (simp add: insideWindow_def)
  ultimately show ?thesis
    using spec_window_bound [of window "[]" rate _ nows t] sorted_hd [OF assms(2)] by fastforce
qed

theorem sliding_window_never_exceeds_witness:
  "length (insideWindow 10 12 (admitted [0, 3, 5, 10, 11, 14]
     (map granted (snd (sw_run 2 10 [] [0, 3, 5, 10, 11, 14]))))) \<le> 2"
  using sliding_window_never_exceeds [of 2 10 "[0, 3, 5, 10, 11, 14]" 12]
  by (simp add: window_ok_def in_i64_def del: cell_run.simps)

subsection \<open>Edges of the sliding window\<close>

lemma sw_rel_self:
  assumes "sorted ts" and "\<forall>a \<in> set ts. a \<le> T"
  shows "sw_rel window T ts ts"
proof -
  let ?c = "min (T - window) (case ts of [] \<Rightarrow> 0 | t # _ \<Rightarrow> t)"
  have "\<forall>a \<in> set ts. ?c \<le> a"
    using assms(1) by (cases ts) (auto intro: min.coboundedI2)
  then have "ts = filter (\<lambda>a. ?c \<le> a) ts" by (simp add: filter_True)
  with assms show ?thesis unfolding sw_rel_def by (intro conjI exI [of _ ?c]) auto
qed

lemma sorted_inWindow: "sorted ts \<Longrightarrow> sorted (inWindow window now ts)"
  by (simp add: inWindow_def sorted_wrt_filter)

text \<open>
  The delay of a refusal lies between zero and the window, and is one nanosecond short: a
  client that comes back exactly \<open>RetryAfter\<close> later, with no other request in between, is
  refused again (now with a delay of zero), because an entry exactly at the cutoff is not
  evicted; a nanosecond later it is admitted.
\<close>

theorem sliding_window_retry_after:
  assumes "window_ok rate window" and "sorted ts" and "\<forall>a \<in> set ts. a \<le> now" and "int (length ts) \<le> rate"
    and "sw_take now rate window ts = (ts', Inr (ErrRateLimited d))"
  shows "0 \<le> d \<and> d \<le> window \<and>
    sw_take (now + d) rate window ts' = (ts', Inr (ErrRateLimited 0)) \<and>
    snd (sw_take (now + d + 1) rate window ts') = Inr Allowed"
proof -
  let ?kept = "inWindow window now ts"
  have w: "0 < rate" "0 \<le> window" "in_i64 window" using assms(1) by (auto simp: window_ok_def)
  from sw_take_eq [OF assms(1) sw_rel_self [OF assms(2,3)] order_refl] assms(5)
  have kept: "ts' = ?kept" "rate \<le> int (length ?kept)" "d = time_Sub (hd ?kept + window) now"
    by (auto split: if_splits)
  then obtain o' os where os: "?kept = o' # os" using w by (cases ?kept) auto
  have s: "sorted (o' # os)" using sorted_inWindow [OF assms(2), of window now] os by simp
  have "o' \<in> set ?kept" using os by simp
  then have range: "now - window \<le> o'" "o' \<le> now" using assms(3) by (auto simp: inWindow_def)
  have "in_i64 (o' + window - now)" using range w by (auto simp: in_i64_def)
  then have d: "d = o' + window - now" using kept os by (simp add: time_Sub_id)
  have len: "int (length (o' # os)) = rate"
    using kept(2) os assms(4) length_filter_le [of "\<lambda>a. now - window \<le> a" ts]
    by (simp add: inWindow_def)
  have old: "\<forall>a \<in> set (o' # os). a \<le> now + d"
  proof -
    have "\<forall>a \<in> set ?kept. a \<le> now" using assms(3) by (simp add: inWindow_def)
    with os d range(1) show ?thesis by fastforce
  qed
  then have rel: "sw_rel window (now + d) (o' # os) (o' # os)" by (rule sw_rel_self [OF s])
  have at: "inWindow window (now + d) (o' # os) = o' # os"
    using s d by (auto simp: inWindow_def intro: filter_True)
  have after: "length (inWindow window (now + d + 1) (o' # os)) < length (o' # os)"
    using d length_filter_le [of _ os] by (simp add: inWindow_def le_imp_less_Suc)
  have "sw_take (now + d) rate window ts' = (ts', Inr (ErrRateLimited 0))"
    using sw_take_eq [OF assms(1) rel order_refl] at len kept(1) os d by (simp add: time_Sub_def in_i64_def)
  moreover have "snd (sw_take (now + d + 1) rate window ts') = Inr Allowed"
    using sw_take_eq [OF assms(1) rel, of "now + d + 1"] after len kept(1) os by simp
  moreover have "0 \<le> d \<and> d \<le> window" using d range by simp
  ultimately show ?thesis by blast
qed

theorem sliding_window_retry_after_witness:
  "sw_take 15 2 10 [7, 9] = ([7, 9], Inr (ErrRateLimited 2)) \<and>
   sw_take 17 2 10 [7, 9] = ([7, 9], Inr (ErrRateLimited 0)) \<and> snd (sw_take 18 2 10 [7, 9]) = Inr Allowed"
proof -
  have "sw_take 15 2 10 [7, 9] = ([7, 9], Inr (ErrRateLimited 2))"
    by (simp add: sw_take_def i64_def time_Sub_def in_i64_def)
  with sliding_window_retry_after [OF _ _ _ _ this] show ?thesis
    by (simp add: window_ok_def in_i64_def)
qed

text \<open>
  A sliding window limiter whose configured rate is zero or negative (the rate is missing, or
  nothing may pass) panics at every call: it reads \<open>timestamps[0]\<close> of an empty slice. The
  configuration is accepted.
\<close>

theorem sliding_window_zero_rate_panics:
  assumes "rl_New parseURL (Some c) = Inr (SlidingWindow l)" and "rlc_Rate c \<le> 0"
  shows "set (snd (rl_run sl_Allow l es)) \<subseteq> {Inl IndexOutOfRange}"
proof -
  have start: "sl_rate l \<le> 0" "\<forall>k. sl_cell l k = []"
    using assms by (auto simp: rl_New_def newRedisLimiter_def sl_cell_def Let_def map_sum_def
        split: if_splits option.splits sum.splits)
  show ?thesis
    using start
  proof (induction es arbitrary: l)
    case Nil
    then show ?case by simp
  next
    case (Cons e es)
    obtain i r where e: "e = (i, r)" by (cases e)
    obtain l' x where l': "sl_Allow i r l = (l', x)" by (cases "sl_Allow i r l")
    have "sw_take i (sl_rate l) (sl_window l) [] = ([], Inl IndexOutOfRange)"
      using Cons.prems(1) by (simp add: sw_take_def)
    then have "x = Inl IndexOutOfRange" "sl_rate l' = sl_rate l" "\<forall>k. sl_cell l' k = []"
      using sl.verdict [of i r l] sl.only_own_cell [of i r l] sl.params_fixed [of i r l] l' Cons.prems(2)
      by (auto simp: sl_params_def)
    with Cons.IH [of l'] Cons.prems e l' show ?case by (simp add: case_prod_beta)
  qed
qed

definition example_limit :: RateLimitConfig where
  "example_limit = \<lparr>rlc_Algorithm = ''sliding_window'', rlc_Rate = 0, rlc_Burst = 0,
     rlc_Window = ''1m'', rlc_KeyBy = ''ip'', rlc_RedisURL = []\<rparr>"

lemma example_limit_New:
  "rl_New (\<lambda>u. False) (Some (example_limit\<lparr>rlc_Rate := n\<rparr>)) =
     Inr (SlidingWindow \<lparr>sl_buckets = Map.empty, sl_rate = n, sl_window = 60 * 10 ^ 9,
       sl_keyFn = buildKeyFn ''ip''\<rparr>)"
  by (simp add: rl_New_def example_limit_def parse_1m)

definition client :: "string \<Rightarrow> request" where
  "client addr = \<lparr>r_Method = ''GET'', r_URLScheme = [], r_URLHost = [], r_Path = ''/'',
     r_Host = ''gw'', r_RemoteAddr = addr, r_TLS = False, r_Header = Map.empty\<rparr>"

theorem sliding_window_zero_rate_panics_witness:
  "set (snd (rl_run sl_Allow \<lparr>sl_buckets = Map.empty, sl_rate = 0, sl_window = 60 * 10 ^ 9,
       sl_keyFn = buildKeyFn ''ip''\<rparr> [(5, client ''10.0.0.1:4001'')])) \<subseteq> {Inl IndexOutOfRange}"
  by (rule sliding_window_zero_rate_panics [OF example_limit_New]) (simp add: example_limit_def)

text \<open>
  Limiting by IP limits connections: the key is \<open>RemoteAddr\<close> with its port, so requests that
  arrive without \<open>X-Forwarded-For\<close> over distinct connections are all admitted, however many
  there are and however small the (positive) rate is.
\<close>

theorem ip_limit_is_per_connection:
  assumes "rl_New parseURL (Some c) = Inr (SlidingWindow l)" and "rlc_KeyBy c = ''ip''" and "0 < rlc_Rate c"
    and "distinct (map (\<lambda>(t, r). r_RemoteAddr r) es)"
    and "\<forall>(t, r) \<in> set es. header_Get (r_Header r) ''X-Forwarded-For'' = []"
  shows "set (snd (rl_run sl_Allow l es)) \<subseteq> {Inr Allowed}"
proof -
  let ?key = "\<lambda>r. ''ip:'' @ r_RemoteAddr r"
  have start: "0 < sl_rate l" "sl_keyFn l = buildKeyFn ''ip''" "\<forall>(t, r) \<in> set es. sl_cell l (?key r) = []"
    using assms(1-3) by (auto simp: rl_New_def newRedisLimiter_def sl_cell_def Let_def map_sum_def
        split: if_splits option.splits sum.splits)
  show ?thesis
    using start assms(4,5)
  proof (induction es arbitrary: l)
    case Nil
    then show ?case by simp
  next
    case (Cons e es)
    obtain i r where e: "e = (i, r)" by (cases e)
    obtain l' x where l': "sl_Allow i r l = (l', x)" by (cases "sl_Allow i r l")
    have key: "sl_keyFn l r = ?key r" using Cons.prems(2,5) e by (simp add: buildKeyFn_def)
    have "snd (sw_take i (sl_rate l) (sl_window l) []) = Inr Allowed"
      using Cons.prems(1) by (simp add: sw_take_def)
    moreover have "sl_cell l (?key r) = []" using Cons.prems(3) e by simp
    ultimately have x: "x = Inr Allowed"
      using sl.verdict [of i r l] l' key by (simp add: sl_params_def)
    have params: "sl_rate l' = sl_rate l" "sl_keyFn l' = sl_keyFn l"
      using sl.params_fixed [of i r l] l' by (simp_all add: sl_params_def)
    have "sl_cell l' k = sl_cell l k" if "k \<noteq> ?key r" for k
      using sl.only_own_cell [of i r l] l' key that by (simp add: sl_params_def)
    moreover have "?key r' \<noteq> ?key r" if "(t, r') \<in> set es" for t r'
      using Cons.prems(4) e that by force
    ultimately have cells: "\<forall>(t, r') \<in> set es. sl_cell l' (?key r') = []"
      using Cons.prems(3) by (auto simp: e)
    show ?case
      using Cons.IH [OF _ _ cells] params Cons.prems e l' x by (simp add: case_prod_beta)
  qed
qed

theorem ip_limit_is_per_connection_witness:
  "set (snd (rl_run sl_Allow \<lparr>sl_buckets = Map.empty, sl_rate = 1, sl_window = 60 * 10 ^ 9,
       sl_keyFn = buildKeyFn ''ip''\<rparr>
     [(5, client ''10.0.0.1:4001''), (6, client ''10.0.0.1:4002''), (7, client ''10.0.0.1:4003'')])) \<subseteq> {Inr Allowed}"
  by (rule ip_limit_is_per_connection [OF example_limit_New]) (simp_all add: example_limit_def client_def)

end
