(* ===== verification/TokenProps.thy ===== *)
theory TokenProps
  imports WindowProps
begin

section \<open>The token bucket\<close>

subsection \<open>The error of one rounding\<close>

lemma half_even_error: "\<bar>of_int (half_even x) - x\<bar> \<le> 1 / 2"
proof -
  let ?f = "of_int \<lfloor>x\<rfloor>"
  have f: "?f \<le> x" "x < ?f + 1" by linarith+
  consider "half_even x = \<lfloor>x\<rfloor>" "x - ?f \<le> 1 / 2" | "half_even x = \<lfloor>x\<rfloor> + 1" "1 / 2 \<le> x - ?f"
    by (cases "x - ?f < 1 / 2"; cases "1 / 2 < x - ?f"; cases "even \<lfloor>x\<rfloor>") (auto simp: half_even_def Let_def)
  then show ?thesis
  proof cases
    case 1
    with f show ?thesis by (simp only: abs_le_iff) linarith
  next
    case 2
    with f show ?thesis by (simp only: abs_le_iff of_int_add of_int_1) linarith
  qed
qed

lemma rnd_error:
  assumes "0 \<le> x" and "x \<le> K" and "1 \<le> K"
  shows "\<bar>rnd x - x\<bar> \<le> K / 2 ^ 53"
proof (cases "x = 0")
  case True
  with assms show ?thesis by simp
next
  case False
  then have x: "0 < x" using assms(1) by simp
  let ?u = "2 powi ulp_exp x :: rat"
  have "2 powi ilog2 x \<le> K" using ilog2_bounds(1) [OF x] assms(2) by simp
  moreover have "2 powi (- 1022) \<le> K"
    using pow2_mono [of "- 1022" 0] assms(3) by simp
  ultimately have "2 powi max (ilog2 x) (- 1022) \<le> K" by (simp add: max_def)
  then have u: "?u * 2 ^ 52 \<le> K"
    using pow2_add [of "ulp_exp x" 52] x by (simp add: ulp_exp_def)
  have "rnd x - x = (of_int (half_even (x / ?u)) - x / ?u) * ?u"
    using x by (simp add: rnd_def left_diff_distrib)
  then have "\<bar>rnd x - x\<bar> = \<bar>of_int (half_even (x / ?u)) - x / ?u\<bar> * ?u"
    by (simp add: abs_mult)
  also have "\<dots> \<le> 1 / 2 * ?u"
    using half_even_error [of "x / ?u"] by (intro mult_right_mono) simp_all
  also have "\<dots> \<le> K / 2 ^ 53" using u by simp
  finally show ?thesis .
qed

lemma rnd_le: "0 \<le> x \<Longrightarrow> x \<le> K \<Longrightarrow> 1 \<le> K \<Longrightarrow> rnd x \<le> x + K / 2 ^ 53"
  using rnd_error [of x K] by linarith

lemma rnd_rel:
  assumes "2 powi (- 1022) \<le> x"
  shows "rnd x \<le> x * (1 + 1 / 2 ^ 53)"
proof -
  have x: "0 < x" using assms pow2_pos [of "- 1022"] by linarith
  have "(2::rat) powi (- 1022) < 2 powi (ilog2 x + 1)" using assms ilog2_bounds(2) [OF x] by linarith
  then have "- 1022 < ilog2 x + 1" by (rule iffD1 [OF pow2_less_iff])
  then have "- 1022 \<le> ilog2 x" by linarith
  then have u: "2 powi ulp_exp x * 2 ^ 52 \<le> x"
    using pow2_add [of "ulp_exp x" 52] ilog2_bounds(1) [OF x] x by (simp add: ulp_exp_def max_def)
  let ?u = "2 powi ulp_exp x :: rat"
  have "of_int (half_even (x / ?u)) \<le> x / ?u + 1 / 2"
    using half_even_error [of "x / ?u"] by linarith
  then have "of_int (half_even (x / ?u)) * ?u \<le> (x / ?u + 1 / 2) * ?u"
    by (intro mult_right_mono) simp_all
  then have "rnd x \<le> x + ?u / 2" using x by (simp add: rnd_def distrib_right)
  with u show ?thesis by (simp add: distrib_left)
qed

subsection \<open>One refill\<close>

text \<open>The elapsed seconds, as the code computes them from a duration.\<close>

definition secs :: "duration \<Rightarrow> rat" where
  "secs d = rnd (of_int (d div 10 ^ 9) + rnd (of_int (d mod 10 ^ 9) / 10 ^ 9))"

lemma secs_frac: "0 \<le> rnd (of_int (d mod 10 ^ 9) / 10 ^ 9) \<and> rnd (of_int (d mod 10 ^ 9) / 10 ^ 9) \<le> 1"
proof -
  have "0 \<le> (d::int) mod 10 ^ 9" "d mod 10 ^ 9 \<le> 10 ^ 9" by simp_all
  then have "(0::rat) \<le> of_int (d mod 10 ^ 9)" "of_int (d mod 10 ^ 9) \<le> (of_int (10 ^ 9) :: rat)"
    by (simp_all only: of_int_0_le_iff of_int_le_iff)
  then show ?thesis by (intro rnd_between) simp_all
qed

lemma duration_Seconds_secs:
  assumes "0 \<le> d" and "in_i64 d"
  shows "duration_Seconds d = Fin (secs d)"
proof -
  let ?q = "d div 10 ^ 9" and ?m = "d mod 10 ^ 9"
  have q: "0 \<le> ?q" "?q \<le> 9223372037" and m: "0 \<le> ?m" "?m < 10 ^ 9"
    using assms by (simp_all add: in_i64_def)
  have sm: "d sdiv time_Second = ?q" "d smod time_Second = ?m"
    using assms by (simp_all add: time_Second_def sdiv_nonneg smod_nonneg)
  let ?f = "(of_int ?m / 10 ^ 9) :: rat"
  have f: "0 \<le> ?f" "?f \<le> 1" using m by simp_all
  have div: "f_div (f_of_int ?m) (f_of_int (10 ^ 9)) = Fin (rnd ?f)"
    using m f f_round_Fin [of ?f] small_abs [of ?f 0] by simp
  let ?s = "of_int ?q + rnd ?f"
  have s: "0 \<le> ?s" "?s \<le> 10 ^ 10"
  proof -
    have "(of_int ?q :: rat) \<le> 9223372037" using q(2) by (metis of_int_le_iff of_int_numeral)
    then show "0 \<le> ?s" "?s \<le> 10 ^ 10" using secs_frac [of d] q(1) by simp_all
  qed
  have "duration_Seconds d = f_round ?s"
    using q div by (simp add: duration_Seconds_def sm)
  also have "\<dots> = Fin (secs d)"
    using s small_abs [of ?s 34] unfolding secs_def by (intro f_round_Fin) simp
  finally show ?thesis .
qed

lemma secs_range:
  assumes "0 \<le> d" and "in_i64 d"
  shows "0 \<le> secs d" and "secs d \<le> 10 ^ 10"
  using duration_Seconds_Fin [OF assms] duration_Seconds_secs [OF assms] by auto

lemma secs_whole:
  assumes "0 \<le> n" and "n \<le> 2 ^ 53" and "n * 10 ^ 9 \<le> d"
  shows "of_int n \<le> secs d"
proof -
  have "n \<le> d div 10 ^ 9" using assms(3) by (simp add: le_div_iff)
  then have "(of_int n :: rat) \<le> of_int (d div 10 ^ 9)" by simp
  then have "of_int n \<le> of_int (d div 10 ^ 9) + rnd (of_int (d mod 10 ^ 9) / 10 ^ 9)"
    using secs_frac [of d] by linarith
  from rnd_mono [OF this] show ?thesis using assms(1,2) by (simp add: secs_def)
qed

lemma secs_upper:
  assumes "0 \<le> d"
  shows "secs d \<le> of_int d / 10 ^ 9 * (1 + 1 / 2 ^ 53) ^ 2"
proof (cases "d = 0")
  case True
  then show ?thesis by (simp add: secs_def)
next
  case False
  let ?q = "of_int (d div 10 ^ 9) :: rat" and ?f = "of_int (d mod 10 ^ 9) / 10 ^ 9 :: rat" and ?e = "1 + 1 / 2 ^ 53 :: rat"
  have split: "of_int d / 10 ^ 9 = ?q + ?f"
  proof -
    have "?q * 10 ^ 9 + of_int (d mod 10 ^ 9) = of_int (d div 10 ^ 9 * 10 ^ 9 + d mod 10 ^ 9)"
      by (simp only: of_int_add of_int_mult of_int_power of_int_numeral)
    also have "\<dots> = of_int d" by (simp only: div_mult_mod_eq)
    finally have "of_int d / 10 ^ 9 = (?q * 10 ^ 9 + of_int (d mod 10 ^ 9)) / 10 ^ 9" by (rule arg_cong [OF sym])
    then show ?thesis by (simp only: add_divide_distrib) simp
  qed
  have tiny: "2 powi (- 1022) \<le> (1 / 10 ^ 9 :: rat)"
    using pow2_mono [of "- 1022" "- 30"] by (simp add: power_int_minus)
  have f: "rnd ?f \<le> ?f * ?e"
  proof (cases "d mod 10 ^ 9 = 0")
    case False
    then have "1 \<le> d mod 10 ^ 9" by (smt (verit) pos_mod_sign zero_less_power)
    then have "1 \<le> (of_int (d mod 10 ^ 9) :: rat)" by simp
    with tiny show ?thesis by (intro rnd_rel) (simp add: field_simps)
  qed simp
  have q: "0 \<le> ?q" using assms by (simp add: pos_imp_zdiv_nonneg_iff)
  have "?q + rnd ?f \<le> ?q * ?e + ?f * ?e" using f q by (simp add: distrib_left)
  then have le: "?q + rnd ?f \<le> of_int d / 10 ^ 9 * ?e" by (simp only: split distrib_right [of ?q ?f ?e])
  have big: "2 powi (- 1022) \<le> of_int d / 10 ^ 9 * ?e"
  proof -
    have "1 \<le> d" using False assms by simp
    then have "1 \<le> (of_int d :: rat)" by simp
    then have "1 / 10 ^ 9 * 1 \<le> of_int d / 10 ^ 9 * ?e" by (intro mult_mono) simp_all
    with tiny show ?thesis by simp
  qed
  have "secs d \<le> rnd (of_int d / 10 ^ 9 * ?e)" unfolding secs_def by (rule rnd_mono [OF le])
  also have "\<dots> \<le> of_int d / 10 ^ 9 * ?e * ?e" by (rule rnd_rel [OF big])
  finally show ?thesis by (simp add: power2_eq_square mult.assoc)
qed

definition refill :: "int \<Rightarrow> int \<Rightarrow> duration \<Rightarrow> rat \<Rightarrow> rat" where
  "refill rate burst d t = min (of_int burst) (rnd (t + rnd (secs d * of_int rate)))"

text \<open>The parameters for which the arithmetic is exact on whole tokens.\<close>

definition tb_params :: "int \<Rightarrow> int \<Rightarrow> bool" where
  "tb_params rate burst \<longleftrightarrow> 0 \<le> rate \<and> rate \<le> 2 ^ 53 \<and> \<bar>burst\<bar> \<le> 2 ^ 53"

lemma earned:
  assumes "0 \<le> rate" and "rate \<le> 2 ^ 53" and "0 \<le> d" and "in_i64 d"
  shows "0 \<le> secs d * of_int rate" and "secs d * of_int rate \<le> 2 ^ 90"
    and "0 \<le> rnd (secs d * of_int rate)" and "rnd (secs d * of_int rate) \<le> 2 ^ 90"
proof -
  have "(of_int rate :: rat) \<le> of_int (2 ^ 53)" using assms(2) by (simp only: of_int_le_iff)
  then have "secs d * of_int rate \<le> 10 ^ 10 * 2 ^ 53"
    using secs_range [OF assms(3,4)] assms(1) by (intro mult_mono) simp_all
  then show le: "secs d * of_int rate \<le> 2 ^ 90" by (rule order_trans) simp
  show ge: "0 \<le> secs d * of_int rate" using secs_range [OF assms(3,4)] assms(1) by simp
  have "rnd (2 ^ 90) = (2 ^ 90 :: rat)"
    using rnd_exact [OF representable_pow2 [of 90]] by simp
  with rnd_between [OF ge le] show "0 \<le> rnd (secs d * of_int rate)" "rnd (secs d * of_int rate) \<le> 2 ^ 90"
    by simp_all
qed

lemma f_refill:
  assumes "tb_params rate burst" and "\<bar>t\<bar> \<le> 2 ^ 53" and "0 \<le> d" and "in_i64 d"
  shows "rl_min (f_of_int burst) (f_add (Fin t) (f_mul (duration_Seconds d) (f_of_int rate))) =
    Fin (refill rate burst d t)"
proof -
  let ?p = "secs d * of_int rate"
  have r: "0 \<le> rate" "rate \<le> 2 ^ 53" "\<bar>burst\<bar> \<le> 2 ^ 53" using assms(1) by (auto simp: tb_params_def)
  note e = earned [OF r(1,2) assms(3,4)]
  have "f_round ?p = Fin (rnd ?p)" using e(1,2) small_abs [of ?p 90] by (intro f_round_Fin) simp
  moreover have "\<bar>t + rnd ?p\<bar> \<le> 2 ^ 91" using e(3,4) assms(2) by (simp add: abs_le_iff)
  then have "f_round (t + rnd ?p) = Fin (rnd (t + rnd ?p))"
    using small_abs [of "t + rnd ?p" 91] by (intro f_round_Fin) simp
  ultimately show ?thesis
    using r assms(3,4) by (simp add: duration_Seconds_secs rl_min_def refill_def min_def)
qed

definition tb_wait :: "int \<Rightarrow> rat \<Rightarrow> duration" where
  "tb_wait rate t = f_to_int64 (f_mul (f_div (f_round (1 - t)) (f_of_int rate)) (f_of_int (10 ^ 9)))"

lemma tb_take_eq:
  assumes "tb_params rate burst" and "\<bar>t\<bar> \<le> 2 ^ 53" and "tb_lastFill b \<le> now" and "tb_tokens b = Fin t"
  shows "tb_take now (f_of_int rate) burst b =
    (let t' = refill rate burst (time_Sub now (tb_lastFill b)) t in
     if t' < 1 then (\<lparr>tb_tokens = Fin t', tb_lastFill = now\<rparr>, ErrRateLimited (tb_wait rate t'))
     else (\<lparr>tb_tokens = f_round (t' - 1), tb_lastFill = now\<rparr>, Allowed))"
proof -
  have d: "0 \<le> time_Sub now (tb_lastFill b)" "in_i64 (time_Sub now (tb_lastFill b))"
    using assms(3) by (auto simp: time_Sub_def sat64_def in_i64_def)
  note r = f_refill [OF assms(1,2) d, folded assms(4)]
  show ?thesis
    unfolding tb_take_def r Let_def by (cases b) (simp add: f_sub_def tb_wait_def)
qed

subsection \<open>The bucket's invariant\<close>

definition tb_ok :: "int \<Rightarrow> tbBucket \<Rightarrow> bool" where
  "tb_ok burst b = (case tb_tokens b of Fin t \<Rightarrow> 0 \<le> t \<and> t \<le> of_int burst \<and> rnd t = t | _ \<Rightarrow> False)"

lemma refill_ge:
  assumes "tb_params rate burst" and "0 \<le> d" and "in_i64 d" and "rnd t = t" and "t \<le> of_int burst"
  shows "t \<le> refill rate burst d t"
proof -
  have "t \<le> t + rnd (secs d * of_int rate)"
    using earned(3) [of rate d] assms(1-3) by (simp add: tb_params_def)
  from rnd_mono [OF this] show ?thesis using assms(4,5) by (simp add: refill_def)
qed

lemma refill_exact: "tb_params rate burst \<Longrightarrow> rnd (refill rate burst d t) = refill rate burst d t"
  by (simp add: refill_def min_def tb_params_def)

lemma spend:
  assumes "1 \<le> t" and "t \<le> 2 ^ 53" and "rnd t = t"
  shows "f_round (t - 1) = Fin (rnd (t - 1))" and "0 \<le> rnd (t - 1)" and "rnd (t - 1) \<le> t"
  using assms f_round_Fin [of "t - 1"] small_abs [of "t - 1" 53] rnd_between [of 0 "t - 1" t] by auto

lemma burst_le: "\<bar>burst\<bar> \<le> 2 ^ 53 \<Longrightarrow> (of_int burst :: rat) \<le> 2 ^ 53 \<and> - (2 ^ 53) \<le> (of_int burst :: rat)"
proof -
  assume "\<bar>burst\<bar> \<le> 2 ^ 53"
  then have "burst \<le> 2 ^ 53" "- (2 ^ 53) \<le> burst" by simp_all
  then have "(of_int burst :: rat) \<le> of_int (2 ^ 53)" "of_int (- (2 ^ 53)) \<le> (of_int burst :: rat)"
    by (simp_all only: of_int_le_iff)
  then show ?thesis by simp
qed

text \<open>What one call does to a bucket in its invariant, as a step on the exact token count.\<close>

lemma tb_step_cases:
  assumes "tb_params rate burst" and "tb_ok burst b" and "tb_lastFill b \<le> now"
  obtains t u where "tb_tokens b = Fin t" and "0 \<le> t" and "t \<le> of_int burst" and "rnd t = t"
    and "u = refill rate burst (time_Sub now (tb_lastFill b)) t" and "t \<le> u" and "u \<le> of_int burst" and "rnd u = u"
    and "tb_take now (f_of_int rate) burst b =
      (if u < 1 then (\<lparr>tb_tokens = Fin u, tb_lastFill = now\<rparr>, ErrRateLimited (tb_wait rate u))
       else (\<lparr>tb_tokens = Fin (rnd (u - 1)), tb_lastFill = now\<rparr>, Allowed))"
proof -
  from assms(2) obtain t where t: "tb_tokens b = Fin t" "0 \<le> t" "t \<le> of_int burst" "rnd t = t"
    by (auto simp: tb_ok_def split: float64.splits)
  have bl: "(of_int burst :: rat) \<le> 2 ^ 53" using assms(1) burst_le by (simp add: tb_params_def)
  have d: "0 \<le> time_Sub now (tb_lastFill b)" "in_i64 (time_Sub now (tb_lastFill b))"
    using assms(3) by (auto simp: time_Sub_def sat64_def in_i64_def)
  let ?u = "refill rate burst (time_Sub now (tb_lastFill b)) t"
  have u: "t \<le> ?u" "?u \<le> of_int burst" "rnd ?u = ?u"
    using refill_ge [OF assms(1) d t(4,3)] refill_exact [OF assms(1)] by (simp_all add: refill_def)
  have "tb_take now (f_of_int rate) burst b =
      (if ?u < 1 then (\<lparr>tb_tokens = Fin ?u, tb_lastFill = now\<rparr>, ErrRateLimited (tb_wait rate ?u))
       else (\<lparr>tb_tokens = Fin (rnd (?u - 1)), tb_lastFill = now\<rparr>, Allowed))"
    using tb_take_eq [OF assms(1) _ assms(3) t(1)] t(2,3) bl u spend(1) [of ?u] by (simp add: Let_def)
  with t u show thesis by (rule that [of t ?u, OF _ _ _ _ refl])
qed

lemma tb_ok_step:
  assumes "tb_params rate burst" and "tb_ok burst b" and "tb_lastFill b \<le> now"
  shows "tb_ok burst (fst (tb_take now (f_of_int rate) burst b)) \<and>
    tb_lastFill (fst (tb_take now (f_of_int rate) burst b)) = now"
  using assms
proof (rule tb_step_cases)
  fix t u
  assume t: "0 \<le> t" "t \<le> u" "u \<le> of_int burst" "rnd u = u"
    and eq: "tb_take now (f_of_int rate) burst b =
      (if u < 1 then (\<lparr>tb_tokens = Fin u, tb_lastFill = now\<rparr>, ErrRateLimited (tb_wait rate u))
       else (\<lparr>tb_tokens = Fin (rnd (u - 1)), tb_lastFill = now\<rparr>, Allowed))"
  have "u \<le> 2 ^ 53" using t(3) burst_le [of burst] assms(1) by (simp add: tb_params_def)
  with t spend [of u] show ?thesis by (auto simp: eq tb_ok_def)
qed

subsection \<open>Runs of one bucket\<close>

abbreviation tb_run :: "int \<Rightarrow> int \<Rightarrow> tbBucket \<Rightarrow> time list \<Rightarrow> tbBucket \<times> rl_result list" where
  "tb_run rate burst \<equiv> cell_run (\<lambda>now. tb_take now (f_of_int rate) burst)"

text \<open>A bucket as \<open>getOrCreate\<close> makes it.\<close>

definition tb_fresh :: "time \<Rightarrow> int \<Rightarrow> tbBucket" where
  "tb_fresh t0 burst = \<lparr>tb_tokens = f_of_int burst, tb_lastFill = t0\<rparr>"

lemma tb_fresh_ok: "tb_params rate burst \<Longrightarrow> 0 \<le> burst \<Longrightarrow> tb_ok burst (tb_fresh t0 burst)"
  by (simp add: tb_ok_def tb_fresh_def tb_params_def)

lemma tb_run_ok:
  assumes "tb_params rate burst" and "tb_ok burst b" and "sorted (tb_lastFill b # nows)"
  shows "tb_ok burst (fst (tb_run rate burst b nows)) \<and>
    tb_lastFill (fst (tb_run rate burst b nows)) = last (tb_lastFill b # nows)"
  using assms(2,3)
proof (induction nows arbitrary: b)
  case Nil
  then show ?case by simp
next
  case (Cons now nows)
  let ?b = "fst (tb_take now (f_of_int rate) burst b)"
  have "tb_ok burst ?b \<and> tb_lastFill ?b = now" using Cons.prems by (intro tb_ok_step [OF assms(1)]) simp_all
  with Cons.IH [of ?b] Cons.prems show ?case by (simp add: case_prod_beta)
qed

lemma refill_upper:
  assumes "tb_params rate burst" and "1 \<le> burst" and "0 \<le> d" and "in_i64 d" and "0 \<le> t" and "t \<le> of_int burst"
  shows "refill rate burst d t \<le> t + of_int d / 10 ^ 9 * of_int rate + 6 * of_int burst / 2 ^ 53"
proof -
  let ?A = "of_int d / 10 ^ 9 * of_int rate :: rat" and ?B = "of_int burst :: rat" and ?p = "secs d * of_int rate"
  have r: "0 \<le> rate" "rate \<le> 2 ^ 53" using assms(1) by (auto simp: tb_params_def)
  note e = earned [OF r assms(3,4)]
  have A: "0 \<le> ?A" using assms(3) r by simp
  have B: "1 \<le> ?B" using assms(2) by simp
  have cap: "refill rate burst d t \<le> ?B" by (simp add: refill_def)
  show ?thesis
  proof (cases "?A < ?B")
    case False
    moreover have "0 \<le> 6 * ?B / 2 ^ 53" using B by simp
    ultimately show ?thesis using cap assms(5) by linarith
  next
    case True
    have "?p \<le> of_int d / 10 ^ 9 * (1 + 1 / 2 ^ 53) ^ 2 * of_int rate"
      using secs_upper [OF assms(3)] r by (intro mult_right_mono) simp_all
    also have "\<dots> = ?A * (1 + 1 / 2 ^ 53) ^ 2" by simp
    also have "\<dots> \<le> ?A * (1 + 3 / 2 ^ 53)" using A by (intro mult_left_mono) (simp_all add: power2_eq_square)
    finally have p: "?p \<le> ?A + 3 * ?A / 2 ^ 53" by (simp add: distrib_left)
    then have "?p \<le> 2 * ?B" using True A by simp
    then have rp: "rnd ?p \<le> ?A + 5 * ?B / 2 ^ 53"
      using rnd_le [OF e(1), of "2 * ?B"] B p True by simp
    show ?thesis
    proof (cases "t + rnd ?p \<le> ?B")
      case True
      then have "rnd (t + rnd ?p) \<le> t + rnd ?p + ?B / 2 ^ 53"
        using assms(5) e(3) B by (intro rnd_le) simp_all
      then have "refill rate burst d t \<le> t + rnd ?p + ?B / 2 ^ 53" by (simp add: refill_def)
      with rp show ?thesis by simp
    next
      case False
      with cap rp B show ?thesis by simp
    qed
  qed
qed

definition admits :: "rl_result list \<Rightarrow> rat" where
  "admits xs = of_nat (length (filter (\<lambda>x. x = Allowed) xs))"

lemma tb_run_bound:
  assumes "tb_params rate burst" and "1 \<le> burst" and "tb_ok burst b" and "sorted (tb_lastFill b # nows)"
    and "tb_tokens b = Fin t"
  shows "admits (snd (tb_run rate burst b nows)) \<le>
    t + of_int rate * of_int (last (tb_lastFill b # nows) - tb_lastFill b) / 10 ^ 9 +
    of_nat (length nows) * of_int burst / 2 ^ 50"
  using assms(3-5)
proof (induction nows arbitrary: b t)
  case Nil
  then show ?case by (simp add: admits_def tb_ok_def)
next
  case (Cons now nows)
  let ?b = "fst (tb_take now (f_of_int rate) burst b)" and ?B = "of_int burst :: rat" and ?r = "of_int rate :: rat"
  let ?x = "snd (tb_take now (f_of_int rate) burst b)"
  have now: "tb_lastFill b \<le> now" using Cons.prems by simp
  have B: "1 \<le> ?B" "?B \<le> 2 ^ 53" using assms(1,2) burst_le [of burst] by (simp_all add: tb_params_def)
  have r: "0 \<le> ?r" using assms(1) by (simp add: tb_params_def)
  have ok: "tb_ok burst ?b" "tb_lastFill ?b = now" using tb_ok_step [OF assms(1) Cons.prems(1) now] by auto
  obtain t' where t': "tb_tokens ?b = Fin t'" using ok(1) by (auto simp: tb_ok_def split: float64.splits)
  have step: "t' + admits [?x] \<le> t + ?r * of_int (now - tb_lastFill b) / 10 ^ 9 + ?B / 2 ^ 50"
    using assms(1) Cons.prems(1) now
  proof (rule tb_step_cases)
    fix t0 u
    assume t0: "tb_tokens b = Fin t0" "0 \<le> t0" "t0 \<le> ?B"
      and u: "u = refill rate burst (time_Sub now (tb_lastFill b)) t0" "t0 \<le> u" "u \<le> ?B" "rnd u = u"
      and eq: "tb_take now (f_of_int rate) burst b =
      (if u < 1 then (\<lparr>tb_tokens = Fin u, tb_lastFill = now\<rparr>, ErrRateLimited (tb_wait rate u))
       else (\<lparr>tb_tokens = Fin (rnd (u - 1)), tb_lastFill = now\<rparr>, Allowed))"
    have d: "0 \<le> time_Sub now (tb_lastFill b)" "in_i64 (time_Sub now (tb_lastFill b))"
        "time_Sub now (tb_lastFill b) \<le> now - tb_lastFill b"
      using now by (auto simp: time_Sub_def sat64_def in_i64_def)
    have "?r * of_int (time_Sub now (tb_lastFill b)) / 10 ^ 9 \<le> ?r * of_int (now - tb_lastFill b) / 10 ^ 9"
      using d(3) r by (intro divide_right_mono mult_left_mono) (simp_all only: of_int_le_iff, simp_all)
    then have u': "u \<le> t + ?r * of_int (now - tb_lastFill b) / 10 ^ 9 + 6 * ?B / 2 ^ 53"
      using refill_upper [OF assms(1,2) d(1,2) t0(2,3)] u(1) t0(1) Cons.prems(3) by (simp add: mult.commute)
    show ?thesis
    proof (cases "u < 1")
      case True
      with eq t' have "t' = u" "admits [?x] = 0" by (simp_all add: admits_def)
      with u' B(1) show ?thesis by simp
    next
      case False
      have "rnd (u - 1) \<le> u - 1 + ?B / 2 ^ 53" using False u(3) B(1) by (intro rnd_le) simp_all
      moreover have "t' = rnd (u - 1)" "admits [?x] = 1" using False eq t' by (simp_all add: admits_def)
      ultimately show ?thesis using u' B(1) by simp
    qed
  qed
  have "sorted (tb_lastFill ?b # nows)" using ok(2) Cons.prems(2) by simp
  note IH = Cons.IH [OF ok(1) this t']
  have "admits (snd (tb_run rate burst b (now # nows))) = admits [?x] + admits (snd (tb_run rate burst ?b nows))"
    by (simp add: case_prod_beta admits_def)
  moreover have "?r * of_int (last (now # nows) - tb_lastFill b) / 10 ^ 9 =
      ?r * of_int (last (now # nows) - now) / 10 ^ 9 + ?r * of_int (now - tb_lastFill b) / 10 ^ 9"
    by (simp add: distrib_left [symmetric] add_divide_distrib [symmetric] flip: of_int_add)
  ultimately show ?case
    using IH step by (simp add: ok(2) distrib_right add_divide_distrib)
qed

text \<open>
  C17. The long-run rate holds, rounding included: over any sequence of calls at non-decreasing
  instants, a token bucket admits no more than its burst plus its rate times the elapsed
  seconds, up to a rounding term of \<open>burst / 2^50\<close> per call. With a burst of a million that is
  less than one request in a billion calls.
\<close>

theorem token_bucket_rate_bound:
  assumes "tb_params rate burst" and "1 \<le> burst" and "sorted (t0 # nows)"
  shows "admits (snd (tb_run rate burst (tb_fresh t0 burst) nows)) \<le>
    of_int burst + of_int rate * of_int (last (t0 # nows) - t0) / 10 ^ 9 +
    of_nat (length nows) * of_int burst / 2 ^ 50"
  using tb_run_bound [OF assms(1,2) tb_fresh_ok [OF assms(1), of t0], of nows "of_int burst"] assms
  by (simp add: tb_fresh_def tb_params_def)

theorem token_bucket_rate_bound_witness:
  "admits (snd (tb_run 5 10 (tb_fresh 0 10) [0, 0, 500000000, 2000000000])) \<le>
    10 + 5 * 2000000000 / 10 ^ 9 + 4 * 10 / 2 ^ 50"
  using token_bucket_rate_bound [of 5 10 0 "[0, 0, 500000000, 2000000000]"]
  by (simp add: tb_params_def del: cell_run.simps)

lemma secs_0 [simp]: "secs 0 = 0"
  by (simp add: secs_def)

lemma tb_drain:
  assumes "tb_params rate burst" and "tb_ok burst b" and "tb_lastFill b \<le> now"
    and "int m \<le> burst" and "of_int (int m) \<le> refill rate burst (time_Sub now (tb_lastFill b)) t" and "tb_tokens b = Fin t"
  shows "snd (tb_run rate burst b (replicate m now)) = replicate m Allowed"
  using assms(2-6)
proof (induction m arbitrary: b t)
  case 0
  then show ?case by simp
next
  case (Suc m)
  let ?b = "fst (tb_take now (f_of_int rate) burst b)"
  have B: "\<bar>burst\<bar> \<le> 2 ^ 53" "(of_int burst :: rat) \<le> 2 ^ 53"
    using assms(1) burst_le [of burst] by (simp_all add: tb_params_def)
  have ok: "tb_ok burst ?b" "tb_lastFill ?b = now" using tb_ok_step [OF assms(1) Suc.prems(1,2)] by auto
  from assms(1) Suc.prems(1,2) show ?case
  proof (rule tb_step_cases)
    fix t0 u
    assume t0: "tb_tokens b = Fin t0" and u: "u = refill rate burst (time_Sub now (tb_lastFill b)) t0"
        "u \<le> of_int burst" "rnd u = u"
      and eq: "tb_take now (f_of_int rate) burst b =
      (if u < 1 then (\<lparr>tb_tokens = Fin u, tb_lastFill = now\<rparr>, ErrRateLimited (tb_wait rate u))
       else (\<lparr>tb_tokens = Fin (rnd (u - 1)), tb_lastFill = now\<rparr>, Allowed))"
    have m: "1 + of_int (int m) \<le> u" using Suc.prems(4,5) t0 u(1) by simp
    moreover have "0 \<le> (of_int (int m) :: rat)" by simp
    ultimately have "\<not> u < 1" by linarith
    with eq have b: "snd (tb_take now (f_of_int rate) burst b) = Allowed" "tb_tokens ?b = Fin (rnd (u - 1))" by simp_all
    have "rnd (of_int (int m)) \<le> rnd (u - 1)" using m by (intro rnd_mono) linarith
    moreover have "rnd (of_int (int m)) = of_int (int m)" using Suc.prems(3) B(1) by (intro rnd_int) simp
    ultimately have "of_int (int m) \<le> rnd (u - 1)" by simp
    moreover have "(of_int (int m) :: rat) \<le> of_int burst" using Suc.prems(3) by (simp only: of_int_le_iff)
    ultimately have "of_int (int m) \<le> refill rate burst (time_Sub now (tb_lastFill ?b)) (rnd (u - 1))"
      using ok(2) by (simp add: refill_def time_Sub_def sat64_def)
    with Suc.IH [OF ok(1) _ _ _ b(2)] ok(2) Suc.prems(3)
    have "snd (tb_run rate burst ?b (replicate m now)) = replicate m Allowed" by simp
    then show ?thesis by (simp add: b(1) case_prod_beta)
  qed
qed

text \<open>
  Idle time is credited: whatever calls were made before, after \<open>n\<close> full seconds without a
  call any number of requests up to the burst and up to \<open>n * rate\<close> is admitted at one instant.
  With a rate of at least one, a second of silence is always enough for the next request.
\<close>

theorem token_bucket_idle_credit:
  assumes "tb_params rate burst" and "sorted (t0 # nows)"
    and "0 \<le> n" and "n \<le> 9 * 10 ^ 9" and "last (t0 # nows) + n * 10 ^ 9 \<le> now"
    and "int m \<le> burst" and "int m \<le> n * rate"
  shows "snd (tb_run rate burst (fst (tb_run rate burst (tb_fresh t0 burst) nows)) (replicate m now)) = replicate m Allowed"
proof -
  let ?b = "fst (tb_run rate burst (tb_fresh t0 burst) nows)"
  have "tb_lastFill (tb_fresh t0 burst) = t0" by (simp add: tb_fresh_def)
  then have ok: "tb_ok burst ?b" "tb_lastFill ?b = last (t0 # nows)"
    using tb_run_ok [OF assms(1) tb_fresh_ok [OF assms(1)], of t0 nows] assms(2,6) by simp_all
  then obtain t where t: "tb_tokens ?b = Fin t" "0 \<le> t" by (auto simp: tb_ok_def split: float64.splits)
  let ?d = "time_Sub now (tb_lastFill ?b)"
  have "0 \<le> n * 10 ^ 9" using assms(3) by simp
  then have now: "tb_lastFill ?b \<le> now" using ok(2) assms(5) by linarith
  have "n * 10 ^ 9 \<le> ?d" using ok(2) assms(3-5) by (simp add: time_Sub_def sat64_def)
  then have s: "of_int n \<le> secs ?d" using assms(3,4) by (intro secs_whole) simp_all
  have r: "0 \<le> rate" "\<bar>burst\<bar> \<le> 2 ^ 53" using assms(1) by (simp_all add: tb_params_def)
  have "(of_int (int m) :: rat) \<le> of_int (n * rate)" using assms(7) by (simp only: of_int_le_iff)
  also have "\<dots> \<le> secs ?d * of_int rate" using s r by (simp add: mult_right_mono)
  finally have p: "of_int (int m) \<le> secs ?d * of_int rate" .
  have exact: "rnd (of_int (int m)) = of_int (int m)" using assms(6) r(2) by (intro rnd_int) simp
  have "of_int (int m) \<le> t + rnd (secs ?d * of_int rate)" using rnd_mono [OF p] exact t(2) by simp
  from rnd_mono [OF this] have "of_int (int m) \<le> rnd (t + rnd (secs ?d * of_int rate))" using exact by simp
  moreover have "(of_int (int m) :: rat) \<le> of_int burst" using assms(6) by (simp only: of_int_le_iff)
  ultimately have "of_int (int m) \<le> refill rate burst ?d t" by (simp add: refill_def)
  with tb_drain [OF assms(1) ok(1) now assms(6) _ t(1)] show ?thesis by simp
qed

theorem token_bucket_idle_credit_witness:
  "snd (tb_run 2 5 (fst (tb_run 2 5 (tb_fresh 0 5) [0, 0, 0, 0, 0, 0])) (replicate 4 2000000000)) = replicate 4 Allowed"
  by (rule token_bucket_idle_credit [where n = 2]) (simp_all add: tb_params_def)

text \<open>
  The burst is exact: a new bucket admits the first \<open>burst\<close> of any number of calls made at
  the instant of its creation and refuses the rest.
\<close>

theorem token_bucket_burst:
  assumes "tb_params rate burst" and "0 \<le> burst"
  shows "map (\<lambda>x. x = Allowed) (snd (tb_run rate burst (tb_fresh t0 burst) (replicate k t0))) =
    replicate (min k (nat burst)) True @ replicate (k - nat burst) False"
proof -
  have run: "map (\<lambda>x. x = Allowed) (snd (tb_run rate burst b (replicate k t0))) =
      replicate (min k (nat c)) True @ replicate (k - nat c) False"
    if "0 \<le> c" "c \<le> burst" "b = \<lparr>tb_tokens = Fin (of_int c), tb_lastFill = t0\<rparr>" for b c
    using that
  proof (induction k arbitrary: b c)
    case 0
    then show ?case by simp
  next
    case (Suc k)
    have c: "\<bar>c\<bar> \<le> 2 ^ 53" "\<bar>c - 1\<bar> \<le> 2 ^ 53"
      using Suc.prems(1,2) assms(1) by (simp_all add: tb_params_def abs_le_iff)
    have "(of_int c :: rat) \<le> of_int burst" using Suc.prems by simp
    then have u: "refill rate burst (time_Sub t0 t0) (of_int c) = of_int c"
      using c(1) by (simp add: refill_def time_Sub_def sat64_def)
    have one: "(of_int c - 1 :: rat) = of_int (c - 1)" by simp
    have "f_round (of_int c - 1) = Fin (of_int (c - 1))"
      unfolding one using f_of_int_small [OF c(2)] by (simp only: f_of_int_def)
    then have take: "tb_take t0 (f_of_int rate) burst b =
        (if c < 1 then (b, ErrRateLimited (tb_wait rate (of_int c)))
         else (\<lparr>tb_tokens = Fin (of_int (c - 1)), tb_lastFill = t0\<rparr>, Allowed))"
      using tb_take_eq [OF assms(1), of "of_int c" b t0] burst_le [OF c(1)] Suc.prems(3) u by (simp add: Let_def)
    show ?case
    proof (cases "c < 1")
      case True
      with Suc.IH [OF Suc.prems] Suc.prems(1) take show ?thesis by (simp add: case_prod_beta)
    next
      case False
      then have "nat c = Suc (nat (c - 1))" by simp
      with False Suc.IH [of "c - 1", OF _ _ refl] Suc.prems(2) take show ?thesis by (simp add: case_prod_beta)
    qed
  qed
  show ?thesis
    using run [OF assms(2) order_refl, of "tb_fresh t0 burst"] assms by (simp add: tb_fresh_def tb_params_def)
qed

theorem token_bucket_burst_witness:
  "map (\<lambda>x. x = Allowed) (snd (tb_run 2 3 (tb_fresh 7 3) (replicate 5 7))) = [True, True, True, False, False]"
  using token_bucket_burst [of 2 3 7 5] by (simp add: tb_params_def numeral_eq_Suc del: cell_run.simps)

subsection \<open>Refusals\<close>

lemma rnd_half [simp]: "rnd (1 / 2) = 1 / 2"
  using rnd_exact [OF representable_pow2 [of "- 1"]] by (simp add: power_int_minus)

lemma rnd_numeral [simp]: "(numeral k :: int) \<le> 2 ^ 53 \<Longrightarrow> rnd (numeral k) = numeral k"
  using rnd_int [of "numeral k"] by simp

lemma tb_wait_bounds:
  assumes "1 \<le> rate" and "rate \<le> 2 ^ 53" and "0 \<le> t" and "t < 1" and "rnd c = c" and "1 / of_int rate \<le> c" and "c \<le> 1"
    and "c * 10 ^ 9 = of_int w" and "0 \<le> w" and "w \<le> 2 ^ 53"
  shows "0 \<le> tb_wait rate t" and "tb_wait rate t \<le> w"
proof -
  let ?R = "of_int rate :: rat"
  have R: "1 \<le> ?R" using assms(1) by simp
  have a: "0 \<le> rnd (1 - t) \<and> rnd (1 - t) \<le> 1" using assms(3,4) by (intro rnd_between) simp_all
  have fa: "f_round (1 - t) = Fin (rnd (1 - t))"
    using assms(3,4) small_abs [of "1 - t" 0] by (intro f_round_Fin) simp
  let ?q = "rnd (1 - t) / ?R"
  have "?q \<le> 1 / ?R" using a R by (intro divide_right_mono) simp_all
  then have q: "0 \<le> ?q" "?q \<le> c" using a R assms(6) by simp_all
  have b: "0 \<le> rnd ?q \<and> rnd ?q \<le> c" using q assms(5) by (intro rnd_between) simp_all
  have fb: "f_round ?q = Fin (rnd ?q)"
    using q assms(7) small_abs [of ?q 0] by (intro f_round_Fin) simp
  let ?m = "rnd ?q * 10 ^ 9"
  have "?m \<le> c * 10 ^ 9" using b by (intro mult_right_mono) simp_all
  then have m: "0 \<le> ?m" "?m \<le> of_int w" using b assms(8) by simp_all
  have e: "0 \<le> rnd ?m \<and> rnd ?m \<le> of_int w" using m assms(9,10) rnd_int [of w] by (intro rnd_between) simp_all
  have "(of_int w :: rat) \<le> of_int (2 ^ 53)" using assms(10) by (simp only: of_int_le_iff)
  then have fe: "f_round ?m = Fin (rnd ?m)"
    using m small_abs [of ?m 53] by (intro f_round_Fin) simp
  have "tb_wait rate t = f_to_int64 (Fin (rnd ?m))"
    using fa fb fe R assms(2) by (simp add: tb_wait_def)
  moreover have "0 \<le> rat_trunc (rnd ?m)" "rat_trunc (rnd ?m) \<le> w"
    using e by (simp_all add: rat_trunc_def floor_le_iff)
  moreover have "in_i64 (rat_trunc (rnd ?m))" using calculation(2,3) assms(10) by (simp add: in_i64_def)
  ultimately show "0 \<le> tb_wait rate t" "tb_wait rate t \<le> w" by simp_all
qed

text \<open>
  The delay a refused client is told lies between zero and one second, and with a rate of two
  or more it is never above half a second.
\<close>

theorem token_bucket_retry_after:
  assumes "tb_params rate burst" and "1 \<le> rate" and "0 \<le> burst" and "sorted (t0 # nows)"
    and "ErrRateLimited d \<in> set (snd (tb_run rate burst (tb_fresh t0 burst) nows))"
  shows "0 \<le> d \<and> d \<le> (if rate = 1 then 10 ^ 9 else 5 * 10 ^ 8)"
proof -
  have wait: "0 \<le> tb_wait rate t \<and> tb_wait rate t \<le> (if rate = 1 then 10 ^ 9 else 5 * 10 ^ 8)"
    if "0 \<le> t" "t < 1" for t
  proof (cases "rate = 1")
    case True
    with tb_wait_bounds [of rate t 1 "10 ^ 9"] that show ?thesis by simp
  next
    case False
    then have "2 \<le> rate" using assms(2) by simp
    then have "(2::rat) \<le> of_int rate" by simp
    then have "1 / of_int rate \<le> (1 / 2 :: rat)" by (simp add: field_simps)
    then show ?thesis
      using rnd_half tb_wait_bounds [of rate t "1 / 2" "5 * 10 ^ 8"] that assms(1,2) False by (simp add: tb_params_def)
  qed
  have "0 \<le> d \<and> d \<le> (if rate = 1 then 10 ^ 9 else 5 * 10 ^ 8)"
    if "tb_ok burst b" "sorted (tb_lastFill b # nows)" "ErrRateLimited d \<in> set (snd (tb_run rate burst b nows))" for b nows
    using that
  proof (induction nows arbitrary: b)
    case Nil
    then show ?case by simp
  next
    case (Cons now nows)
    let ?b = "fst (tb_take now (f_of_int rate) burst b)"
    have now: "tb_lastFill b \<le> now" using Cons.prems(2) by simp
    note ok = tb_ok_step [OF assms(1) Cons.prems(1) now]
    from Cons.prems(3) consider "snd (tb_take now (f_of_int rate) burst b) = ErrRateLimited d" |
        "ErrRateLimited d \<in> set (snd (tb_run rate burst ?b nows))"
      by (auto simp: case_prod_beta)
    then show ?case
    proof cases
      case 1
      from assms(1) Cons.prems(1) now show ?thesis
        by (rule tb_step_cases) (use 1 wait in \<open>auto split: if_splits\<close>)
    next
      case 2
      with Cons.IH [of ?b] ok Cons.prems(2) show ?thesis by simp
    qed
  qed
  from this [OF tb_fresh_ok [OF assms(1,3), of t0] _ assms(5)] assms(4) show ?thesis by (simp add: tb_fresh_def)
qed

lemma tb_fresh_run_one:
  "snd (tb_run 2 1 (tb_fresh 0 1) [0, 0]) = [Allowed, ErrRateLimited 500000000]"
  by (simp add: tb_fresh_def tb_take_def Let_def time_Sub_def sat64_def rl_min_def f_sub_def f_round_Fin
      rat_trunc_def in_i64_def)

theorem token_bucket_retry_after_witness:
  "(0::int) \<le> 500000000 \<and> (500000000::int) \<le> 5 * 10 ^ 8"
  using token_bucket_retry_after [of 2 1 0 "[0, 0]" 500000000]
  by (simp add: tb_fresh_run_one tb_params_def del: cell_run.simps)

lemma no_burst_take:
  assumes "tb_params rate burst" and "burst \<le> 0" and "tb_lastFill b \<le> now" and "tb_tokens b = f_of_int burst"
  shows "\<exists>d. tb_take now (f_of_int rate) burst b = (\<lparr>tb_tokens = f_of_int burst, tb_lastFill = now\<rparr>, ErrRateLimited d)"
proof -
  let ?d = "time_Sub now (tb_lastFill b)"
  have B: "\<bar>burst\<bar> \<le> 2 ^ 53" and t: "tb_tokens b = Fin (of_int burst)" "\<bar>of_int burst :: rat\<bar> \<le> 2 ^ 53"
    using assms(1,4) burst_le [of burst] by (simp_all add: tb_params_def abs_le_iff)
  have d: "0 \<le> ?d" "in_i64 ?d" using assms(3) by (auto simp: time_Sub_def sat64_def in_i64_def)
  have "of_int burst \<le> refill rate burst ?d (of_int burst)"
    using refill_ge [OF assms(1) d, of "of_int burst"] B by simp
  then have "refill rate burst ?d (of_int burst) = of_int burst" by (simp add: refill_def)
  moreover have "(of_int burst :: rat) \<le> 0" using assms(2) by simp
  ultimately show ?thesis
    using tb_take_eq [OF assms(1) t(2) assms(3) t(1)] B by (simp add: Let_def)
qed

text \<open>
  A token bucket without a burst (the field is missing, or not positive) refuses every
  request, whatever its rate: the bucket is created with \<open>burst\<close> tokens and refills up to
  \<open>burst\<close>. The configuration is accepted.
\<close>

theorem token_bucket_no_burst:
  assumes "rl_New parseURL (Some c) = Inr (TokenBucket l)" and "tb_params (rlc_Rate c) (rlc_Burst c)" and "rlc_Burst c \<le> 0"
    and "sorted (concat (map (\<lambda>((t0, now), r). [t0, now]) es))"
  shows "Inr Allowed \<notin> set (snd (rl_run (\<lambda>(t0, now). tl_Allow t0 now) l es))"
proof -
  let ?rate = "rlc_Rate c" and ?burst = "rlc_Burst c"
  have start: "tl_rate l = f_of_int ?rate" "tl_burst l = ?burst" "tl_buckets l = Map.empty"
    using assms(1) by (auto simp: rl_New_def newRedisLimiter_def Let_def map_sum_def
        split: if_splits option.splits sum.splits)
  have "Inr Allowed \<notin> set (snd (rl_run (\<lambda>(t0, now). tl_Allow t0 now) l es))"
    if "tl_rate l = f_of_int ?rate" "tl_burst l = ?burst"
      "\<forall>k b. tl_buckets l k = Some b \<longrightarrow> tb_tokens b = f_of_int ?burst \<and>
        (\<forall>t \<in> set (concat (map (\<lambda>((t0, now), r). [t0, now]) es)). tb_lastFill b \<le> t)"
      "sorted (concat (map (\<lambda>((t0, now), r). [t0, now]) es))" for l
    using that
  proof (induction es arbitrary: l)
    case Nil
    then show ?case by simp
  next
    case (Cons e es)
    obtain t0 now r where e: "e = ((t0, now), r)" by (metis prod.collapse)
    let ?k = "tl_keyFn l r"
    define b where "b = (case tl_buckets l ?k of Some b \<Rightarrow> b | None \<Rightarrow> \<lparr>tb_tokens = f_of_int ?burst, tb_lastFill = t0\<rparr>)"
    have "tb_lastFill b \<le> now" "tb_tokens b = f_of_int ?burst"
      using Cons.prems(3,4) by (auto simp: b_def e split: option.splits)
    then obtain d where take: "tb_take now (f_of_int ?rate) ?burst b =
        (\<lparr>tb_tokens = f_of_int ?burst, tb_lastFill = now\<rparr>, ErrRateLimited d)"
      using no_burst_take [OF assms(2,3)] by blast
    let ?l = "fst (tl_Allow t0 now r l)"
    have l': "snd (tl_Allow t0 now r l) = Inr (ErrRateLimited d)" "tl_rate ?l = tl_rate l" "tl_burst ?l = tl_burst l"
        "tl_buckets ?l = (tl_buckets l)(?k \<mapsto> \<lparr>tb_tokens = f_of_int ?burst, tb_lastFill = now\<rparr>)"
      using take Cons.prems(1,2) by (auto simp: tl_Allow_def tl_getOrCreate_def b_def Let_def split: option.splits)
    have "Inr Allowed \<notin> set (snd (rl_run (\<lambda>(t0, now). tl_Allow t0 now) ?l es))"
      using Cons.prems by (intro Cons.IH) (auto simp: l' e)
    then show ?case using l'(1) by (auto simp: e split: prod.split)
  qed
  from this [of l] start assms(4) show ?thesis by simp
qed

theorem token_bucket_no_burst_witness:
  "Inr Allowed \<notin> set (snd (rl_run (\<lambda>(t0, now). tl_Allow t0 now)
     \<lparr>tl_buckets = Map.empty, tl_rate = f_of_int 100, tl_burst = 0, tl_keyFn = buildKeyFn ''ip''\<rparr>
     [((5, 6), client ''10.0.0.1:4001'')]))"
  by (rule token_bucket_no_burst [where c = "example_limit\<lparr>rlc_Algorithm := ''token_bucket'', rlc_Rate := 100\<rparr>"
        and parseURL = "\<lambda>u. False"])
    (simp_all add: rl_New_def example_limit_def tb_params_def)

end
