(* ===== verification/RedisScript.thy ===== *)
theory RedisScript
  imports RateLimiter
begin

section \<open>Package ratelimiter: the script the Redis limiter runs\<close>

text \<open>
  \<open>slidingWindowLua\<close> of \<open>internal/ratelimiter/ratelimiter.go\<close>, over the server's sorted-set
  commands. These are the fields of \<open>redis_cmds\<close>, on a server state of any type; what the
  script relies on is \<open>sorted_set_laws\<close>, the commands' documented behaviour on a key whose
  members are their own scores (as the script stores them). A script runs atomically. The passage
  of time on the server is not modelled: the expiry set after an admission is at least the window,
  so it only removes entries that have left it.
\<close>

record 's redis_cmds =
  rc_zremrangebyscore :: "string \<Rightarrow> int \<Rightarrow> 's \<Rightarrow> 's"
  rc_zcard :: "string \<Rightarrow> 's \<Rightarrow> int"
  rc_zrange_first :: "string \<Rightarrow> 's \<Rightarrow> int option"
  rc_zadd :: "string \<Rightarrow> int \<Rightarrow> int \<Rightarrow> 's \<Rightarrow> 's"
  rc_expire :: "string \<Rightarrow> int \<Rightarrow> 's \<Rightarrow> 's"

text \<open>\<open>math.ceil(window/1000)\<close>; a table that ends in \<open>nil\<close> is answered without it.\<close>

definition slidingWindowLua :: "'s redis_cmds \<Rightarrow> string \<Rightarrow> int \<Rightarrow> int \<Rightarrow> int \<Rightarrow> 's \<Rightarrow> 's \<times> int list" where
  "slidingWindowLua cmds key now window limit s =
     (let cutoff = now - window;
          s1 = rc_zremrangebyscore cmds key cutoff s;
          count = rc_zcard cmds key s1
      in if limit \<le> count
         then (s1, case rc_zrange_first cmds key s1 of None \<Rightarrow> [0] | Some oldest \<Rightarrow> [0, oldest])
         else (rc_expire cmds key (- ((- window) div 1000)) (rc_zadd cmds key now now s1), [1, 0]))"

text \<open>\<open>redisLimiter.Allow\<close> when the server answers in time.\<close>

definition rd_AllowOn :: "'s redis_cmds \<Rightarrow> time \<Rightarrow> request \<Rightarrow> redisLimiter \<Rightarrow> 's \<Rightarrow> 's \<times> (panic + rl_result)" where
  "rd_AllowOn cmds now r rl s =
     (fst (slidingWindowLua cmds (''rl:'' @ rd_keyFn rl r) (time_UnixMilli now) (rd_window rl sdiv time_Millisecond)
        (rd_rate rl) s),
      rd_Allow (\<lambda>key nowMs windowMs limit. Some (snd (slidingWindowLua cmds key nowMs windowMs limit s))) now r rl)"

fun rd_run :: "'s redis_cmds \<Rightarrow> redisLimiter \<Rightarrow> (time \<times> request) list \<Rightarrow> 's \<Rightarrow> (panic + rl_result) list" where
  "rd_run cmds rl [] s = []"
| "rd_run cmds rl ((now, r) # es) s =
     (case rd_AllowOn cmds now r rl s of (s', res) \<Rightarrow> res # rd_run cmds rl es s')"

subsection \<open>The commands' documented behaviour\<close>

definition sorted_set_laws :: "'s redis_cmds \<Rightarrow> (string \<Rightarrow> 's \<Rightarrow> int set) \<Rightarrow> bool" where
  "sorted_set_laws cmds mem \<longleftrightarrow>
     (\<forall>k s. finite (mem k s)) \<and>
     (\<forall>k c s. mem k (rc_zremrangebyscore cmds k c s) = {x \<in> mem k s. c < x}) \<and>
     (\<forall>k s. rc_zcard cmds k s = int (card (mem k s))) \<and>
     (\<forall>k s. rc_zrange_first cmds k s = (if mem k s = {} then None else Some (Min (mem k s)))) \<and>
     (\<forall>k x s. mem k (rc_zadd cmds k x x s) = insert x (mem k s)) \<and>
     (\<forall>k t s. mem k (rc_expire cmds k t s) = (if t \<le> 0 then {} else mem k s))"

subsection \<open>What the limiter counts\<close>

text \<open>
  The specification the script implements: a request is admitted when fewer than \<open>l\<close> distinct
  admitted milliseconds lie in the window of length \<open>w\<close> that ends with it.
\<close>

fun ms_spec :: "int \<Rightarrow> int \<Rightarrow> int set \<Rightarrow> int list \<Rightarrow> bool list" where
  "ms_spec w l A [] = []"
| "ms_spec w l A (t # ts) =
     (let ok = (int (card {a \<in> A. t - w < a}) < l) in ok # ms_spec w l (if ok then insert t A else A) ts)"

definition windowMs :: "redisLimiter \<Rightarrow> int" where
  "windowMs rl = rd_window rl sdiv time_Millisecond"

lemma script_step:
  assumes laws: "sorted_set_laws cmds mem" and w: "0 < windowMs rl" and k: "k = ''rl:'' @ rd_keyFn rl r"
    and step: "rd_AllowOn cmds now r rl s = (s', res)"
  shows "let t = time_UnixMilli now; M = {x \<in> mem k s. t - windowMs rl < x}; ok = (int (card M) < rd_rate rl)
    in (res = Inr Allowed) = ok \<and> mem k s' = (if ok then insert t M else M)"
proof -
  let ?t = "time_UnixMilli now"
  let ?M = "{x \<in> mem k s. ?t - windowMs rl < x}"
  let ?s1 = "rc_zremrangebyscore cmds k (?t - windowMs rl) s"
  have s1: "mem k ?s1 = ?M" "rc_zcard cmds k ?s1 = int (card ?M)"
    using laws by (simp_all add: sorted_set_laws_def)
  have "0 < - ((- windowMs rl) div 1000)" using w by (simp add: pos_imp_zdiv_neg_iff)
  then have admitted: "mem k (rc_expire cmds k (- ((- windowMs rl) div 1000)) (rc_zadd cmds k ?t ?t ?s1)) = insert ?t ?M"
    using laws s1(1) by (simp add: sorted_set_laws_def)
  let ?run = "slidingWindowLua cmds k ?t (windowMs rl) (rd_rate rl) s"
  have r: "s' = fst ?run" "res = rd_Allow (\<lambda>k n w l. Some (snd (slidingWindowLua cmds k n w l s))) now r rl"
    using step by (auto simp: rd_AllowOn_def k windowMs_def)
  show ?thesis
  proof (cases "int (card ?M) < rd_rate rl")
    case True
    then have "?run = (rc_expire cmds k (- ((- windowMs rl) div 1000)) (rc_zadd cmds k ?t ?t ?s1), [1, 0])"
      using s1(2) by (simp add: slidingWindowLua_def Let_def)
    with True r admitted show ?thesis by (simp add: rd_Allow_def k windowMs_def Let_def)
  next
    case False
    then have "fst ?run = ?s1" "\<exists>rest. snd ?run = 0 # rest"
      using s1(2) by (simp_all add: slidingWindowLua_def Let_def split: option.splits)
    moreover from this have "res \<noteq> Inr Allowed"
      using r(2) by (auto simp: rd_Allow_def k windowMs_def Let_def split: list.splits)
    ultimately show ?thesis using False r(1) s1(1) by (simp add: Let_def)
  qed
qed

lemma same_window:
  fixes t T w :: int
  assumes "M \<subseteq> A" and "\<forall>a \<in> A. T - w < a \<longrightarrow> a \<in> M" and "T \<le> t"
  shows "{x \<in> M. t - w < x} = {a \<in> A. t - w < a}"
proof -
  have "a \<in> M" if "a \<in> A" "t - w < a" for a
  proof -
    have "T - w < a" using that(2) assms(3) by linarith
    with that(1) assms(2) show ?thesis by blast
  qed
  with assms(1) show ?thesis by auto
qed

lemma script_refines:
  assumes "sorted_set_laws cmds mem" and "0 < windowMs rl" and "\<forall>(now, r) \<in> set es. ''rl:'' @ rd_keyFn rl r = k"
    and "sorted (T # map (\<lambda>(now, r). time_UnixMilli now) es)"
    and "mem k s \<subseteq> A" and "\<forall>a \<in> A. T - windowMs rl < a \<longrightarrow> a \<in> mem k s"
  shows "map (\<lambda>res. res = Inr Allowed) (rd_run cmds rl es s) =
    ms_spec (windowMs rl) (rd_rate rl) A (map (\<lambda>(now, r). time_UnixMilli now) es)"
  using assms(3-)
proof (induction es arbitrary: s A T)
  case Nil
  then show ?case by simp
next
  case (Cons e es)
  obtain now r where e: "e = (now, r)" by (cases e)
  obtain s' res where step: "rd_AllowOn cmds now r rl s = (s', res)" by (cases "rd_AllowOn cmds now r rl s")
  let ?t = "time_UnixMilli now" and ?w = "windowMs rl"
  let ?M = "{x \<in> mem k s. ?t - ?w < x}"
  let ?ok = "int (card ?M) < rd_rate rl"
  let ?A = "if ?ok then insert ?t A else A"
  have k: "k = ''rl:'' @ rd_keyFn rl r" using Cons.prems(1) e by simp
  from script_step [OF assms(1,2) k step] have s': "(res = Inr Allowed) = ?ok" "mem k s' = (if ?ok then insert ?t ?M else ?M)"
    by (simp_all add: Let_def)
  have M: "?M = {a \<in> A. ?t - ?w < a}"
    using same_window [OF Cons.prems(3,4)] Cons.prems(2) e by simp
  have "map (\<lambda>res. res = Inr Allowed) (rd_run cmds rl es s') =
      ms_spec ?w (rd_rate rl) ?A (map (\<lambda>(now, r). time_UnixMilli now) es)"
  proof (rule Cons.IH)
    show "mem k s' \<subseteq> ?A" using Cons.prems(3) by (auto simp: s'(2))
    show "\<forall>a \<in> ?A. ?t - ?w < a \<longrightarrow> a \<in> mem k s'" using M by (auto simp: s'(2))
    show "sorted (?t # map (\<lambda>(now, r). time_UnixMilli now) es)" using Cons.prems(2) e by simp
  qed (use Cons.prems(1) in auto)
  then show ?case using s'(1) step M by (simp add: e Let_def)
qed

text \<open>
  C20. The distributed limiter counts milliseconds, not requests: on a fresh key, for requests in
  the order of their clock, the script admits exactly those that find fewer distinct admitted
  milliseconds than the rate in the window before them, since a second member with the same
  timestamp replaces the first in the sorted set.
\<close>

theorem redis_script_refines:
  assumes "sorted_set_laws cmds mem" and "0 < windowMs rl" and "\<forall>(now, r) \<in> set es. ''rl:'' @ rd_keyFn rl r = k"
    and "sorted (map (\<lambda>(now, r). time_UnixMilli now) es)" and "mem k s = {}"
  shows "map (\<lambda>res. res = Inr Allowed) (rd_run cmds rl es s) =
    ms_spec (windowMs rl) (rd_rate rl) {} (map (\<lambda>(now, r). time_UnixMilli now) es)"
proof (cases es)
  case Nil
  then show ?thesis by simp
next
  case (Cons e es')
  with assms(4) have "sorted (time_UnixMilli (fst e) # map (\<lambda>(now, r). time_UnixMilli now) es)"
    by (simp add: case_prod_beta)
  from script_refines [OF assms(1,2,3) this] assms(5) show ?thesis by simp
qed

text \<open>The commands on a server that is a map from keys to sets of integers.\<close>

definition set_cmds :: "(string \<Rightarrow> int list) redis_cmds" where
  "set_cmds = \<lparr>rc_zremrangebyscore = (\<lambda>k c s. s(k := filter (\<lambda>x. c < x) (s k))),
     rc_zcard = (\<lambda>k s. int (card (set (s k)))),
     rc_zrange_first = (\<lambda>k s. if s k = [] then None else Some (Min (set (s k)))),
     rc_zadd = (\<lambda>k score x s. s(k := x # s k)),
     rc_expire = (\<lambda>k t s. if t \<le> 0 then s(k := []) else s)\<rparr>"

lemma set_cmds_laws: "sorted_set_laws set_cmds (\<lambda>k s. set (s k))"
  by (auto simp: sorted_set_laws_def set_cmds_def)

definition two_per_second :: redisLimiter where
  "two_per_second = \<lparr>rd_rate = 2, rd_window = time_Second, rd_keyFn = (\<lambda>r. ''k'')\<rparr>"

lemma two_window: "windowMs two_per_second = 1000"
  by (simp add: windowMs_def two_per_second_def time_Second_def time_Millisecond_def)

definition a_request :: request where
  "a_request = \<lparr>r_Method = ''GET'', r_URLScheme = [], r_URLHost = [], r_Path = ''/'', r_Host = [],
     r_RemoteAddr = [], r_TLS = False, r_Header = Map.empty\<rparr>"

definition at_ms :: "int \<Rightarrow> time \<times> request" where
  "at_ms t = (62135596800 * time_Second + t * time_Millisecond, a_request)"

lemma at_ms_UnixMilli [simp]: "time_UnixMilli (fst (at_ms t)) = t"
  by (simp add: at_ms_def time_UnixMilli_def time_Millisecond_def)

lemma at_ms_all: "\<forall>(now, r) \<in> set (map at_ms ts). ''rl:'' @ rd_keyFn two_per_second r = ''rl:k''"
  by (simp add: two_per_second_def case_prod_beta)

lemma at_ms_times [simp]: "map (\<lambda>(now, r). time_UnixMilli now) (map at_ms ts) = ts"
  by (induction ts) (simp_all add: case_prod_beta)

lemma filter_insert: "{a \<in> insert x A. P a} = (if P x then insert x {a \<in> A. P a} else {a \<in> A. P a})"
  by auto

theorem redis_script_refines_witness:
  "map (\<lambda>res. res = Inr Allowed) (rd_run set_cmds two_per_second (map at_ms [5, 5, 5, 6, 7, 1006]) (\<lambda>k. [])) =
   [True, True, True, True, False, True]"
proof (rule trans [OF redis_script_refines [OF set_cmds_laws _ at_ms_all]])
  have "rd_rate two_per_second = 2" by (simp add: two_per_second_def)
  then show "ms_spec (windowMs two_per_second) (rd_rate two_per_second) {}
      (map (\<lambda>(now, r). time_UnixMilli now) (map at_ms [5, 5, 5, 6, 7, 1006])) = [True, True, True, True, False, True]"
    unfolding two_window at_ms_times by (simp add: Let_def filter_insert del: insert_iff) (simp add: card_insert_if)
  show "sorted (map (\<lambda>(now, r). time_UnixMilli now) (map at_ms [5, 5, 5, 6, 7, 1006]))"
    unfolding at_ms_times by simp
qed (simp_all add: two_window)

text \<open>
  So a burst passes whole: with a rate of two or more, any number of requests that reach the
  limiter within one millisecond on a fresh key are all admitted.
\<close>

theorem redis_burst_passes:
  assumes "sorted_set_laws cmds mem" and "0 < windowMs rl" and "1 < rd_rate rl" and "mem k s = {}"
    and "\<forall>(now, r) \<in> set es. ''rl:'' @ rd_keyFn rl r = k \<and> time_UnixMilli now = t"
  shows "set (rd_run cmds rl es s) \<subseteq> {Inr Allowed}"
proof -
  have few: "ms_spec w l A ts = map (\<lambda>x. True) ts" if "A \<subseteq> {t}" "1 < l" "\<forall>x \<in> set ts. x = t" for w l A ts
    using that
  proof (induction ts arbitrary: A)
    case (Cons x ts)
    have "card {a \<in> A. x - w < a} \<le> card {t}" using Cons.prems(1) by (intro card_mono) auto
    with Cons show ?case by (simp add: Let_def)
  qed simp
  let ?ts = "map (\<lambda>(now, r). time_UnixMilli now) es"
  have ts: "\<forall>x \<in> set ?ts. x = t" and keys: "\<forall>(now, r) \<in> set es. ''rl:'' @ rd_keyFn rl r = k"
    using assms(5) by auto
  then have "sorted (t # ?ts)" by (induction es) auto
  from script_refines [OF assms(1,2) keys this, of s "{}"] assms(4)
  have "map (\<lambda>res. res = Inr Allowed) (rd_run cmds rl es s) = ms_spec (windowMs rl) (rd_rate rl) {} ?ts" by simp
  then have "map (\<lambda>res. res = Inr Allowed) (rd_run cmds rl es s) = map (\<lambda>x. True) ?ts"
    using few [of "{}", OF _ assms(3) ts] by simp
  then have "\<forall>x \<in> set (map (\<lambda>res. res = Inr Allowed) (rd_run cmds rl es s)). x" by simp
  then show ?thesis by auto
qed

theorem redis_burst_passes_witness:
  "set (rd_run set_cmds two_per_second (replicate 1000 (at_ms 5)) (\<lambda>k. [])) \<subseteq> {Inr Allowed}"
proof (rule redis_burst_passes [OF set_cmds_laws, where k = "''rl:k''" and t = 5])
  show "\<forall>(now, r) \<in> set (replicate 1000 (at_ms 5)). ''rl:'' @ rd_keyFn two_per_second r = ''rl:k'' \<and> time_UnixMilli now = 5"
    using at_ms_UnixMilli [of 5] by (auto simp: two_per_second_def simp del: at_ms_UnixMilli)
qed (simp_all add: two_window, simp add: two_per_second_def)

end
