(* ===== verification/TraceStore.thy ===== *)
theory TraceStore
  imports Prelude
begin

section \<open>Package middleware: the store of recent traces\<close>

text \<open>
  \<open>TraceSpan\<close> and \<open>TraceStore\<close> of \<open>internal/middleware/tracing.go\<close>, the bounded store behind
  the \<open>/traces\<close> endpoint. Every method holds the store's lock, so it is one step.
\<close>

record TraceSpan =
  sp_TraceID :: string
  sp_Path :: string
  sp_Method :: string
  sp_StatusCode :: int
  sp_Duration :: duration
  sp_StartTime :: time
  sp_Timings :: "(string \<times> duration) list"

record TraceStore =
  ts_spans :: "TraceSpan list"
  ts_max :: int

definition NewTraceStore :: "int \<Rightarrow> TraceStore" where
  "NewTraceStore mx = (let m = (if mx \<le> 0 then 100 else mx) in \<lparr>ts_spans = [], ts_max = m\<rparr>)"

definition ts_Add :: "TraceSpan \<Rightarrow> TraceStore \<Rightarrow> TraceStore" where
  "ts_Add s ts =
     (let kept = (if ts_max ts \<le> int (length (ts_spans ts)) then drop 1 (ts_spans ts) else ts_spans ts)
      in ts\<lparr>ts_spans := kept @ [s]\<rparr>)"

definition ts_GetAll :: "TraceStore \<Rightarrow> TraceSpan list" where
  "ts_GetAll ts = ts_spans ts"

definition last_n :: "nat \<Rightarrow> 'a list \<Rightarrow> 'a list" where
  "last_n n xs = drop (length xs - n) xs"

lemma last_n_snoc: "0 < n \<Longrightarrow> last_n n (xs @ [x]) = (if n \<le> length (last_n n xs) then drop 1 (last_n n xs) else last_n n xs) @ [x]"
  by (auto simp: last_n_def Suc_diff_le)

text \<open>
  C39. The store is a ring buffer: after any number of additions \<open>GetAll\<close> returns the most recent
  spans in the order they were added, as many as the capacity allows (100 where none, or a
  negative one, was asked for), and nothing else.
\<close>

theorem trace_store_recent:
  "ts_GetAll (fold ts_Add ss (NewTraceStore n)) = last_n (nat (if n \<le> 0 then 100 else n)) ss"
proof -
  let ?m = "if n \<le> 0 then 100 else n"
  have "fold ts_Add ss (NewTraceStore n) = \<lparr>ts_spans = last_n (nat ?m) ss, ts_max = ?m\<rparr>"
  proof (induction ss rule: rev_induct)
    case Nil
    then show ?case by (simp add: NewTraceStore_def last_n_def Let_def)
  next
    case (snoc s ss)
    have "(?m \<le> int (length (last_n (nat ?m) ss))) = (nat ?m \<le> length (last_n (nat ?m) ss))" by auto
    with snoc last_n_snoc [of "nat ?m" ss s] show ?case by (simp add: ts_Add_def)
  qed
  then show ?thesis by (simp add: ts_GetAll_def)
qed

end
