(* ===== verification/Handler.thy ===== *)
theory Handler
  imports Http TraceStore Float64
begin

section \<open>Responses and handlers\<close>

text \<open>
  The response side of \<open>net/http\<close> as the gateway uses it, and the shape of a handler. A response
  writer holds the header map being filled, what was sent (status and a snapshot of the header,
  once \<open>WriteHeader\<close> was called), the body the server accepted so far (to a HEAD request it sends
  none of it), the number of bytes written, refused ones included, and the statuses noted by the
  \<open>captureStatus\<close> wrappers around it (\<open>internal/middleware/tracing.go\<close>), the outermost call's last. A wrapper
  forwards everything, so one writer with a stack of notes stands for all of them.
\<close>

record writer =
  w_Header :: header
  w_sent :: "(int \<times> header) option"
  w_body :: string
  w_written :: int
  w_captures :: "int list"

definition new_writer :: writer where
  "new_writer = \<lparr>w_Header = Map.empty, w_sent = None, w_body = [], w_written = 0, w_captures = []\<rparr>"

text \<open>Informational statuses other than 101 are sent at once and do not end the header.\<close>

definition informational :: "int \<Rightarrow> bool" where
  "informational code \<longleftrightarrow> 100 \<le> code \<and> code < 200 \<and> code \<noteq> 101"

definition send_header :: "int \<Rightarrow> writer \<Rightarrow> writer" where
  "send_header code w =
     (if w_sent w \<noteq> None \<or> informational code then w else w\<lparr>w_sent := Some (code, w_Header w)\<rparr>)"

text \<open>\<open>captureStatus.WriteHeader\<close> notes the code and forwards the call.\<close>

definition w_WriteHeader :: "int \<Rightarrow> writer \<Rightarrow> writer" where
  "w_WriteHeader code w = send_header code (w\<lparr>w_captures := map (\<lambda>s. code) (w_captures w)\<rparr>)"

text \<open>
  \<open>Write\<close> sends status 200 if nothing was sent. The server refuses a body where the status has none
  (\<open>ErrBodyNotAllowed\<close>) and a write beyond the declared \<open>Content-Length\<close> (\<open>ErrContentLength\<close>), of
  which it then accepts nothing; an unreadable length counts as none (\<open>strconv.ParseInt\<close>).
\<close>

definition bodyAllowed :: "int \<Rightarrow> bool" where
  "bodyAllowed code \<longleftrightarrow> \<not> (100 \<le> code \<and> code \<le> 199) \<and> code \<noteq> 204 \<and> code \<noteq> 304"

definition declaredLength :: "header \<Rightarrow> int option" where
  "declaredLength h =
     (let cl = header_Get h ''Content-Length'';
          signed = (cl \<noteq> [] \<and> (hd cl = CHR ''+'' \<or> hd cl = CHR ''-''));
          ds = (if signed then tl cl else cl);
          v = fold (\<lambda>c n. 10 * n + (int (byte_of c) - 48)) ds 0
      in if ds = [] \<or> \<not> list_all isDigitByte ds then None
         else if hd cl = CHR ''-'' then (if v = 0 then Some 0 else None)
         else if v < 2 ^ 63 then Some v else None)"

definition fits :: "header \<Rightarrow> int \<Rightarrow> bool" where
  "fits h n \<longleftrightarrow> (case declaredLength h of None \<Rightarrow> True | Some m \<Rightarrow> n \<le> m)"

definition w_Write :: "string \<Rightarrow> writer \<Rightarrow> writer" where
  "w_Write s w =
     (let w1 = send_header 200 w; (code, h) = the (w_sent w1)
      in if s = [] \<or> \<not> bodyAllowed code then w1
         else let w2 = w1\<lparr>w_written := w_written w1 + int (length s)\<rparr>
              in if fits h (w_written w2) then w2\<lparr>w_body := w_body w2 @ s\<rparr> else w2)"

definition w_SetHeader :: "string \<Rightarrow> string \<Rightarrow> writer \<Rightarrow> writer" where
  "w_SetHeader k v w = w\<lparr>w_Header := header_Set (w_Header w) k v\<rparr>"

text \<open>\<open>http.Error\<close>.\<close>

definition http_Error :: "string \<Rightarrow> int \<Rightarrow> writer \<Rightarrow> writer" where
  "http_Error msg code w =
     w_Write (msg @ [CHR 0x0A])
       (w_WriteHeader code
         (w_SetHeader ''X-Content-Type-Options'' ''nosniff''
           (w_SetHeader ''Content-Type'' ''text/plain; charset=utf-8'' w)))"

text \<open>\<open>cw := &captureStatus{ResponseWriter: w, status: http.StatusOK}\<close>, and reading it.\<close>

definition cw_new :: "writer \<Rightarrow> writer" where
  "cw_new w = w\<lparr>w_captures := 200 # w_captures w\<rparr>"

definition cw_status :: "writer \<Rightarrow> int" where
  "cw_status w = hd (w_captures w)"

definition cw_inner :: "writer \<Rightarrow> writer" where
  "cw_inner w = w\<lparr>w_captures := tl (w_captures w)\<rparr>"

text \<open>The status the client gets: 200 when the handler wrote nothing.\<close>

definition status_of :: "writer \<Rightarrow> int" where
  "status_of w = (case w_sent w of None \<Rightarrow> 200 | Some (code, h) \<Rightarrow> code)"

subsection \<open>Numbers as text\<close>

fun digits_of :: "nat \<Rightarrow> string" where
  "digits_of n = (if n < 10 then [char_of (48 + n)] else digits_of (n div 10) @ [char_of (48 + n mod 10)])"

definition itoa :: "int \<Rightarrow> string" where
  "itoa n = (if n < 0 then CHR ''-'' # digits_of (nat (- n)) else digits_of (nat n))"

subsection \<open>The world around a handler\<close>

text \<open>
  What the handlers of one gateway share: the log, the Prometheus counters and histograms (as
  the list of their observations), the trace store if there is one, and the state of the routes (\<open>wd_gw\<close>, of a
  type the middleware does not look at). A handler returns the request as well, because the
  header map is shared and a middleware reads it after the call of the next one. The last
  component is the panic that ended it, if one did.
\<close>

record access_line =
  al_method :: string
  al_path :: string
  al_status :: int
  al_duration_ms :: int
  al_request_id :: string

datatype log_entry =
    RequestLine access_line
  | PanicLine panic
  | ErrorLine string string

record 'g world =
  wd_log :: "log_entry list"
  wd_requestsTotal :: "(string \<times> string \<times> string) list"
  wd_requestDuration :: "(string \<times> string \<times> float64) list"
  wd_traces :: "TraceStore option"
  wd_gw :: 'g

type_synonym 'g handler = "'g world \<Rightarrow> request \<Rightarrow> writer \<Rightarrow> 'g world \<times> request \<times> writer \<times> panic option"

subsection \<open>Laws of the writer\<close>

lemma WriteHeader_sent [simp]:
  "\<not> informational code \<Longrightarrow>
   w_sent (w_WriteHeader code w) = (case w_sent w of None \<Rightarrow> Some (code, w_Header w) | Some x \<Rightarrow> Some x)"
  by (auto simp: w_WriteHeader_def send_header_def split: option.splits)

lemma WriteHeader_fields [simp]:
  "w_Header (w_WriteHeader code w) = w_Header w" "w_body (w_WriteHeader code w) = w_body w"
  "w_written (w_WriteHeader code w) = w_written w"
  "w_captures (w_WriteHeader code w) = map (\<lambda>s. code) (w_captures w)"
  by (simp_all add: w_WriteHeader_def send_header_def)

lemma Write_fields [simp]:
  "w_Header (w_Write s w) = w_Header w" "w_captures (w_Write s w) = w_captures w"
  "w_sent (w_Write s w) = (case w_sent w of None \<Rightarrow> Some (200, w_Header w) | Some x \<Rightarrow> Some x)"
  by (auto simp: w_Write_def send_header_def Let_def informational_def case_prod_beta split: option.splits)

lemma Write_body:
  assumes "w_sent w = Some (code, h)"
  shows "w_body (w_Write s w) =
      (if s \<noteq> [] \<and> bodyAllowed code \<and> fits h (w_written w + int (length s)) then w_body w @ s else w_body w)"
    and "w_written (w_Write s w) = (if bodyAllowed code then w_written w + int (length s) else w_written w)"
  using assms by (simp_all add: w_Write_def send_header_def Let_def)

lemma SetHeader_fields [simp]:
  "w_Header (w_SetHeader k v w) = header_Set (w_Header w) k v" "w_body (w_SetHeader k v w) = w_body w"
  "w_written (w_SetHeader k v w) = w_written w" "w_captures (w_SetHeader k v w) = w_captures w" "w_sent (w_SetHeader k v w) = w_sent w"
  by (simp_all add: w_SetHeader_def)

lemma Error_fields [simp]: "w_captures (http_Error msg code w) = map (\<lambda>s. code) (w_captures w)"
  by (simp add: http_Error_def)

text \<open>An error in the middle of a response is appended to its body, if there is room for it.\<close>

lemma Error_body:
  assumes "w_sent w = Some (c, h)" and "\<not> informational code"
  shows "w_body (http_Error msg code w) =
    (if bodyAllowed c \<and> fits h (w_written w + int (length msg + 1)) then w_body w @ msg @ [CHR 0x0A] else w_body w)"
  using assms by (simp add: http_Error_def Write_body algebra_simps)

lemma Error_status:
  "\<not> informational code \<Longrightarrow>
   status_of (http_Error msg code w) = (case w_sent w of None \<Rightarrow> code | Some (c, h) \<Rightarrow> c)"
  by (auto simp: http_Error_def status_of_def split: option.splits)

lemma cw_fields [simp]:
  "w_Header (cw_new w) = w_Header w" "w_body (cw_new w) = w_body w" "w_sent (cw_new w) = w_sent w"
  "w_captures (cw_new w) = 200 # w_captures w" "w_written (cw_new w) = w_written w" "w_written (cw_inner w) = w_written w"
  "w_Header (cw_inner w) = w_Header w" "w_body (cw_inner w) = w_body w" "w_sent (cw_inner w) = w_sent w"
  "w_captures (cw_inner w) = tl (w_captures w)"
  by (simp_all add: cw_new_def cw_inner_def)

end
