(* ===== verification/Middleware.thy ===== *)
theory Middleware
  imports Handler
begin

section \<open>Package middleware: request IDs, logs, metrics, recovery\<close>

text \<open>
  \<open>internal/middleware/middleware.go\<close>. A middleware takes the next handler and gives a handler;
  what the libraries deliver during one request (a fresh UUID, the clock at the start and at the
  end) are its first arguments. The lines after \<open>next.ServeHTTP\<close> do not run when it panics,
  since none of these middlewares defers them; only \<open>Recovery\<close> does.
\<close>

text \<open>\<open>for i := len(middlewares) - 1; i >= 0; i--\<close>\<close>

definition Chain :: "'g handler \<Rightarrow> ('g handler \<Rightarrow> 'g handler) list \<Rightarrow> 'g handler" where
  "Chain final middlewares = fold (\<lambda>mw h. mw h) (rev middlewares) final"

definition SetRequestHeader :: "string \<Rightarrow> string \<Rightarrow> request \<Rightarrow> request" where
  "SetRequestHeader k v r = r\<lparr>r_Header := header_Set (r_Header r) k v\<rparr>"

definition RequestID :: "string \<Rightarrow> 'g handler \<Rightarrow> 'g handler" where
  "RequestID fresh nxt wd r w =
     (let id0 = header_Get (r_Header r) ''X-Request-ID'';
          i = (if id0 = [] then fresh else id0)
      in nxt wd (SetRequestHeader ''X-Request-ID'' i r) (w_SetHeader ''X-Request-ID'' i w))"

definition Logger :: "time \<Rightarrow> time \<Rightarrow> 'g handler \<Rightarrow> 'g handler" where
  "Logger start stop nxt wd r w =
     (case nxt wd r (cw_new w) of
        (wd', r', cw, Some p) \<Rightarrow> (wd', r', cw_inner cw, Some p)
      | (wd', r', cw, None) \<Rightarrow>
          (wd'\<lparr>wd_log := wd_log wd' @ [RequestLine
             \<lparr>al_method = r_Method r', al_path = r_Path r', al_status = cw_status cw,
              al_duration_ms = time_Sub stop start sdiv 1000000,
              al_request_id = header_Get (r_Header r') ''X-Request-ID''\<rparr>]\<rparr>,
           r', cw_inner cw, None))"

definition Metrics :: "string \<Rightarrow> time \<Rightarrow> time \<Rightarrow> 'g handler \<Rightarrow> 'g handler" where
  "Metrics route start stop nxt wd r w =
     (case nxt wd r (cw_new w) of
        (wd', r', cw, Some p) \<Rightarrow> (wd', r', cw_inner cw, Some p)
      | (wd', r', cw, None) \<Rightarrow>
          (wd'\<lparr>wd_requestsTotal := wd_requestsTotal wd' @ [(route, r_Method r', itoa (cw_status cw))],
               wd_requestDuration := wd_requestDuration wd' @
                 [(route, r_Method r', duration_Seconds (time_Sub stop start))]\<rparr>,
           r', cw_inner cw, None))"

definition Recovery :: "'g handler \<Rightarrow> 'g handler" where
  "Recovery nxt wd r w =
     (case nxt wd r w of
        (wd', r', w', Some p) \<Rightarrow>
          (wd'\<lparr>wd_log := wd_log wd' @ [PanicLine p]\<rparr>, r',
           http_Error ''{\"error\":\"internal server error\"}'' 500 w', None)
      | (wd', r', w', None) \<Rightarrow> (wd', r', w', None))"

lemma Chain_Cons: "Chain final (m # ms) = m (Chain final ms)"
  by (simp add: Chain_def)

lemma Chain_Nil: "Chain final [] = final"
  by (simp add: Chain_def)

text \<open>A handler that sends half of its answer and is then cut off, for the examples.\<close>

definition broken_off :: "nat handler" where
  "broken_off wd r w = (wd, r, w_Write ''half of the an'' (w_WriteHeader 200 w), Some AbortHandler)"

definition world0 :: "nat world" where
  "world0 = \<lparr>wd_log = [], wd_requestsTotal = [], wd_requestDuration = [], wd_traces = Some (NewTraceStore 100), wd_gw = 0\<rparr>"

definition get_request :: "string \<Rightarrow> request" where
  "get_request path = \<lparr>r_Method = ''GET'', r_URLScheme = [], r_URLHost = [], r_Path = path,
     r_Host = ''gw'', r_RemoteAddr = ''10.0.0.1:4001'', r_TLS = False, r_Header = Map.empty\<rparr>"

end
