(* ===== verification/Tracing.thy ===== *)
theory Tracing
  imports Middleware Strings
begin

section \<open>Package middleware: tracing\<close>

text \<open>
  \<open>internal/middleware/tracing.go\<close>: the trace identifiers of a request, the two tracing
  middlewares, and the exporter that ships spans in batches. Random numbers and clock readings
  are arguments.
\<close>

subsection \<open>Identifiers\<close>

text \<open>\<open>newHex(n)\<close> draws \<open>n\<close> numbers below 16; \<open>ds\<close> is the list of them.\<close>

definition newHex :: "nat list \<Rightarrow> string" where
  "newHex ds = map (\<lambda>d. ''0123456789abcdef'' ! (d mod 16)) ds"

definition extractOrGenerateIDs :: "string \<Rightarrow> string \<Rightarrow> request \<Rightarrow> string \<times> string \<times> string" where
  "extractOrGenerateIDs hex32 hex16 r =
     (let tp = header_Get (r_Header r) ''traceparent'';
          parts = Split (CHR ''-'') tp;
          i = header_Get (r_Header r) ''X-Trace-ID''
      in if tp \<noteq> [] \<and> length parts = 4 then (parts ! 1, hex16, parts ! 2)
         else if i \<noteq> [] then (i, hex16, header_Get (r_Header r) ''X-Span-ID'')
         else (hex32, hex16, []))"

definition traceparent :: "string \<Rightarrow> string \<Rightarrow> string" where
  "traceparent traceID spanID = ''00-'' @ traceID @ ''-'' @ spanID @ ''-01''"

definition injectIDs :: "string \<Rightarrow> string \<Rightarrow> request \<Rightarrow> request" where
  "injectIDs traceID spanID r =
     SetRequestHeader ''X-Span-ID'' spanID
       (SetRequestHeader ''X-Trace-ID'' traceID
         (SetRequestHeader ''traceparent'' (traceparent traceID spanID) r))"

subsection \<open>The tracing middleware of the routes\<close>

definition trace_span :: "string \<Rightarrow> time \<Rightarrow> time \<Rightarrow> request \<Rightarrow> writer \<Rightarrow> TraceSpan" where
  "trace_span traceID start stop r cw =
     (let dur = time_Sub stop start
      in \<lparr>sp_TraceID = traceID, sp_Path = r_Path r, sp_Method = r_Method r, sp_StatusCode = cw_status cw,
          sp_Duration = dur, sp_StartTime = start, sp_Timings = [(''total'', dur)]\<rparr>)"

definition Tracing :: "string \<Rightarrow> string \<Rightarrow> time \<Rightarrow> time \<Rightarrow> 'g handler \<Rightarrow> 'g handler" where
  "Tracing hex32 hex16 start stop nxt wd r w =
     (case extractOrGenerateIDs hex32 hex16 r of
        (traceID, spanID, parent) \<Rightarrow>
          (case nxt wd (injectIDs traceID spanID r) (cw_new (w_SetHeader ''X-Trace-ID'' traceID w)) of
             (wd', r', cw, Some p) \<Rightarrow> (wd', r', cw_inner cw, Some p)
           | (wd', r', cw, None) \<Rightarrow>
               (wd'\<lparr>wd_traces := map_option (ts_Add (trace_span traceID start stop r' cw)) (wd_traces wd')\<rparr>,
                r', cw_inner cw, None)))"

subsection \<open>The exporter\<close>

record Span =
  se_TraceID :: string
  se_SpanID :: string
  se_ParentSpanID :: string
  se_Name :: string
  se_Service :: string
  se_StartTimeUS :: int
  se_DurationUS :: int
  se_Status :: int
  se_Error :: bool
  se_Tags :: "(string \<times> string) list"

text \<open>
  The channel with room for 2048 spans, the batch of the background goroutine, whether that
  still runs, and the batches handed to \<open>send\<close> (whose HTTP errors are dropped).
\<close>

record spanExporter =
  ex_ch :: "Span list"
  ex_closed :: bool
  ex_batch :: "Span list"
  ex_running :: bool
  ex_sent :: "Span list list"

definition newSpanExporter :: spanExporter where
  "newSpanExporter = \<lparr>ex_ch = [], ex_closed = False, ex_batch = [], ex_running = True, ex_sent = []\<rparr>"

text \<open>A \<open>select\<close> that would send on a closed channel panics, also when it has a default case.\<close>

definition ex_record :: "Span \<Rightarrow> spanExporter \<Rightarrow> panic + spanExporter" where
  "ex_record s e =
     (if ex_closed e then Inl SendOnClosedChannel
      else if length (ex_ch e) < 2048 then Inr (e\<lparr>ex_ch := ex_ch e @ [s]\<rparr>)
      else Inr e)"

definition ex_send :: "spanExporter \<Rightarrow> spanExporter" where
  "ex_send e = e\<lparr>ex_sent := ex_sent e @ [ex_batch e]\<rparr>"

text \<open>The loop's two cases: the channel is ready (a span, or closed and empty), or the ticker.\<close>

definition ex_receive :: "spanExporter \<Rightarrow> spanExporter" where
  "ex_receive e =
     (case ex_ch e of
        [] \<Rightarrow>
          if ex_closed e
          then (if ex_batch e \<noteq> [] then ex_send e else e)\<lparr>ex_running := False\<rparr>
          else e
      | s # rest \<Rightarrow>
          (let e1 = e\<lparr>ex_ch := rest, ex_batch := ex_batch e @ [s]\<rparr>
           in if 100 \<le> length (ex_batch e1) then (ex_send e1)\<lparr>ex_batch := []\<rparr> else e1))"

definition ex_tick :: "spanExporter \<Rightarrow> spanExporter" where
  "ex_tick e = (if ex_batch e \<noteq> [] then (ex_send e)\<lparr>ex_batch := []\<rparr> else e)"

text \<open>
  \<open>Stop\<close> closes the channel and waits for the goroutine to end. \<open>ex_drain\<close> is the loop when only its
  channel case is taken; what ticks in between change is part of \<open>exporter_stop_ends\<close>.
\<close>

definition ex_close :: "spanExporter \<Rightarrow> panic + spanExporter" where
  "ex_close e = (if ex_closed e then Inl CloseOfClosedChannel else Inr (e\<lparr>ex_closed := True\<rparr>))"

function ex_drain :: "spanExporter \<Rightarrow> spanExporter" where
  "ex_drain e = (if ex_running e \<and> (ex_closed e \<or> ex_ch e \<noteq> []) then ex_drain (ex_receive e) else e)"
  by pat_completeness auto
termination
proof (relation "measure (\<lambda>e. 2 * length (ex_ch e) + (if ex_running e then 1 else 0))")
  fix e :: spanExporter
  assume "ex_running e \<and> (ex_closed e \<or> ex_ch e \<noteq> [])"
  then show "(ex_receive e, e) \<in> measure (\<lambda>e. 2 * length (ex_ch e) + (if ex_running e then 1 else 0))"
    by (cases "ex_ch e") (auto simp: ex_receive_def ex_send_def Let_def)
qed simp

declare ex_drain.simps [simp del]

definition ex_Stop :: "spanExporter \<Rightarrow> panic + spanExporter" where
  "ex_Stop e = map_sum id ex_drain (ex_close e)"

subsection \<open>The exporting middleware\<close>

record ExportConfig =
  xc_Enabled :: bool
  xc_ServiceName :: string
  xc_SampleRate :: float64

definition sampleRate :: "float64 \<Rightarrow> float64" where
  "sampleRate rate = (if f_less rate (Fin 0) \<or> rate = Fin 0 then Fin 1 else rate)"

definition time_UnixMicro :: "time \<Rightarrow> int" where
  "time_UnixMicro t = (t - 62135596800 * time_Second) div 1000"

definition export_span :: "string \<Rightarrow> string \<times> string \<times> string \<Rightarrow> time \<Rightarrow> time \<Rightarrow> request \<Rightarrow> writer \<Rightarrow> Span" where
  "export_span service ids start stop r cw =
     (case ids of (traceID, spanID, parent) \<Rightarrow>
        \<lparr>se_TraceID = traceID, se_SpanID = spanID, se_ParentSpanID = parent,
         se_Name = r_Method r @ '' '' @ r_Path r, se_Service = service,
         se_StartTimeUS = time_UnixMicro start, se_DurationUS = time_Sub stop start sdiv 1000,
         se_Status = cw_status cw, se_Error = (500 \<le> cw_status cw),
         se_Tags = [(''http.method'', r_Method r), (''http.path'', r_Path r),
           (''http.status'', itoa (cw_status cw)), (''remote.addr'', r_RemoteAddr r),
           (''user.agent'', header_Get (r_Header r) ''User-Agent'')]\<rparr>)"

text \<open>\<open>draw\<close> is the random number compared with the sample rate; the shared state is the exporter.\<close>

definition ExportTracing :: "ExportConfig \<Rightarrow> float64 \<Rightarrow> string \<Rightarrow> string \<Rightarrow> time \<Rightarrow> time \<Rightarrow>
    spanExporter handler \<Rightarrow> spanExporter handler" where
  "ExportTracing cfg draw hex32 hex16 start stop nxt wd r w =
     (if \<not> xc_Enabled cfg then nxt wd r w
      else if f_less (sampleRate (xc_SampleRate cfg)) (Fin 1) \<and> f_less (sampleRate (xc_SampleRate cfg)) draw then nxt wd r w
      else (case extractOrGenerateIDs hex32 hex16 r of
        (traceID, spanID, parent) \<Rightarrow>
          (case nxt wd (injectIDs traceID spanID r) (cw_new (w_SetHeader ''X-Trace-ID'' traceID w)) of
             (wd', r', cw, Some p) \<Rightarrow> (wd', r', cw_inner cw, Some p)
           | (wd', r', cw, None) \<Rightarrow>
               (let wd1 = wd'\<lparr>wd_traces := map_option (ts_Add (trace_span traceID start stop r' cw)) (wd_traces wd')\<rparr>
                in case ex_record (export_span (xc_ServiceName cfg) (traceID, spanID, parent) start stop r' cw) (wd_gw wd1) of
                     Inl p \<Rightarrow> (wd1, r', cw_inner cw, Some p)
                   | Inr e \<Rightarrow> (wd1\<lparr>wd_gw := e\<rparr>, r', cw_inner cw, None)))))"

subsection \<open>Identifiers survive the next hop\<close>

lemma newHex_no_dash: "CHR ''-'' \<notin> set (newHex ds)"
proof -
  have "CHR ''-'' \<notin> set ''0123456789abcdef''" by simp
  moreover have "''0123456789abcdef'' ! (d mod 16) \<in> set ''0123456789abcdef''" for d
    by (rule nth_mem) simp
  ultimately have "''0123456789abcdef'' ! (d mod 16) \<noteq> CHR ''-''" for d by metis
  then show ?thesis by (auto simp: newHex_def eq_commute [of "CHR ''-''"])
qed

lemma inject_Get [simp]:
  "header_Get (r_Header (injectIDs t s r)) ''traceparent'' = traceparent t s"
  "header_Get (r_Header (injectIDs t s r)) ''X-Trace-ID'' = t"
  "header_Get (r_Header (injectIDs t s r)) ''X-Span-ID'' = s"
  "header_Get (r_Header (injectIDs t s r)) ''X-Request-ID'' = header_Get (r_Header r) ''X-Request-ID''"
  by (simp_all add: injectIDs_def SetRequestHeader_def)

lemma Split_traceparent:
  assumes "CHR ''-'' \<notin> set s"
  shows "Split (CHR ''-'') (traceparent t s) = ''00'' # Split (CHR ''-'') t @ [s, ''01'']"
proof -
  have split: "Split c (t @ c # u) = Split c t @ Split c u" for c and t u :: string
    by (induction t) (auto split: list.splits)
  show ?thesis
    using assms split [of "CHR ''-''" t "s @ ''-01''"] Split_append [OF assms, of "''01''"]
    by (simp add: traceparent_def)
qed

text \<open>
  C22. The identifiers survive the next hop: a gateway that receives the request another one has
  annotated continues the same trace with the first one's span as parent, whatever the client
  sent. The emitted \<open>traceparent\<close> has the four fields of the W3C format exactly when the trace
  identifier contains no dash; an \<open>X-Trace-ID\<close> in UUID form breaks it.
\<close>

theorem trace_propagates:
  assumes "extractOrGenerateIDs (newHex d1) (newHex d2) r = (t, s, p)"
  shows "extractOrGenerateIDs h1 h2 (injectIDs t s r) = (t, h2, s) \<and>
    (length (Split (CHR ''-'') (header_Get (r_Header (injectIDs t s r)) ''traceparent'')) = 4) =
      (CHR ''-'' \<notin> set t)"
proof -
  have s: "CHR ''-'' \<notin> set s"
    using assms newHex_no_dash [of d2] by (auto simp: extractOrGenerateIDs_def Let_def split: if_splits)
  note parts = Split_traceparent [OF s, of t]
  have len: "length (Split (CHR ''-'') (traceparent t s)) = 4 \<longleftrightarrow> CHR ''-'' \<notin> set t"
    by (simp add: parts length_Split count_list_0_iff)
  have ne: "traceparent t s \<noteq> []" by (simp add: traceparent_def)
  show ?thesis
  proof (cases "CHR ''-'' \<in> set t")
    case True
    then have "t \<noteq> []" by auto
    with True len ne show ?thesis by (simp add: extractOrGenerateIDs_def Let_def)
  next
    case False
    with len ne parts Split_no_sep [OF False] show ?thesis by (simp add: extractOrGenerateIDs_def Let_def)
  qed
qed

theorem trace_propagates_witness:
  "extractOrGenerateIDs ''x'' ''y'' (injectIDs ''12-34'' (newHex [1, 2]) (get_request ''/'')) = (''12-34'', ''y'', ''12'') \<and>
   length (Split (CHR ''-'') (header_Get (r_Header (injectIDs ''12-34'' (newHex [1, 2]) (get_request ''/''))) ''traceparent'')) \<noteq> 4"
proof -
  let ?r = "SetRequestHeader ''X-Trace-ID'' ''12-34'' (get_request ''/'')"
  have e: "extractOrGenerateIDs (newHex [0]) (newHex [1, 2]) ?r = (''12-34'', ''12'', [])"
    by (simp add: extractOrGenerateIDs_def newHex_def SetRequestHeader_def get_request_def)
  have "injectIDs ''12-34'' ''12'' ?r = injectIDs ''12-34'' ''12'' (get_request ''/'')"
    by (simp add: injectIDs_def SetRequestHeader_def get_request_def header_Set_def fun_upd_twist)
  with trace_propagates [OF e, of "''x''" "''y''"] show ?thesis by (simp add: newHex_def)
qed

subsection \<open>The exporter loses nothing while its channel has room\<close>

datatype ex_event = XRecord Span | XReceive | XTick | XClose

definition ex_step :: "spanExporter \<Rightarrow> ex_event \<Rightarrow> panic + spanExporter" where
  "ex_step e ev =
     (case ev of
        XRecord s \<Rightarrow> ex_record s e
      | XReceive \<Rightarrow> Inr (if ex_running e then ex_receive e else e)
      | XTick \<Rightarrow> Inr (if ex_running e then ex_tick e else e)
      | XClose \<Rightarrow> ex_close e)"

fun recorded :: "ex_event list \<Rightarrow> Span list" where
  "recorded [] = []"
| "recorded (XRecord s # es) = s # recorded es"
| "recorded (e # es) = recorded es"

text \<open>The spans that found room in the channel when they were recorded; the others are dropped.\<close>

fun kept :: "spanExporter \<Rightarrow> ex_event list \<Rightarrow> Span list" where
  "kept e [] = []"
| "kept e (ev # es) =
     (case ev of XRecord s \<Rightarrow> if length (ex_ch e) < 2048 then [s] else [] | _ \<Rightarrow> []) @
     (case ex_step e ev of Inl p \<Rightarrow> [] | Inr e' \<Rightarrow> kept e' es)"

text \<open>Every span that went in and was not dropped, in order: sent, in the batch, in the channel.\<close>

definition ex_all :: "spanExporter \<Rightarrow> Span list" where
  "ex_all e = concat (ex_sent e) @ (if ex_running e then ex_batch e else []) @ ex_ch e"

definition ex_inv :: "spanExporter \<Rightarrow> bool" where
  "ex_inv e \<longleftrightarrow> list_all (\<lambda>b. b \<noteq> [] \<and> length b \<le> 100) (ex_sent e) \<and>
     (ex_running e \<longrightarrow> length (ex_batch e) < 100) \<and> (\<not> ex_running e \<longrightarrow> ex_closed e \<and> ex_ch e = [])"

lemma ex_receive_keeps:
  assumes "ex_inv e" and "ex_running e"
  shows "ex_inv (ex_receive e) \<and> ex_all (ex_receive e) = ex_all e"
  using assms by (auto simp: ex_inv_def ex_all_def ex_receive_def ex_send_def Let_def split: list.splits)

lemma ex_tick_keeps:
  assumes "ex_inv e" and "ex_running e"
  shows "ex_inv (ex_tick e) \<and> ex_all (ex_tick e) = ex_all e"
  using assms by (auto simp: ex_inv_def ex_all_def ex_tick_def ex_send_def)

lemma ex_step_keeps:
  assumes "ex_inv e" and "ex_step e ev = Inr e'"
  shows "ex_inv e'" and "length (ex_ch e) < 2048 \<Longrightarrow> ex_all e' = ex_all e @ recorded [ev]"
    and "length (ex_all e') \<le> length (ex_all e @ recorded [ev])"
  using assms ex_receive_keeps [of e] ex_tick_keeps [of e]
  by (auto simp: ex_step_def ex_record_def ex_close_def split: ex_event.splits if_splits)
    (auto simp: ex_inv_def ex_all_def)

lemma recorded_Cons: "recorded (ev # es) = recorded [ev] @ recorded es"
  by (cases ev) simp_all

lemma ex_step_all:
  assumes "ex_inv e" and "ex_step e ev = Inr e'"
  shows "ex_all e' = ex_all e @ (case ev of XRecord s \<Rightarrow> if length (ex_ch e) < 2048 then [s] else [] | _ \<Rightarrow> [])"
  using assms ex_receive_keeps [of e] ex_tick_keeps [of e]
  by (auto simp: ex_step_def ex_record_def ex_close_def ex_all_def split: ex_event.splits if_splits)

lemma ex_run_kept:
  assumes "ex_inv e" and "run_steps ex_step e es = Inr e'"
  shows "ex_inv e' \<and> ex_all e' = ex_all e @ kept e es"
  using assms
proof (induction es arbitrary: e)
  case (Cons ev es)
  from Cons.prems(2) obtain e1 where e1: "ex_step e ev = Inr e1" "run_steps ex_step e1 es = Inr e'"
    by (auto split: sum.splits)
  with Cons.IH [OF ex_step_keeps(1) [OF Cons.prems(1) e1(1)] e1(2)] ex_step_all [OF Cons.prems(1) e1(1)]
  show ?case by simp
qed simp

lemma kept_all:
  assumes "ex_inv e" and "run_steps ex_step e es = Inr e'" and "length (ex_all e) + length (recorded es) \<le> 2048"
  shows "kept e es = recorded es"
  using assms
proof (induction es arbitrary: e)
  case (Cons ev es)
  from Cons.prems(2) obtain e1 where e1: "ex_step e ev = Inr e1" "run_steps ex_step e1 es = Inr e'"
    by (auto split: sum.splits)
  have "length (ex_ch e) \<le> length (ex_all e)" by (simp add: ex_all_def)
  with Cons.prems(3) have now: "(case ev of XRecord s \<Rightarrow> if length (ex_ch e) < 2048 then [s] else [] | _ \<Rightarrow> []) = recorded [ev]"
    by (cases ev) auto
  have "length (ex_all e1) + length (recorded es) \<le> 2048"
    using ex_step_all [OF Cons.prems(1) e1(1)] now Cons.prems(3) recorded_Cons [of ev es] by simp
  with Cons.IH [OF ex_step_keeps(1) [OF Cons.prems(1) e1(1)] e1(2)] e1(1) now recorded_Cons [of ev es]
  show ?case by simp
qed simp

lemma ex_run_keeps:
  assumes "ex_inv e" and "run_steps ex_step e es = Inr e'" and "length (ex_all e) + length (recorded es) \<le> 2048"
  shows "ex_inv e' \<and> ex_all e' = ex_all e @ recorded es"
  using ex_run_kept [OF assms(1,2)] kept_all [OF assms] by simp

lemma ex_new: "ex_inv newSpanExporter" "ex_all newSpanExporter = []"
  by (simp_all add: ex_inv_def ex_all_def newSpanExporter_def)

text \<open>When the loop has ended, whatever ran in between, all that was kept was sent.\<close>

lemma ended_sent:
  assumes "run_steps ex_step newSpanExporter es = Inr e" and "\<not> ex_running e"
  shows "concat (ex_sent e) = kept newSpanExporter es" and "list_all (\<lambda>b. b \<noteq> [] \<and> length b \<le> 100) (ex_sent e)"
    and "length (recorded es) \<le> 2048 \<Longrightarrow> kept newSpanExporter es = recorded es"
proof -
  from ex_run_kept [OF ex_new(1) assms(1)] ex_new(2) have "ex_inv e" "ex_all e = kept newSpanExporter es" by simp_all
  then show "concat (ex_sent e) = kept newSpanExporter es" "list_all (\<lambda>b. b \<noteq> [] \<and> length b \<le> 100) (ex_sent e)"
    using assms(2) by (simp_all add: ex_inv_def ex_all_def)
  show "length (recorded es) \<le> 2048 \<Longrightarrow> kept newSpanExporter es = recorded es"
    by (rule kept_all [OF ex_new(1) assms(1)]) (simp add: ex_new(2))
qed

lemma ex_drain_keeps:
  "ex_inv e \<Longrightarrow> ex_inv (ex_drain e) \<and> ex_all (ex_drain e) = ex_all e \<and> (ex_closed e \<longrightarrow> \<not> ex_running (ex_drain e))"
proof (induction e rule: ex_drain.induct)
  case (1 e)
  show ?case
  proof (cases "ex_running e \<and> (ex_closed e \<or> ex_ch e \<noteq> [])")
    case True
    have closed: "ex_closed (ex_receive e) = ex_closed e"
      by (simp add: ex_receive_def ex_send_def Let_def split: list.splits)
    from True 1 ex_receive_keeps [of e] closed show ?thesis
      by (subst (1 2 3) ex_drain.simps) simp
  next
    case False
    with 1(2) show ?thesis by (subst (1 2 3) ex_drain.simps) auto
  qed
qed

lemma exporter_delivers:
  assumes "run_steps ex_step newSpanExporter es = Inr e" and "length (recorded es) \<le> 2048" and "ex_Stop e = Inr e'"
  shows "concat (ex_sent e') = recorded es \<and> list_all (\<lambda>b. b \<noteq> [] \<and> length b \<le> 100) (ex_sent e') \<and>
    ex_record s e' = Inl SendOnClosedChannel"
proof -
  have e: "ex_inv e" "ex_all e = recorded es"
    using ex_run_keeps [OF ex_new(1) assms(1)] ex_new(2) assms(2) by simp_all
  let ?c = "e\<lparr>ex_closed := True\<rparr>"
  have e': "\<not> ex_closed e" "e' = ex_drain ?c"
    using assms(3) by (auto simp: ex_Stop_def ex_close_def split: if_splits)
  have "ex_inv ?c" "ex_all ?c = recorded es" using e e'(1) by (simp_all add: ex_inv_def ex_all_def)
  with ex_drain_keeps [of ?c] have d: "ex_inv e'" "ex_all e' = recorded es" "\<not> ex_running e'" by (simp_all add: e'(2))
  then have "ex_closed e'" "ex_ch e' = []" by (simp_all add: ex_inv_def)
  with d show ?thesis by (auto simp: ex_inv_def ex_all_def ex_record_def)
qed

text \<open>
  Up to the channel's capacity the exporter loses nothing: after any interleaving of requests,
  loop iterations and ticks, \<open>Stop\<close> leaves every recorded span handed to \<open>send\<close> exactly once and
  in order, in non-empty batches of at most 100. A span recorded after \<open>Stop\<close> panics.
\<close>

theorem exporter_lossless:
  assumes "run_steps ex_step newSpanExporter es = Inr e" and "length (recorded es) \<le> 2048" and "ex_Stop e = Inr e'"
  shows "concat (ex_sent e') = recorded es \<and> list_all (\<lambda>b. b \<noteq> [] \<and> length b \<le> 100) (ex_sent e') \<and>
    ex_record s e' = Inl SendOnClosedChannel"
  by (rule exporter_delivers [OF assms])

definition span_example :: "string \<Rightarrow> Span" where
  "span_example i = \<lparr>se_TraceID = i, se_SpanID = i, se_ParentSpanID = [], se_Name = ''GET /'', se_Service = [],
     se_StartTimeUS = 0, se_DurationUS = 1, se_Status = 200, se_Error = False, se_Tags = []\<rparr>"

theorem exporter_lossless_witness:
  "\<exists>e e'. run_steps ex_step newSpanExporter [XRecord (span_example ''a''), XReceive, XTick, XRecord (span_example ''b'')] = Inr e \<and>
     ex_Stop e = Inr e' \<and> concat (ex_sent e') = [span_example ''a'', span_example ''b'']"
proof -
  obtain e where run: "run_steps ex_step newSpanExporter [XRecord (span_example ''a''), XReceive, XTick, XRecord (span_example ''b'')] = Inr e"
    and "\<not> ex_closed e"
    by (simp add: ex_step_def ex_record_def ex_receive_def ex_tick_def ex_send_def newSpanExporter_def Let_def)
  then obtain e' where "ex_Stop e = Inr e'" by (simp add: ex_Stop_def ex_close_def)
  with run exporter_lossless [OF run _ this] show ?thesis by simp
qed

subsection \<open>Stopping the exporter\<close>

lemma ex_drain_loop:
  "ex_running e \<Longrightarrow> ex_closed e \<Longrightarrow>
    ex_drain e = (ex_receive ^^ Suc (length (ex_ch e))) e \<and> \<not> ex_running (ex_drain e) \<and>
     ex_ch (ex_drain e) = [] \<and> ex_closed (ex_drain e)"
proof (induction "ex_ch e" arbitrary: e)
  case Nil
  then have "\<not> ex_running (ex_receive e)" "ex_ch (ex_receive e) = []" "ex_closed (ex_receive e)"
    by (simp_all add: ex_receive_def ex_send_def)
  moreover from this have "ex_drain (ex_receive e) = ex_receive e" by (subst ex_drain.simps) simp
  moreover have "ex_drain e = ex_drain (ex_receive e)" using Nil by (subst ex_drain.simps) simp
  ultimately show ?case using Nil by simp
next
  case (Cons s rest)
  have r: "rest = ex_ch (ex_receive e)" "ex_running (ex_receive e)" "ex_closed (ex_receive e)"
    using Cons.hyps(2) [symmetric] Cons.prems by (simp_all add: ex_receive_def ex_send_def Let_def)
  have d: "ex_drain e = ex_drain (ex_receive e)" using Cons.prems by (subst ex_drain.simps) simp
  have "length (ex_ch e) = Suc (length (ex_ch (ex_receive e)))" using Cons.hyps(2) r(1) by (metis length_Cons)
  then have "(ex_receive ^^ Suc (length (ex_ch e))) e = (ex_receive ^^ Suc (length (ex_ch (ex_receive e)))) (ex_receive e)"
    by (metis funpow_Suc_right comp_apply)
  with Cons.hyps(1) [OF r] show ?case unfolding d by metis
qed

text \<open>Ticks in between send what is there earlier; they change neither the number of receives nor the spans.\<close>

lemma loop_all:
  assumes "ex_running e"
  shows "ex_all (ex_receive e) = ex_all e" and "ex_all (ex_tick e) = ex_all e"
  using assms by (auto simp: ex_all_def ex_receive_def ex_tick_def ex_send_def Let_def split: list.splits)

lemma loop_receive:
  assumes "ex_running e" and "ex_closed e"
  shows "ex_closed (ex_receive e)" and "ex_running (ex_receive e) \<longleftrightarrow> ex_ch e \<noteq> []" and "ex_ch (ex_receive e) = tl (ex_ch e)"
  using assms by (auto simp: ex_receive_def ex_send_def Let_def split: list.splits)

lemma loop_tick:
  "ex_closed (ex_tick e) = ex_closed e" "ex_running (ex_tick e) = ex_running e" "ex_ch (ex_tick e) = ex_ch e"
  by (simp_all add: ex_tick_def ex_send_def)

lemma drain_all: "ex_running e \<Longrightarrow> ex_closed e \<Longrightarrow> ex_all (ex_drain e) = ex_all e"
proof (induction e rule: ex_drain.induct)
  case (1 e)
  have step: "ex_drain e = ex_drain (ex_receive e)" using 1(2,3) by (subst ex_drain.simps) simp
  show ?case
  proof (cases "ex_ch e")
    case Nil
    then have "\<not> ex_running (ex_receive e)" using loop_receive(2) [OF 1(2,3)] by simp
    then have "ex_drain (ex_receive e) = ex_receive e" by (subst ex_drain.simps) simp
    with step loop_all(1) [OF 1(2)] show ?thesis by simp
  next
    case (Cons s rest)
    with 1 step loop_receive [OF 1(2,3)] loop_all(1) [OF 1(2)] show ?thesis by simp
  qed
qed

lemma loop_ended:
  assumes "\<not> ex_running e" and "list_all (\<lambda>ev. ev = XReceive \<or> ev = XTick) its"
  shows "run_steps ex_step e its = Inr e"
  using assms(2) by (induction its) (auto simp: ex_step_def assms(1))

lemma step_receive: "ex_running e \<Longrightarrow> ex_step e XReceive = Inr (ex_receive e)"
  and step_tick: "ex_running e \<Longrightarrow> ex_step e XTick = Inr (ex_tick e)"
  by (simp_all add: ex_step_def)

lemma loop_runs:
  assumes "ex_running e" and "ex_closed e" and "list_all (\<lambda>ev. ev = XReceive \<or> ev = XTick) its"
  shows "\<exists>e'. run_steps ex_step e its = Inr e' \<and> (ex_running e' \<longleftrightarrow> count_list its XReceive \<le> length (ex_ch e)) \<and>
    ex_all e' = ex_all e \<and> (\<not> ex_running e' \<longrightarrow> ex_ch e' = [])"
  using assms
proof (induction its arbitrary: e)
  case (Cons ev its)
  then have its: "list_all (\<lambda>ev. ev = XReceive \<or> ev = XTick) its" by simp
  show ?case
  proof (cases "ev = XTick")
    case True
    from Cons.IH [of "ex_tick e"] Cons.prems its loop_tick loop_all(2) [OF Cons.prems(1)] True Cons.prems show ?thesis
      by (auto simp: step_tick)
  next
    case False
    then have ev: "ev = XReceive" using Cons.prems(3) by auto
    note r = loop_receive [OF Cons.prems(1,2)] loop_all(1) [OF Cons.prems(1)]
    show ?thesis
    proof (cases "ex_ch e")
      case Nil
      with r its loop_ended [of "ex_receive e"] Cons.prems(1) ev show ?thesis by (auto simp: step_receive)
    next
      case (Cons s rest)
      with r Cons.IH [of "ex_receive e"] \<open>ex_running e\<close> its ev show ?thesis by (auto simp: step_receive)
    qed
  qed
qed simp

text \<open>
  C25. \<open>Stop\<close> returns: once the channel is closed, the background loop ends after one iteration per
  queued span and one more, with the channel empty; a second \<open>Stop\<close> panics. Ticks may come between
  the iterations in any number: the loop has ended exactly when it has received that often, and has
  sent the same spans in the same order.
\<close>

theorem exporter_stop_ends:
  assumes "ex_running e" and "\<not> ex_closed e"
  shows "\<exists>e'. ex_Stop e = Inr e' \<and> e' = (ex_receive ^^ Suc (length (ex_ch e))) (e\<lparr>ex_closed := True\<rparr>) \<and>
    \<not> ex_running e' \<and> ex_ch e' = [] \<and> ex_Stop e' = Inl CloseOfClosedChannel \<and>
    (\<forall>its. list_all (\<lambda>ev. ev = XReceive \<or> ev = XTick) its \<longrightarrow>
       (\<exists>e''. run_steps ex_step (e\<lparr>ex_closed := True\<rparr>) its = Inr e'' \<and>
          (ex_running e'' \<longleftrightarrow> count_list its XReceive \<le> length (ex_ch e)) \<and>
          (\<not> ex_running e'' \<longrightarrow> concat (ex_sent e'') = concat (ex_sent e'))))"
proof -
  let ?c = "e\<lparr>ex_closed := True\<rparr>" and ?n = "Suc (length (ex_ch e))"
  have c: "ex_running ?c" "ex_closed ?c" "ex_ch ?c = ex_ch e" using assms by simp_all
  from ex_drain_loop [OF c(1,2)] have d: "ex_drain ?c = (ex_receive ^^ ?n) ?c" "\<not> ex_running (ex_drain ?c)"
      "ex_ch (ex_drain ?c) = []" "ex_closed (ex_drain ?c)" by (metis c(3), blast+)
  have stop: "ex_Stop e = Inr (ex_drain ?c)" using assms by (simp add: ex_Stop_def ex_close_def)
  have again: "ex_Stop (ex_drain ?c) = Inl CloseOfClosedChannel" using d(4) by (simp add: ex_Stop_def ex_close_def)
  have sent: "concat (ex_sent (ex_drain ?c)) = ex_all ?c" using drain_all [OF c(1,2)] d(2,3) by (simp add: ex_all_def)
  have "\<exists>e''. run_steps ex_step ?c its = Inr e'' \<and> (ex_running e'' \<longleftrightarrow> count_list its XReceive \<le> length (ex_ch e)) \<and>
      (\<not> ex_running e'' \<longrightarrow> concat (ex_sent e'') = concat (ex_sent (ex_drain ?c)))"
    if its: "list_all (\<lambda>ev. ev = XReceive \<or> ev = XTick) its" for its
    using loop_runs [OF c(1,2) its] sent by (auto simp: c(3) ex_all_def)
  with stop d(1-3) again show ?thesis by metis
qed

theorem exporter_stop_ends_witness:
  "\<exists>e'. ex_Stop (newSpanExporter\<lparr>ex_ch := [span_example ''a'', span_example ''b'']\<rparr>) = Inr e' \<and> \<not> ex_running e' \<and> ex_ch e' = []"
  using exporter_stop_ends [of "newSpanExporter\<lparr>ex_ch := [span_example ''a'', span_example ''b'']\<rparr>"]
  by (auto simp: newSpanExporter_def)

end
