(* ===== verification/Collector.thy ===== *)
theory Collector
  imports Tracing
begin

section \<open>What the trace collector receives\<close>

text \<open>
  \<open>send\<close> of \<open>internal/middleware/tracing.go\<close>: a batch becomes one POST to the collector. The JSON
  encoder, which may refuse a batch, and the check of the URL by \<open>http.NewRequest\<close> are parameters.
  Errors of the transport and the answer's status are ignored by the code, so what \<open>send\<close> amounts to
  is the request it hands to the transport, if it gets that far.
\<close>

record http_post =
  hp_URL :: string
  hp_ContentType :: string
  hp_Body :: string
  hp_Timeout :: duration

definition exporter_send :: "(Span list \<Rightarrow> string option) \<Rightarrow> (string \<Rightarrow> bool) \<Rightarrow> string \<Rightarrow> Span list \<Rightarrow> http_post option" where
  "exporter_send marshal validURL collectorURL spans =
     (case marshal spans of
        None \<Rightarrow> None
      | Some data \<Rightarrow>
          if \<not> validURL (collectorURL @ ''/api/spans'') then None
          else Some \<lparr>hp_URL = collectorURL @ ''/api/spans'', hp_ContentType = ''application/json'',
                 hp_Body = data, hp_Timeout = 3 * time_Second\<rparr>)"

definition exporter_posts :: "(Span list \<Rightarrow> string option) \<Rightarrow> (string \<Rightarrow> bool) \<Rightarrow> string \<Rightarrow> spanExporter \<Rightarrow> http_post list" where
  "exporter_posts marshal validURL collectorURL e = List.map_filter (exporter_send marshal validURL collectorURL) (ex_sent e)"

lemma posts_decoded:
  assumes "validURL (collectorURL @ ''/api/spans'')" and "\<forall>b \<in> set bs. \<exists>d. marshal b = Some d \<and> decode d = b"
  shows "map (decode \<circ> hp_Body) (List.map_filter (exporter_send marshal validURL collectorURL) bs) = bs"
  using assms(2)
proof (induction bs)
  case (Cons b bs)
  from Cons.prems obtain d where "marshal b = Some d" "decode d = b" by auto
  with Cons assms(1) show ?case by (simp add: map_filter_simps exporter_send_def)
qed (simp add: map_filter_simps)

text \<open>
  C24. A collector that decodes what the gateway encodes gets exactly the spans that found room in the
  channel's 2048 places when they were recorded: once the exporter's loop has ended after \<open>Stop\<close>,
  with whatever ticks in between, the bodies of the POSTs, in order, decode to those spans, one to a
  hundred in each, all sent to the configured URL. Spans recorded into a full channel are dropped,
  which cannot happen to the first 2048. With a URL that \<open>http.NewRequest\<close> rejects, nothing is sent
  and nobody is told.
\<close>

theorem collector_gets_spans:
  assumes "run_steps ex_step newSpanExporter es = Inr e" and "\<not> ex_running e"
    and "\<forall>b \<in> set (ex_sent e). \<exists>d. marshal b = Some d \<and> decode d = b"
  shows "let posts = exporter_posts marshal validURL collectorURL e in
    (if validURL (collectorURL @ ''/api/spans'')
     then concat (map (decode \<circ> hp_Body) posts) = kept newSpanExporter es \<and>
       list_all (\<lambda>p. hp_URL p = collectorURL @ ''/api/spans'' \<and> length (decode (hp_Body p)) \<in> {1..100}) posts
     else posts = []) \<and>
    (length (recorded es) \<le> 2048 \<longrightarrow> kept newSpanExporter es = recorded es)"
proof (cases "validURL (collectorURL @ ''/api/spans'')")
  case True
  let ?posts = "exporter_posts marshal validURL collectorURL e"
  have bodies: "map (decode \<circ> hp_Body) ?posts = ex_sent e"
    unfolding exporter_posts_def by (rule posts_decoded [where validURL = validURL, OF True assms(3)])
  have "hp_URL p = collectorURL @ ''/api/spans''" if "p \<in> set ?posts" for p
    using that by (auto simp: exporter_posts_def map_filter_def exporter_send_def split: option.splits if_splits)
  moreover have "length (decode (hp_Body p)) \<in> {1..100}" if "p \<in> set ?posts" for p
  proof -
    have "(decode \<circ> hp_Body) p \<in> set (ex_sent e)" using that bodies [symmetric] by simp
    with ended_sent(2) [OF assms(1,2)] show ?thesis by (auto simp: list_all_iff Suc_le_eq)
  qed
  ultimately show ?thesis using True bodies ended_sent(1,3) [OF assms(1,2)] by (simp add: list_all_iff Let_def)
next
  case False
  then have "exporter_send marshal validURL collectorURL b = None" for b by (simp add: exporter_send_def split: option.splits)
  then have "exporter_posts marshal validURL collectorURL e = []" by (simp add: exporter_posts_def map_filter_def)
  with False ended_sent(3) [OF assms(1,2)] show ?thesis by simp
qed

theorem collector_gets_spans_witness:
  "\<exists>e posts. run_steps ex_step newSpanExporter [XRecord (span_example ''a''), XReceive, XClose, XTick, XReceive] = Inr e \<and>
    posts = exporter_posts (\<lambda>b. Some (se_TraceID (hd b))) (\<lambda>u. True) ''http://c'' e \<and>
    concat (map ((\<lambda>d. [span_example d]) \<circ> hp_Body) posts) = [span_example ''a'']"
proof -
  let ?es = "[XRecord (span_example ''a''), XReceive, XClose, XTick, XReceive]"
  let ?e = "newSpanExporter\<lparr>ex_sent := [[span_example ''a'']], ex_closed := True, ex_running := False\<rparr>"
  have run: "run_steps ex_step newSpanExporter ?es = Inr ?e"
    by (simp add: ex_step_def ex_record_def ex_receive_def ex_tick_def ex_send_def ex_close_def newSpanExporter_def Let_def)
  have "\<not> ex_running ?e" by simp
  moreover have "\<forall>b \<in> set (ex_sent ?e). \<exists>d. Some (se_TraceID (hd b)) = Some d \<and> [span_example d] = b"
    by (simp add: span_example_def)
  ultimately have "let posts = exporter_posts (\<lambda>b. Some (se_TraceID (hd b))) (\<lambda>u. True) ''http://c'' ?e in
      concat (map ((\<lambda>d. [span_example d]) \<circ> hp_Body) posts) = recorded ?es"
    using collector_gets_spans [OF run, of "\<lambda>b. Some (se_TraceID (hd b))" "\<lambda>d. [span_example d]" "\<lambda>u. True" "''http://c''"]
    by (simp add: Let_def del: kept.simps)
  with run show ?thesis by (intro exI conjI) (assumption, rule refl, simp add: Let_def)
qed

end
