(* ===== verification/ReverseProxy.thy ===== *)
theory ReverseProxy
  imports Handler Strings
begin

section \<open>net/http/httputil: the reverse proxy\<close>

text \<open>
  What \<open>httputil.ReverseProxy.ServeHTTP\<close> does around the gateway's callbacks, and
  \<open>net.SplitHostPort\<close>: the request is copied and passed to the director, hop-by-hop headers are
  removed, the client's address is appended to \<open>X-Forwarded-For\<close>; the response's header is
  copied onto what the response writer already holds.
\<close>

subsection \<open>Host and port\<close>

text \<open>The index of the last occurrence of a byte.\<close>

definition lastIndex :: "char \<Rightarrow> string \<Rightarrow> nat option" where
  "lastIndex c s =
     (let i = scan (\<lambda>x. x \<noteq> c) (rev s) in if i < length s then Some (length s - 1 - i) else None)"

definition SplitHost :: "string \<Rightarrow> string option" where
  "SplitHost s =
     (case lastIndex (CHR '':'') s of
        None \<Rightarrow> None
      | Some i \<Rightarrow>
          if hd s = CHR ''[''
          then (let e = scan (\<lambda>x. x \<noteq> CHR '']'') s in
                if length s \<le> e then None
                else if e + 1 \<noteq> i then None
                else if CHR ''['' \<in> set (drop 1 s) \<or> CHR '']'' \<in> set (drop (e + 1) s) then None
                else Some (drop 1 (take e s)))
          else if CHR '':'' \<in> set (take i s) then None
          else if CHR ''['' \<in> set s \<or> CHR '']'' \<in> set s then None
          else Some (take i s))"

subsection \<open>Hop-by-hop headers\<close>

definition asciiSpaces :: "string list" where
  "asciiSpaces = [[CHR 0x20], [CHR 0x09], [CHR 0x0A], [CHR 0x0D]]"

definition TrimString :: "string \<Rightarrow> string" where
  "TrimString s = rev (trimLeft asciiSpaces (rev (trimLeft asciiSpaces s)))"

definition header_values :: "header \<Rightarrow> string \<Rightarrow> string list" where
  "header_values h k = (case h k of None \<Rightarrow> [] | Some vs \<Rightarrow> vs)"

text \<open>The elements of the comma-separated values of a header.\<close>

definition header_tokens :: "header \<Rightarrow> string \<Rightarrow> string list" where
  "header_tokens h k = map TrimString (concat (map (Split (CHR '','')) (header_values h k)))"

definition hopHeaders :: "string list" where
  "hopHeaders = [''Connection'', ''Proxy-Connection'', ''Keep-Alive'', ''Proxy-Authenticate'',
     ''Proxy-Authorization'', ''Te'', ''Trailer'', ''Transfer-Encoding'', ''Upgrade'']"

definition removeHopByHop :: "header \<Rightarrow> header" where
  "removeHopByHop h =
     fold (\<lambda>k h. header_Del h k) (filter (\<lambda>t. t \<noteq> []) (header_tokens h ''Connection'') @ hopHeaders) h"

definition has_token :: "header \<Rightarrow> string \<Rightarrow> string \<Rightarrow> bool" where
  "has_token h k t \<longleftrightarrow> list_ex (\<lambda>x. EqualFold x t) (header_tokens h k)"

definition upgradeType :: "header \<Rightarrow> string" where
  "upgradeType h = (if has_token h ''Connection'' ''Upgrade'' then header_Get h ''Upgrade'' else [])"

definition isPrintByte :: "char \<Rightarrow> bool" where
  "isPrintByte c \<longleftrightarrow> 32 \<le> byte_of c \<and> byte_of c \<le> 126"

fun join_comma :: "string list \<Rightarrow> string" where
  "join_comma [] = []"
| "join_comma [v] = v"
| "join_comma (v # w # vs) = v @ '', '' @ join_comma (w # vs)"

subsection \<open>The outgoing request\<close>

text \<open>\<open>None\<close>: the client asks to switch to a protocol with an unprintable name, an error.\<close>

definition rp_outgoing :: "(request \<Rightarrow> request) \<Rightarrow> request \<Rightarrow> request option" where
  "rp_outgoing director req =
     (let r1 = director req;
          up = upgradeType (r_Header r1);
          h2 = removeHopByHop (r_Header r1);
          h3 = (if has_token (r_Header req) ''Te'' ''trailers'' then header_Set h2 ''Te'' ''trailers'' else h2);
          h4 = (if up \<noteq> [] then header_Set (header_Set h3 ''Connection'' ''Upgrade'') ''Upgrade'' up else h3);
          h5 = (case SplitHost (r_RemoteAddr req) of
                  None \<Rightarrow> h4
                | Some ip \<Rightarrow>
                    header_Set h4 ''X-Forwarded-For'' (join_comma (header_values h4 ''X-Forwarded-For'' @ [ip])));
          h6 = (if h5 ''User-Agent'' = None then header_Set h5 ''User-Agent'' [] else h5)
      in if \<not> list_all isPrintByte up then None else Some (r1\<lparr>r_Header := h6\<rparr>))"

subsection \<open>The response\<close>

text \<open>\<open>copyHeader\<close> adds the values of a response to those the writer holds.\<close>

definition copyHeader :: "header \<Rightarrow> header \<Rightarrow> header" where
  "copyHeader dst src k =
     (case (dst k, src k) of
        (d, None) \<Rightarrow> d
      | (None, Some vs) \<Rightarrow> Some vs
      | (Some us, Some vs) \<Rightarrow> Some (us @ vs))"

text \<open>What the transport brings back: a response, whose body may break off, or an error.\<close>

datatype upstream =
    UpError
  | UpResponse int header string bool

definition rp_respond :: "int \<Rightarrow> header \<Rightarrow> string \<Rightarrow> bool \<Rightarrow> writer \<Rightarrow> writer \<times> panic option" where
  "rp_respond code h body broken w =
     (let w1 = w_WriteHeader code (w\<lparr>w_Header := copyHeader (w_Header w) h\<rparr>);
          w2 = (if body = [] then w1 else w_Write body w1)
      in (w2, if broken then Some AbortHandler else None))"

subsection \<open>Laws\<close>

lemma Del_apply: "header_Del h k k' = (if k' = canonicalKey k then None else h k')"
  by (simp add: header_Del_def)

lemma fold_Del:
  "fold (\<lambda>k h. header_Del h k) ks h k' = (if k' \<in> canonicalKey ` set ks then None else h k')"
  by (induction ks arbitrary: h) (auto simp: Del_apply)

lemma removeHop_apply:
  "removeHopByHop h k =
     (if k \<in> canonicalKey ` ({t \<in> set (header_tokens h ''Connection''). t \<noteq> []} \<union> set hopHeaders) then None else h k)"
  by (auto simp: removeHopByHop_def fold_Del image_Un)

lemma SplitHost_plain:
  assumes "CHR '':'' \<notin> set ip" and "CHR ''['' \<notin> set ip" and "CHR '']'' \<notin> set ip"
    and "CHR '':'' \<notin> set port" and "CHR ''['' \<notin> set port" and "CHR '']'' \<notin> set port"
  shows "SplitHost (ip @ '':'' @ port) = Some ip"
proof -
  have s: "scan (\<lambda>x. x \<noteq> c) (xs @ c # ys) = length xs" if "c \<notin> set xs" for c :: char and xs ys
    using that by (induction xs) auto
  have "lastIndex (CHR '':'') (ip @ '':'' @ port) = Some (length ip)"
    using s [of "CHR '':''" "rev port" "rev ip"] assms(4) by (simp add: lastIndex_def)
  moreover have "hd (ip @ '':'' @ port) \<noteq> CHR ''[''" using assms(2) by (cases ip) auto
  ultimately show ?thesis using assms by (simp add: SplitHost_def)
qed

end
