(* ===== verification/Auth.thy ===== *)
theory Auth
  imports Middleware Strings
begin

section \<open>Package middleware: authentication\<close>

text \<open>
  \<open>internal/middleware/auth.go\<close>: bearer tokens signed with RS256. Header and claims are parsed by
  \<open>encoding/json\<close>, signatures checked by \<open>crypto/rsa\<close> over \<open>crypto/sha256\<close>, keys read by
  \<open>encoding/pem\<close> and \<open>crypto/x509\<close>: these are the fields of \<open>tokenlib\<close>. Base64 and the string
  functions are written out.
\<close>

record MwAuthConfig =
  ma_Enabled :: bool
  ma_PublicKeyPath :: string
  ma_SkipPaths :: "string list"

record jwtHeader =
  jh_Alg :: string
  jh_Typ :: string

record jwtClaims =
  jc_Sub :: string
  jc_Exp :: int
  jc_Iat :: int

datatype 'k anyKey = RSAKey 'k | OtherKey

text \<open>\<open>lib_Verify key message signature\<close>: PKCS #1 v1.5 over the SHA-256 digest of the message.\<close>

record 'k tokenlib =
  lib_Header :: "string \<Rightarrow> jwtHeader option"
  lib_Claims :: "string \<Rightarrow> jwtClaims option"
  lib_Verify :: "'k \<Rightarrow> string \<Rightarrow> string \<Rightarrow> bool"
  lib_PEM :: "string \<Rightarrow> (string \<times> string) option"
  lib_PKIX :: "string \<Rightarrow> 'k anyKey option"
  lib_PKCS1 :: "string \<Rightarrow> 'k option"

datatype auth_error =
    MissingAuthorization
  | NotBearer
  | MalformedToken nat
  | DecodeHeader
  | UnsupportedAlgorithm string
  | DecodeClaims
  | MissingExp
  | TokenExpired
  | InvalidSignature

subsection \<open>base64.RawURLEncoding\<close>

definition b64val :: "char \<Rightarrow> nat option" where
  "b64val c =
     (if isUpperByte c then Some (byte_of c - 65)
      else if isLowerByte c then Some (byte_of c - 97 + 26)
      else if isDigitByte c then Some (byte_of c - 48 + 52)
      else if c = CHR ''-'' then Some 62
      else if c = CHR ''_'' then Some 63
      else None)"

fun b64quads :: "nat list \<Rightarrow> string option" where
  "b64quads [] = Some []"
| "b64quads [a] = None"
| "b64quads [a, b] = Some [char_of (a * 4 + b div 16)]"
| "b64quads [a, b, c] = Some [char_of (a * 4 + b div 16), char_of (b mod 16 * 16 + c div 4)]"
| "b64quads (a # b # c # d # vs) =
     map_option (\<lambda>bs. char_of (a * 4 + b div 16) # char_of (b mod 16 * 16 + c div 4) # char_of (c mod 4 * 64 + d) # bs)
       (b64quads vs)"

text \<open>The decoder skips line breaks and does not look at the unused low bits of the last byte.\<close>

definition b64_DecodeString :: "string \<Rightarrow> string option" where
  "b64_DecodeString s =
     Option.bind (those (map b64val (filter (\<lambda>c. c \<noteq> CHR 0x0D \<and> c \<noteq> CHR 0x0A) s))) b64quads"

subsection \<open>Tokens\<close>

definition time_Unix :: "time \<Rightarrow> int" where
  "time_Unix t = (t - 62135596800 * time_Second) div time_Second"

definition extractBearer :: "request \<Rightarrow> auth_error + string" where
  "extractBearer r =
     (let hdr = header_Get (r_Header r) ''Authorization'';
          parts = SplitN2 (CHR '' '') hdr
      in if hdr = [] then Inl MissingAuthorization
         else if length parts \<noteq> 2 \<or> \<not> EqualFold (parts ! 0) ''Bearer'' then Inl NotBearer
         else Inr (TrimSpace (parts ! 1)))"

definition decodeHeader :: "'k tokenlib \<Rightarrow> string \<Rightarrow> jwtHeader option" where
  "decodeHeader lib s = Option.bind (b64_DecodeString s) (lib_Header lib)"

definition decodeClaims :: "'k tokenlib \<Rightarrow> string \<Rightarrow> jwtClaims option" where
  "decodeClaims lib s = Option.bind (b64_DecodeString s) (lib_Claims lib)"

definition verifySignature :: "'k tokenlib \<Rightarrow> 'k \<Rightarrow> string \<Rightarrow> string \<Rightarrow> bool" where
  "verifySignature lib key message sigB64 =
     (case b64_DecodeString sigB64 of None \<Rightarrow> False | Some sig \<Rightarrow> lib_Verify lib key message sig)"

definition validateToken :: "'k tokenlib \<Rightarrow> 'k \<Rightarrow> time \<Rightarrow> string \<Rightarrow> auth_error + jwtClaims" where
  "validateToken lib key now token =
     (let parts = Split (CHR ''.'') token in
      if length parts \<noteq> 3 then Inl (MalformedToken (length parts))
      else case decodeHeader lib (parts ! 0) of
        None \<Rightarrow> Inl DecodeHeader
      | Some hdr \<Rightarrow>
          if jh_Alg hdr \<noteq> ''RS256'' then Inl (UnsupportedAlgorithm (jh_Alg hdr))
          else (case decodeClaims lib (parts ! 1) of
            None \<Rightarrow> Inl DecodeClaims
          | Some claims \<Rightarrow>
              if jc_Exp claims = 0 then Inl MissingExp
              else if jc_Exp claims < time_Unix now then Inl TokenExpired
              else if \<not> verifySignature lib key (parts ! 0 @ ''.'' @ parts ! 1) (parts ! 2) then Inl InvalidSignature
              else Inr claims))"

subsection \<open>The middleware\<close>

definition isSkipped :: "MwAuthConfig \<Rightarrow> string \<Rightarrow> bool" where
  "isSkipped cfg path \<longleftrightarrow> list_ex (\<lambda>skip. HasPrefix path skip) (ma_SkipPaths cfg)"

text \<open>\<open>quoted\<close> is the error's text as \<open>%q\<close> prints it; parts of it come from the libraries.\<close>

definition writeAuthError :: "(auth_error \<Rightarrow> string) \<Rightarrow> int \<Rightarrow> auth_error \<Rightarrow> writer \<Rightarrow> writer" where
  "writeAuthError quoted status e w =
     w_Write (''{\"error\":'' @ quoted e @ ''}'')
       (w_WriteHeader status (w_SetHeader ''Content-Type'' ''application/json'' w))"

definition AuthHandler :: "'k tokenlib \<Rightarrow> 'k \<Rightarrow> MwAuthConfig \<Rightarrow> (auth_error \<Rightarrow> string) \<Rightarrow> time \<Rightarrow> 'g handler \<Rightarrow> 'g handler" where
  "AuthHandler lib key cfg quoted now nxt wd r w =
     (if isSkipped cfg (r_Path r) then nxt wd r w
      else case extractBearer r of
        Inl e \<Rightarrow> (wd, r, writeAuthError quoted 401 e w, None)
      | Inr token \<Rightarrow>
          (case validateToken lib key now token of
             Inl e \<Rightarrow> (wd, r, writeAuthError quoted 401 e w, None)
           | Inr claims \<Rightarrow> nxt wd (SetRequestHeader ''X-User-ID'' (jc_Sub claims) r) w))"

datatype key_error = ReadKey | NoPEMBlock | ParsePKIX | NotRSA | ParsePKCS1 | UnsupportedBlock string

definition loadPublicKey :: "'k tokenlib \<Rightarrow> (string \<Rightarrow> string option) \<Rightarrow> string \<Rightarrow> key_error + 'k" where
  "loadPublicKey lib readFile path =
     (case readFile path of
        None \<Rightarrow> Inl ReadKey
      | Some data \<Rightarrow>
          (case lib_PEM lib data of
             None \<Rightarrow> Inl NoPEMBlock
           | Some (type, bytes) \<Rightarrow>
               if type = ''PUBLIC KEY'' then
                 (case lib_PKIX lib bytes of
                    None \<Rightarrow> Inl ParsePKIX
                  | Some OtherKey \<Rightarrow> Inl NotRSA
                  | Some (RSAKey k) \<Rightarrow> Inr k)
               else if type = ''RSA PUBLIC KEY'' then
                 (case lib_PKCS1 lib bytes of None \<Rightarrow> Inl ParsePKCS1 | Some k \<Rightarrow> Inr k)
               else Inl (UnsupportedBlock type)))"

text \<open>Switched off, the middleware is the identity; \<open>None\<close> stands for it.\<close>

definition NewAuthMiddleware :: "'k tokenlib \<Rightarrow> (string \<Rightarrow> string option) \<Rightarrow> MwAuthConfig \<Rightarrow> key_error + 'k option" where
  "NewAuthMiddleware lib readFile cfg =
     (if \<not> ma_Enabled cfg then Inr None
      else map_sum id Some (loadPublicKey lib readFile (ma_PublicKeyPath cfg)))"

definition authMW :: "'k tokenlib \<Rightarrow> 'k option \<Rightarrow> MwAuthConfig \<Rightarrow> (auth_error \<Rightarrow> string) \<Rightarrow> time \<Rightarrow> 'g handler \<Rightarrow> 'g handler" where
  "authMW lib key cfg quoted now nxt =
     (case key of None \<Rightarrow> nxt | Some k \<Rightarrow> AuthHandler lib k cfg quoted now nxt)"

subsection \<open>Which tokens are accepted\<close>

text \<open>The three segments of a token, and what they must say.\<close>

definition good_token :: "'k tokenlib \<Rightarrow> 'k \<Rightarrow> time \<Rightarrow> string \<Rightarrow> jwtClaims \<Rightarrow> bool" where
  "good_token lib key now token claims \<longleftrightarrow>
     (\<exists>h c s sig hb cb hdr. token = h @ ''.'' @ c @ ''.'' @ s \<and>
        CHR ''.'' \<notin> set h \<and> CHR ''.'' \<notin> set c \<and> CHR ''.'' \<notin> set s \<and>
        b64_DecodeString h = Some hb \<and> lib_Header lib hb = Some hdr \<and> jh_Alg hdr = ''RS256'' \<and>
        b64_DecodeString c = Some cb \<and> lib_Claims lib cb = Some claims \<and>
        jc_Exp claims \<noteq> 0 \<and> time_Unix now \<le> jc_Exp claims \<and>
        b64_DecodeString s = Some sig \<and> lib_Verify lib key (h @ ''.'' @ c) sig)"

lemma Split_three:
  "Split (CHR ''.'') token = [h, c, s] \<longleftrightarrow>
     token = h @ ''.'' @ c @ ''.'' @ s \<and> CHR ''.'' \<notin> set h \<and> CHR ''.'' \<notin> set c \<and> CHR ''.'' \<notin> set s"
proof
  assume split: "Split (CHR ''.'') token = [h, c, s]"
  have "\<forall>p \<in> {h, c, s}. CHR ''.'' \<notin> set p" using Split_parts [of _ "CHR ''.''" token] split by auto
  moreover have "token = h @ ''.'' @ c @ ''.'' @ s" using join_Split [of "CHR ''.''" token] split by simp
  ultimately show "token = h @ ''.'' @ c @ ''.'' @ s \<and> CHR ''.'' \<notin> set h \<and> CHR ''.'' \<notin> set c \<and> CHR ''.'' \<notin> set s"
    by simp
qed (simp add: Split_append Split_no_sep)

lemma accepted: "validateToken lib key now token = Inr claims \<longleftrightarrow> good_token lib key now token claims"
proof
  assume v: "validateToken lib key now token = Inr claims"
  then have "length (Split (CHR ''.'') token) = 3" by (auto simp: validateToken_def Let_def split: if_splits)
  then obtain h c s where split: "Split (CHR ''.'') token = [h, c, s]"
    by (auto simp: length_Suc_conv numeral_3_eq_3)
  from v split have "\<exists>sig hb cb hdr. b64_DecodeString h = Some hb \<and> lib_Header lib hb = Some hdr \<and>
      jh_Alg hdr = ''RS256'' \<and> b64_DecodeString c = Some cb \<and> lib_Claims lib cb = Some claims \<and>
      jc_Exp claims \<noteq> 0 \<and> time_Unix now \<le> jc_Exp claims \<and>
      b64_DecodeString s = Some sig \<and> lib_Verify lib key (h @ ''.'' @ c) sig"
    by (auto simp: validateToken_def decodeHeader_def decodeClaims_def verifySignature_def Let_def
        bind_eq_Some_conv split: if_splits option.splits)
  with iffD1 [OF Split_three split] show "good_token lib key now token claims"
    unfolding good_token_def by blast
next
  assume "good_token lib key now token claims"
  then obtain h c s sig hb cb hdr where g: "Split (CHR ''.'') token = [h, c, s]"
      "b64_DecodeString h = Some hb" "lib_Header lib hb = Some hdr" "jh_Alg hdr = ''RS256''"
      "b64_DecodeString c = Some cb" "lib_Claims lib cb = Some claims"
      "jc_Exp claims \<noteq> 0" "time_Unix now \<le> jc_Exp claims"
      "b64_DecodeString s = Some sig" "lib_Verify lib key (h @ ''.'' @ c) sig"
    unfolding good_token_def by (metis Split_three)
  then show "validateToken lib key now token = Inr claims"
    by (simp add: validateToken_def decodeHeader_def decodeClaims_def verifySignature_def)
qed

text \<open>
  C9. A token is accepted exactly when it has three segments, its header says RS256, its claims
  carry an expiry that has not passed, and the signature over the first two segments as they
  were sent verifies under the configured key. No other algorithm, and no unsigned token, is
  ever accepted.
\<close>

theorem token_accepted_iff:
  "validateToken lib key now token = Inr claims \<longleftrightarrow> good_token lib key now token claims"
  by (rule accepted)

lemma extractBearer_iff:
  "extractBearer r = Inr token \<longleftrightarrow>
     (\<exists>scheme rest. header_Get (r_Header r) ''Authorization'' = scheme @ '' '' @ rest \<and>
        CHR '' '' \<notin> set scheme \<and> EqualFold scheme ''Bearer'' \<and> token = TrimSpace rest)"
proof -
  let ?h = "header_Get (r_Header r) ''Authorization''"
  let ?i = "scan (\<lambda>x. x \<noteq> CHR '' '') ?h"
  have cut: "\<exists>a b. s = a @ CHR '' '' # b \<and> CHR '' '' \<notin> set a" if "scan (\<lambda>x. x \<noteq> CHR '' '') s < length s" for s :: string
    using that
  proof (induction s)
    case (Cons x xs)
    show ?case
    proof (cases "x = CHR '' ''")
      case True
      then show ?thesis by (intro exI [of _ "[]"] exI [of _ xs]) simp
    next
      case False
      with Cons obtain a b where "xs = a @ CHR '' '' # b" "CHR '' '' \<notin> set a" by auto
      with False show ?thesis by (intro exI [of _ "x # a"] exI [of _ b]) auto
    qed
  qed simp
  show ?thesis
  proof
    assume e: "extractBearer r = Inr token"
    then have "?i < length ?h" by (auto simp: extractBearer_def SplitN2_def Let_def split: if_splits)
    from cut [OF this] obtain a b where ab: "?h = a @ CHR '' '' # b" "CHR '' '' \<notin> set a" by blast
    with e SplitN2_append [OF ab(2), of b] show "\<exists>scheme rest. ?h = scheme @ '' '' @ rest \<and>
        CHR '' '' \<notin> set scheme \<and> EqualFold scheme ''Bearer'' \<and> token = TrimSpace rest"
      by (intro exI [of _ a] exI [of _ b]) (auto simp: extractBearer_def Let_def split: if_splits)
  next
    assume "\<exists>scheme rest. ?h = scheme @ '' '' @ rest \<and>
        CHR '' '' \<notin> set scheme \<and> EqualFold scheme ''Bearer'' \<and> token = TrimSpace rest"
    then show "extractBearer r = Inr token" by (auto simp: extractBearer_def SplitN2_append)
  qed
qed

text \<open>The request carries a token in an \<open>Authorization\<close> header of the Bearer scheme.\<close>

definition bears :: "request \<Rightarrow> string \<Rightarrow> bool" where
  "bears r token \<longleftrightarrow> (\<exists>scheme rest. header_Get (r_Header r) ''Authorization'' = scheme @ '' '' @ rest \<and>
     CHR '' '' \<notin> set scheme \<and> EqualFold scheme ''Bearer'' \<and> token = TrimSpace rest)"

lemma authenticates:
  assumes "\<not> isSkipped cfg (r_Path r)"
  shows "(\<exists>token claims. bears r token \<and> good_token lib key now token claims \<and>
      AuthHandler lib key cfg quoted now nxt wd r w = nxt wd (SetRequestHeader ''X-User-ID'' (jc_Sub claims) r) w) \<or>
    (\<nexists>token claims. bears r token \<and> good_token lib key now token claims) \<and>
      (\<exists>e. AuthHandler lib key cfg quoted now nxt wd r w = (wd, r, writeAuthError quoted 401 e w, None))"
proof -
  have b: "bears r token \<longleftrightarrow> extractBearer r = Inr token" for token
    by (simp add: bears_def extractBearer_iff)
  show ?thesis
  proof (cases "extractBearer r")
    case (Inl e)
    with assms show ?thesis by (auto simp: b AuthHandler_def)
  next
    case (Inr token)
    show ?thesis
    proof (cases "validateToken lib key now token")
      case (Inl e)
      then have "\<nexists>claims. good_token lib key now token claims" by (simp add: accepted [symmetric])
      with Inl \<open>extractBearer r = Inr token\<close> assms show ?thesis by (auto simp: b AuthHandler_def)
    next
      case (Inr claims)
      then have "good_token lib key now token claims" by (simp add: accepted [symmetric])
      with Inr \<open>extractBearer r = Inr token\<close> assms show ?thesis by (auto simp: b AuthHandler_def)
    qed
  qed
qed

text \<open>
  C10. Authentication lets through exactly the requests that carry an acceptable token, with the
  token's subject as their \<open>X-User-ID\<close> whatever the client had put there. Every other request
  outside the skipped paths gets a 401 and leaves no trace behind the middleware: the next
  handler is not called.
\<close>

theorem auth_gate:
  assumes "\<not> isSkipped cfg (r_Path r)"
  shows "(\<exists>token claims. bears r token \<and> good_token lib key now token claims \<and>
      AuthHandler lib key cfg quoted now nxt wd r w = nxt wd (SetRequestHeader ''X-User-ID'' (jc_Sub claims) r) w) \<or>
    (\<nexists>token claims. bears r token \<and> good_token lib key now token claims) \<and>
      (\<exists>e. AuthHandler lib key cfg quoted now nxt wd r w = (wd, r, writeAuthError quoted 401 e w, None))"
  by (rule authenticates [OF assms])

definition toy_lib :: "nat tokenlib" where
  "toy_lib = \<lparr>lib_Header = (\<lambda>s. if s = ''h'' then Some \<lparr>jh_Alg = ''RS256'', jh_Typ = ''JWT''\<rparr> else None),
     lib_Claims = (\<lambda>s. if s = ''c'' then Some \<lparr>jc_Sub = ''user-42'', jc_Exp = 1, jc_Iat = 0\<rparr> else None),
     lib_Verify = (\<lambda>k msg sig. sig = ''s''), lib_PEM = (\<lambda>s. None), lib_PKIX = (\<lambda>s. None), lib_PKCS1 = (\<lambda>s. None)\<rparr>"

definition skip_health :: MwAuthConfig where
  "skip_health = \<lparr>ma_Enabled = True, ma_PublicKeyPath = ''pub.pem'', ma_SkipPaths = [''/health'']\<rparr>"

lemma no_header: "\<not> bears (get_request p) token"
  by (simp add: bears_def get_request_def)

theorem auth_gate_witness:
  "\<exists>e. AuthHandler toy_lib 0 skip_health (\<lambda>e. []) 0 broken_off world0 (get_request ''/api'') new_writer =
     (world0, get_request ''/api'', writeAuthError (\<lambda>e. []) 401 e new_writer, None)"
  using auth_gate [of skip_health "get_request ''/api''" toy_lib 0 0 "\<lambda>e. []" broken_off world0 new_writer]
  by (simp add: no_header, simp add: isSkipped_def skip_health_def get_request_def)

text \<open>
  A skipped prefix opens more than itself: any path that starts with it is forwarded without a
  token (the path is not cleaned, so a skipped prefix followed by dot segments is let through as
  it stands), and the \<open>X-User-ID\<close> the client sent reaches the backend as if it had been checked.
\<close>

theorem auth_skip_unchecked:
  assumes "skip \<in> set (ma_SkipPaths cfg)"
  shows "AuthHandler lib key cfg quoted now nxt wd
      (SetRequestHeader ''X-User-ID'' user (r\<lparr>r_Path := skip @ ''/../'' @ rest\<rparr>)) w =
    nxt wd (SetRequestHeader ''X-User-ID'' user (r\<lparr>r_Path := skip @ ''/../'' @ rest\<rparr>)) w"
proof -
  have "isSkipped cfg (skip @ ''/../'' @ rest)"
    using assms HasPrefix_iff by (auto simp: isSkipped_def list_ex_iff)
  then show ?thesis by (simp add: AuthHandler_def SetRequestHeader_def)
qed

theorem auth_skip_unchecked_witness:
  "AuthHandler toy_lib 0 skip_health (\<lambda>e. []) 0 broken_off world0
     (SetRequestHeader ''X-User-ID'' ''admin'' (get_request ''/health/../api/users'')) new_writer =
   broken_off world0 (SetRequestHeader ''X-User-ID'' ''admin'' (get_request ''/health/../api/users'')) new_writer"
  using auth_skip_unchecked [of "''/health''" skip_health toy_lib 0 "\<lambda>e. []" 0 broken_off world0 "''admin''"
      "''api/users''" "get_request ''/''" new_writer]
  by (simp add: skip_health_def get_request_def)

end
