(* ===== verification/Health.thy ===== *)
theory Health
  imports LoadBalancer "HOL-Library.Multiset"
begin

section \<open>Package health: active health checks\<close>

text \<open>
  \<open>internal/health/health.go\<close>. A checker is a goroutine that probes all its backends at once,
  first at its start and then at every tick, until its context is cancelled. A round starts one
  goroutine per backend and waits for all of them; they finish in any order, so a round is a
  fold over an order of completion. What a probe meets is an input.
\<close>

record Checker =
  hc_backends :: "addr list"
  hc_cancelled :: bool
  hc_checked :: bool
  hc_running :: bool

definition defaultCheckInterval :: duration where
  "defaultCheckInterval = 10 * time_Second"

definition defaultTimeout :: duration where
  "defaultTimeout = 3 * time_Second"

definition defaultHealthPath :: string where
  "defaultHealthPath = ''/health''"

datatype probe =
    BadProbeRequest
  | ProbeError
  | ProbeStatus int

definition health_New :: "addr list \<Rightarrow> Checker" where
  "health_New bs = \<lparr>hc_backends = bs, hc_cancelled = False, hc_checked = False, hc_running = True\<rparr>"

definition health_Update :: "addr list \<Rightarrow> Checker \<Rightarrow> Checker" where
  "health_Update bs c = c\<lparr>hc_backends := bs\<rparr>"

definition health_Stop :: "Checker \<Rightarrow> Checker" where
  "health_Stop c = c\<lparr>hc_cancelled := True\<rparr>"

text \<open>The URL probed is the backend's followed by the health path.\<close>

definition checkOne :: "(string \<Rightarrow> probe) \<Rightarrow> addr \<Rightarrow> store \<Rightarrow> store" where
  "checkOne get b st =
     (case get (be_URL (st ! b) @ defaultHealthPath) of
        BadProbeRequest \<Rightarrow> be_SetAlive st b False
      | ProbeError \<Rightarrow> be_SetAlive st b False
      | ProbeStatus code \<Rightarrow> be_SetAlive st b (code < 500))"

definition checkAll :: "(string \<Rightarrow> probe) \<Rightarrow> addr list \<Rightarrow> store \<Rightarrow> store" where
  "checkAll get finished st = fold (checkOne get) finished st"

datatype hc_event = HCheck "string \<Rightarrow> probe" "addr list" | HDone

inductive health_step :: "hc_event \<Rightarrow> Checker \<times> store \<Rightarrow> Checker \<times> store \<Rightarrow> bool" where
  step_check: "hc_running c \<Longrightarrow> mset finished = mset (hc_backends c) \<Longrightarrow>
    health_step (HCheck get finished) (c, st) (c\<lparr>hc_checked := True\<rparr>, checkAll get finished st)"
| step_done: "hc_running c \<Longrightarrow> hc_checked c \<Longrightarrow> hc_cancelled c \<Longrightarrow>
    health_step HDone (c, st) (c\<lparr>hc_running := False\<rparr>, st)"

inductive_cases health_checkE: "health_step (HCheck get finished) (c, st) (c', st')"

text \<open>What a probe says of a backend.\<close>

fun probe_ok :: "probe \<Rightarrow> bool" where
  "probe_ok (ProbeStatus code) = (code < 500)"
| "probe_ok p = False"

lemma checkOne_eq: "checkOne get b st = be_SetAlive st b (probe_ok (get (be_URL (st ! b) @ defaultHealthPath)))"
  by (simp add: checkOne_def split: probe.splits)

lemma be_SetAlive_length [simp]: "length (be_SetAlive st a v) = length st"
  by (simp add: be_SetAlive_def)

lemma be_SetAlive_nth:
  "a < length st \<Longrightarrow> be_SetAlive st a v ! b = (if a = b then (st ! b)\<lparr>be_alive := v\<rparr> else st ! b)"
  by (auto simp: be_SetAlive_def nth_list_update)

lemma checkAll_nth:
  assumes "\<forall>a \<in> set finished. a < length st"
  shows "length (checkAll get finished st) = length st \<and>
    checkAll get finished st ! b =
      (if b \<in> set finished then (st ! b)\<lparr>be_alive := probe_ok (get (be_URL (st ! b) @ defaultHealthPath))\<rparr> else st ! b)"
  using assms
proof (induction finished arbitrary: st)
  case Nil
  then show ?case by (simp add: checkAll_def)
next
  case (Cons a as)
  let ?st = "checkOne get a st"
  have st: "length ?st = length st" "?st ! b =
      (if a = b then (st ! b)\<lparr>be_alive := probe_ok (get (be_URL (st ! b) @ defaultHealthPath))\<rparr> else st ! b)"
    using Cons.prems by (auto simp: checkOne_eq be_SetAlive_nth)
  have "checkAll get (a # as) st = checkAll get as ?st" by (simp add: checkAll_def)
  with Cons.IH [of ?st] Cons.prems st show ?case by auto
qed

text \<open>
  C23. One round of checks decides by the probes alone: whatever the order in which they finish,
  afterwards a backend of the checker is alive exactly when its probe answered with a status
  below 500. Nothing else of it changes, and no other backend does.
\<close>

theorem health_round_exact:
  assumes "health_step (HCheck get finished) (c, st) (c', st')" and "\<forall>a \<in> set (hc_backends c). a < length st"
  shows "length st' = length st \<and> hc_backends c' = hc_backends c \<and>
    st' ! b = (if b \<in> set (hc_backends c)
      then (st ! b)\<lparr>be_alive := probe_ok (get (be_URL (st ! b) @ defaultHealthPath))\<rparr> else st ! b)"
proof -
  from assms(1) have s: "mset finished = mset (hc_backends c)" "c' = c\<lparr>hc_checked := True\<rparr>" "st' = checkAll get finished st"
    by (auto elim: health_checkE)
  then have "set finished = set (hc_backends c)" by (metis mset_eq_setD)
  with checkAll_nth [of finished st get b] assms(2) s show ?thesis by simp
qed

theorem health_round_exact_witness:
  "\<exists>st'. health_step (HCheck (\<lambda>u. if u = ''http://b/health'' then ProbeStatus 404 else ProbeError) [1, 0])
      (health_New [0, 1], [\<lparr>be_URL = ''http://a'', be_Weight = 1, be_alive = True, be_inflight = 3\<rparr>,
         \<lparr>be_URL = ''http://b'', be_Weight = 1, be_alive = False, be_inflight = 0\<rparr>])
      ((health_New [0, 1])\<lparr>hc_checked := True\<rparr>, st') \<and>
    st' ! 0 = \<lparr>be_URL = ''http://a'', be_Weight = 1, be_alive = False, be_inflight = 3\<rparr> \<and>
    st' ! 1 = \<lparr>be_URL = ''http://b'', be_Weight = 1, be_alive = True, be_inflight = 0\<rparr>"
proof -
  let ?get = "\<lambda>u. if u = ''http://b/health'' then ProbeStatus 404 else ProbeError"
  let ?st = "[\<lparr>be_URL = ''http://a'', be_Weight = 1, be_alive = True, be_inflight = 3\<rparr>,
         \<lparr>be_URL = ''http://b'', be_Weight = 1, be_alive = False, be_inflight = 0\<rparr>]"
  have "health_step (HCheck ?get [1, 0]) (health_New [0, 1], ?st)
      ((health_New [0, 1])\<lparr>hc_checked := True\<rparr>, checkAll ?get [1, 0] ?st)"
    by (rule step_check) (simp_all add: health_New_def)
  with health_round_exact [OF this, of 0] health_round_exact [OF this, of 1] show ?thesis
    by (intro exI [of _ "checkAll ?get [1, 0] ?st"]) (simp add: health_New_def defaultHealthPath_def)
qed

end
