(* ===== verification/CircuitBreaker.thy ===== *)
theory CircuitBreaker
  imports Config
begin

section \<open>Package circuitbreaker: the three-state circuit breaker\<close>

text \<open>
  \<open>internal/circuitbreaker/circuitbreaker.go\<close>. Every method locks the breaker for its whole
  body, so a call is one atomic step; a nil breaker (\<open>None\<close>) is the disabled one. The clock
  readings of a call are its first arguments, in the order the code takes them.
\<close>

subsection \<open>State and operations\<close>

datatype cb_error = ErrCircuitOpen

datatype cb_state = stateClosed | stateOpen | stateHalfOpen

fun cb_String :: "cb_state \<Rightarrow> string" where
  "cb_String stateClosed = ''closed''"
| "cb_String stateOpen = ''open''"
| "cb_String stateHalfOpen = ''half-open''"

record observation =
  ob_at :: time
  ob_success :: bool

record Breaker =
  cb_cfg :: CircuitBreakerConfig
  cb_state :: cb_state
  cb_openAt :: time
  cb_window :: "observation list"
  cb_halfOpenTotal :: int
  cb_halfOpenFailures :: int

definition rollingWindow :: duration where
  "rollingWindow = 10 * time_Second"

text \<open>
  \<open>New\<close> fills the zero fields of the configuration it is given, through the pointer: the
  updated configuration is part of the result.
\<close>

definition cb_defaults :: "CircuitBreakerConfig \<Rightarrow> CircuitBreakerConfig" where
  "cb_defaults cfg =
     (let cfg1 = (if cbc_MinRequests cfg = 0 then cfg\<lparr>cbc_MinRequests := 20\<rparr> else cfg);
          cfg2 = (if cbc_FailureThreshold cfg1 = 0 then cfg1\<lparr>cbc_FailureThreshold := 50\<rparr> else cfg1);
          cfg3 = (if cbc_OpenDurationSeconds cfg2 = 0 then cfg2\<lparr>cbc_OpenDurationSeconds := 30\<rparr> else cfg2)
      in if cbc_HalfOpenRequests cfg3 = 0 then cfg3\<lparr>cbc_HalfOpenRequests := 5\<rparr> else cfg3)"

definition cb_New :: "CircuitBreakerConfig option \<Rightarrow> CircuitBreakerConfig option \<times> Breaker option" where
  "cb_New cfg =
     (case cfg of
        None \<Rightarrow> (None, None)
      | Some c \<Rightarrow>
          (let c' = cb_defaults c
           in (Some c', Some \<lparr>cb_cfg = c', cb_state = stateClosed, cb_openAt = zeroTime,
                 cb_window = [], cb_halfOpenTotal = 0, cb_halfOpenFailures = 0\<rparr>)))"

definition cb_transitionTo :: "time \<Rightarrow> cb_state \<Rightarrow> Breaker \<Rightarrow> Breaker" where
  "cb_transitionTo now s b =
     (let b1 = b\<lparr>cb_state := s\<rparr>;
          b2 = (if s = stateOpen then b1\<lparr>cb_openAt := now, cb_window := []\<rparr> else b1);
          b3 = (if s = stateHalfOpen then b2\<lparr>cb_halfOpenTotal := 0, cb_halfOpenFailures := 0\<rparr> else b2)
      in if s = stateClosed then b3\<lparr>cb_window := []\<rparr> else b3)"

definition cb_record :: "time \<Rightarrow> bool \<Rightarrow> Breaker \<Rightarrow> Breaker" where
  "cb_record now success b =
     (let w = cb_window b @ [\<lparr>ob_at = now, ob_success = success\<rparr>];
          cutoff = now - rollingWindow
      in b\<lparr>cb_window := drop (scan (\<lambda>o'. ob_at o' < cutoff) w) w\<rparr>)"

fun countFailures :: "observation list \<Rightarrow> int" where
  "countFailures [] = 0"
| "countFailures (x # xs) = (if \<not> ob_success x then 1 + countFailures xs else countFailures xs)"

definition cb_maybeTrip :: "time \<Rightarrow> Breaker \<Rightarrow> panic + Breaker" where
  "cb_maybeTrip now b =
     (let total = int (length (cb_window b)) in
      if total < cbc_MinRequests (cb_cfg b) then Inr b
      else if total = 0 then Inl DivideByZero
      else let pct = i64 (countFailures (cb_window b) * 100) sdiv total in
           if cbc_FailureThreshold (cb_cfg b) \<le> pct
           then Inr (cb_transitionTo now stateOpen b) else Inr b)"

fun cb_Allow :: "time \<Rightarrow> Breaker option \<Rightarrow> Breaker option \<times> cb_error option" where
  "cb_Allow now None = (None, None)"
| "cb_Allow now (Some b) =
     (case cb_state b of
        stateClosed \<Rightarrow> (Some b, None)
      | stateOpen \<Rightarrow>
          if secondsToDuration (cbc_OpenDurationSeconds (cb_cfg b)) < time_Sub now (cb_openAt b)
          then (Some (cb_transitionTo now stateHalfOpen b), None)
          else (Some b, Some ErrCircuitOpen)
      | stateHalfOpen \<Rightarrow>
          if cb_halfOpenTotal b < cbc_HalfOpenRequests (cb_cfg b)
          then (Some (b\<lparr>cb_halfOpenTotal := i64 (cb_halfOpenTotal b + 1)\<rparr>), None)
          else (Some b, Some ErrCircuitOpen))"

fun cb_RecordSuccess :: "time \<Rightarrow> Breaker option \<Rightarrow> Breaker option" where
  "cb_RecordSuccess now None = None"
| "cb_RecordSuccess now (Some b) =
     (case cb_state b of
        stateClosed \<Rightarrow> Some (cb_record now True b)
      | stateOpen \<Rightarrow> Some b
      | stateHalfOpen \<Rightarrow>
          if cbc_HalfOpenRequests (cb_cfg b) \<le> i64 (cb_halfOpenTotal b - cb_halfOpenFailures b)
          then Some (cb_transitionTo now stateClosed b) else Some b)"

text \<open>A failure reads the clock to record the observation and again when the circuit opens.\<close>

fun cb_RecordFailure :: "time \<Rightarrow> time \<Rightarrow> Breaker option \<Rightarrow> panic + Breaker option" where
  "cb_RecordFailure now now' None = Inr None"
| "cb_RecordFailure now now' (Some b) =
     (case cb_state b of
        stateClosed \<Rightarrow> map_sum id Some (cb_maybeTrip now' (cb_record now False b))
      | stateOpen \<Rightarrow> Inr (Some b)
      | stateHalfOpen \<Rightarrow>
          Inr (Some (cb_transitionTo now' stateOpen
                 (b\<lparr>cb_halfOpenFailures := i64 (cb_halfOpenFailures b + 1)\<rparr>))))"

fun cb_State :: "Breaker option \<Rightarrow> string" where
  "cb_State None = ''disabled''"
| "cb_State (Some b) = cb_String (cb_state b)"

subsection \<open>The operations as events\<close>

datatype cb_event =
    EvAllow time
  | EvSuccess time
  | EvFailure time time

fun cb_step :: "Breaker \<Rightarrow> cb_event \<Rightarrow> panic + Breaker" where
  "cb_step b (EvAllow t) = Inr (the (fst (cb_Allow t (Some b))))"
| "cb_step b (EvSuccess t) = Inr (the (cb_RecordSuccess t (Some b)))"
| "cb_step b (EvFailure t t') = map_sum id the (cb_RecordFailure t t' (Some b))"

subsection \<open>Invariant\<close>

text \<open>
  Only a closed breaker holds observations, and its window is in time order; in the half-open
  state no failure has been counted and at most \<open>HalfOpenRequests\<close> probes have been.
\<close>

definition cbc_wf :: "CircuitBreakerConfig \<Rightarrow> bool" where
  "cbc_wf c \<longleftrightarrow> in_i64 (cbc_FailureThreshold c) \<and> in_i64 (cbc_MinRequests c) \<and>
     in_i64 (cbc_OpenDurationSeconds c) \<and> in_i64 (cbc_HalfOpenRequests c)"

definition cb_inv :: "Breaker \<Rightarrow> bool" where
  "cb_inv b \<longleftrightarrow> cbc_wf (cb_cfg b) \<and>
     (cb_state b \<noteq> stateClosed \<longrightarrow> cb_window b = []) \<and>
     (cb_state b = stateHalfOpen \<longrightarrow> cb_halfOpenFailures b = 0 \<and> 0 \<le> cb_halfOpenTotal b \<and>
        cb_halfOpenTotal b \<le> max 0 (cbc_HalfOpenRequests (cb_cfg b)))"

lemma transitionTo_fields [simp]:
  "cb_cfg (cb_transitionTo now s b) = cb_cfg b"
  "cb_state (cb_transitionTo now s b) = s"
  "cb_openAt (cb_transitionTo now s b) = (if s = stateOpen then now else cb_openAt b)"
  "cb_window (cb_transitionTo now s b) = (if s = stateHalfOpen then cb_window b else [])"
  "cb_halfOpenTotal (cb_transitionTo now s b) =
     (if s = stateHalfOpen then 0 else cb_halfOpenTotal b)"
  "cb_halfOpenFailures (cb_transitionTo now s b) =
     (if s = stateHalfOpen then 0 else cb_halfOpenFailures b)"
  by (cases s; simp add: cb_transitionTo_def Let_def)+

lemma record_fields [simp]:
  "cb_cfg (cb_record now ok b) = cb_cfg b"
  "cb_state (cb_record now ok b) = cb_state b"
  "cb_openAt (cb_record now ok b) = cb_openAt b"
  "cb_halfOpenTotal (cb_record now ok b) = cb_halfOpenTotal b"
  "cb_halfOpenFailures (cb_record now ok b) = cb_halfOpenFailures b"
  by (simp_all add: cb_record_def Let_def)

lemma rollingWindow_pos [simp]: "0 < rollingWindow"
  by (simp add: rollingWindow_def time_Second_def)

text \<open>The eviction never removes the observation just recorded.\<close>

lemma record_window:
  "cb_window (cb_record now ok b) =
     dropWhile (\<lambda>x. ob_at x < now - rollingWindow) (cb_window b) @ [\<lparr>ob_at = now, ob_success = ok\<rparr>]"
proof -
  have "\<not> ob_at \<lparr>ob_at = now, ob_success = ok\<rparr> < now - rollingWindow"
    using rollingWindow_pos by (simp del: rollingWindow_pos)
  then show ?thesis
    by (simp add: cb_record_def Let_def drop_scan length_dropWhile_snoc)
qed

lemma countFailures_eq: "countFailures xs = int (length (filter (\<lambda>x. \<not> ob_success x) xs))"
  by (induction xs) auto

lemma countFailures_bounds: "0 \<le> countFailures xs \<and> countFailures xs \<le> int (length xs)"
  by (induction xs) auto

text \<open>
  The percentage test of the code, for a window short enough that \<open>failures * 100\<close> does not
  leave 64 bits: a division-free comparison.
\<close>

definition trips :: "CircuitBreakerConfig \<Rightarrow> observation list \<Rightarrow> bool" where
  "trips c w \<longleftrightarrow> cbc_MinRequests c \<le> int (length w) \<and>
     cbc_FailureThreshold c * int (length w) \<le> 100 * countFailures w"

lemma maybeTrip_eq:
  assumes "cb_window b \<noteq> []" and "100 * int (length (cb_window b)) < 2 ^ 63"
  shows "cb_maybeTrip now b =
     Inr (if trips (cb_cfg b) (cb_window b) then cb_transitionTo now stateOpen b else b)"
proof -
  let ?n = "int (length (cb_window b))" and ?f = "countFailures (cb_window b)"
  have n: "0 < ?n" using assms(1) by simp
  have f: "0 \<le> ?f" "?f \<le> ?n" using countFailures_bounds by auto
  have "i64 (?f * 100) = ?f * 100"
    using f assms(2) by (intro i64_small) auto
  then have "cbc_FailureThreshold (cb_cfg b) \<le> i64 (?f * 100) sdiv ?n \<longleftrightarrow>
      cbc_FailureThreshold (cb_cfg b) * ?n \<le> 100 * ?f"
    using f by (simp add: sdiv_nonneg le_div_iff [OF n] mult.commute)
  then show ?thesis
    using n by (auto simp: cb_maybeTrip_def trips_def Let_def)
qed

lemma maybeTrip_cases:
  "cb_window b \<noteq> [] \<Longrightarrow>
     cb_maybeTrip now b = Inr b \<or> cb_maybeTrip now b = Inr (cb_transitionTo now stateOpen b)"
  by (simp add: cb_maybeTrip_def Let_def)

lemma record_window_nonempty: "cb_window (cb_record now ok b) \<noteq> []"
  by (simp add: record_window)

lemma record_failure_closed:
  assumes "cb_state b = stateClosed"
  shows "cb_RecordFailure t t' (Some b) = Inr (Some (cb_record t False b)) \<or>
    cb_RecordFailure t t' (Some b) = Inr (Some (cb_transitionTo t' stateOpen (cb_record t False b)))"
  using assms maybeTrip_cases [OF record_window_nonempty, of t' t False b] by auto

lemma cb_inv_step: "cb_inv b \<Longrightarrow> \<exists>b'. cb_step b e = Inr b' \<and> cb_inv b'"
proof (cases e)
  case (EvAllow t)
  assume "cb_inv b"
  with EvAllow show ?thesis
    by (cases "cb_state b") (auto simp: cb_inv_def cbc_wf_def i64_incr)
next
  case (EvSuccess t)
  assume "cb_inv b"
  with EvSuccess show ?thesis by (cases "cb_state b") (auto simp: cb_inv_def)
next
  case (EvFailure t t')
  assume inv: "cb_inv b"
  show ?thesis
  proof (cases "cb_state b")
    case stateClosed
    with EvFailure inv show ?thesis
      using record_failure_closed [OF stateClosed, of t t'] by (auto simp: cb_inv_def)
  qed (use EvFailure inv in \<open>auto simp: cb_inv_def\<close>)
qed

interpretation breaker: machine cb_step cb_inv
  by unfold_locales (rule cb_inv_step)

lemma defaults_fields [simp]:
  "cbc_MinRequests (cb_defaults c) = (if cbc_MinRequests c = 0 then 20 else cbc_MinRequests c)"
  "cbc_FailureThreshold (cb_defaults c) =
     (if cbc_FailureThreshold c = 0 then 50 else cbc_FailureThreshold c)"
  "cbc_OpenDurationSeconds (cb_defaults c) =
     (if cbc_OpenDurationSeconds c = 0 then 30 else cbc_OpenDurationSeconds c)"
  "cbc_HalfOpenRequests (cb_defaults c) =
     (if cbc_HalfOpenRequests c = 0 then 5 else cbc_HalfOpenRequests c)"
  by (simp_all add: cb_defaults_def Let_def)

lemma defaults_wf: "cbc_wf c \<Longrightarrow> cbc_wf (cb_defaults c)"
  by (simp add: cbc_wf_def) (simp add: in_i64_def)

lemma defaults_idem: "cb_defaults (cb_defaults c) = cb_defaults c"
  by (rule CircuitBreakerConfig.equality) simp_all

lemma cb_New_inv: "cbc_wf c \<Longrightarrow> snd (cb_New (Some c)) = Some b \<Longrightarrow> cb_inv b"
  by (auto simp: cb_New_def cb_inv_def Let_def defaults_wf)

subsection \<open>The specification: a breaker that remembers its whole history\<close>

text \<open>
  What the component promises, without windows, evictions or counters: a closed breaker knows
  every report since it last closed and looks at those of the last ten seconds, an open one
  knows since when, a half-open one how many probes it has counted.
\<close>

datatype cb_spec =
    SpecClosed "observation list"
  | SpecOpen time
  | SpecHalfOpen int

definition recent :: "time \<Rightarrow> observation list \<Rightarrow> observation list" where
  "recent now h = filter (\<lambda>x. now - rollingWindow \<le> ob_at x) h"

fun spec_admits :: "CircuitBreakerConfig \<Rightarrow> cb_spec \<Rightarrow> time \<Rightarrow> bool" where
  "spec_admits c (SpecClosed h) t = True"
| "spec_admits c (SpecOpen t0) t = (secondsToDuration (cbc_OpenDurationSeconds c) < t - t0)"
| "spec_admits c (SpecHalfOpen k) t = (k < cbc_HalfOpenRequests c)"

fun spec_step :: "CircuitBreakerConfig \<Rightarrow> cb_spec \<Rightarrow> cb_event \<Rightarrow> cb_spec" where
  "spec_step c (SpecClosed h) (EvAllow t) = SpecClosed h"
| "spec_step c (SpecClosed h) (EvSuccess t) = SpecClosed (h @ [\<lparr>ob_at = t, ob_success = True\<rparr>])"
| "spec_step c (SpecClosed h) (EvFailure t t') =
     (let h' = h @ [\<lparr>ob_at = t, ob_success = False\<rparr>]
      in if trips c (recent t h') then SpecOpen t' else SpecClosed h')"
| "spec_step c (SpecOpen t0) (EvAllow t) =
     (if spec_admits c (SpecOpen t0) t then SpecHalfOpen 0 else SpecOpen t0)"
| "spec_step c (SpecOpen t0) _ = SpecOpen t0"
| "spec_step c (SpecHalfOpen k) (EvAllow t) =
     (if spec_admits c (SpecHalfOpen k) t then SpecHalfOpen (k + 1) else SpecHalfOpen k)"
| "spec_step c (SpecHalfOpen k) (EvSuccess t) =
     (if cbc_HalfOpenRequests c \<le> k then SpecClosed [] else SpecHalfOpen k)"
| "spec_step c (SpecHalfOpen k) (EvFailure t t') = SpecOpen t'"

text \<open>The decisions of the \<open>Allow\<close> calls of a run, of the code and of the specification.\<close>

fun cb_decision :: "Breaker \<Rightarrow> cb_event \<Rightarrow> bool list" where
  "cb_decision b (EvAllow t) = [snd (cb_Allow t (Some b)) = None]"
| "cb_decision b _ = []"

fun cb_trace :: "Breaker \<Rightarrow> cb_event list \<Rightarrow> bool list" where
  "cb_trace b [] = []"
| "cb_trace b (e # es) =
     cb_decision b e @ (case cb_step b e of Inl x \<Rightarrow> [] | Inr b' \<Rightarrow> cb_trace b' es)"

fun spec_trace :: "CircuitBreakerConfig \<Rightarrow> cb_spec \<Rightarrow> cb_event list \<Rightarrow> bool list" where
  "spec_trace c s [] = []"
| "spec_trace c s (e # es) =
     (case e of EvAllow t \<Rightarrow> [spec_admits c s t] | _ \<Rightarrow> []) @ spec_trace c (spec_step c s e) es"

fun ev_times :: "cb_event \<Rightarrow> time list" where
  "ev_times (EvAllow t) = [t]"
| "ev_times (EvSuccess t) = [t]"
| "ev_times (EvFailure t t') = [t, t']"

subsection \<open>Refinement\<close>

text \<open>
  The relation between a breaker and its specification when the clock has reached \<open>T\<close>: the
  window is what some earlier eviction has left of the history.
\<close>

definition hist_ok :: "time \<Rightarrow> observation list \<Rightarrow> bool" where
  "hist_ok T h \<longleftrightarrow> sorted_wrt (\<lambda>x y. ob_at x \<le> ob_at y) h \<and> (\<forall>x \<in> set h. ob_at x \<le> T)"

definition cb_rel :: "time \<Rightarrow> Breaker \<Rightarrow> cb_spec \<Rightarrow> bool" where
  "cb_rel T b s \<longleftrightarrow> cb_inv b \<and>
     (case s of
        SpecClosed h \<Rightarrow> cb_state b = stateClosed \<and> hist_ok T h \<and>
          (\<exists>c \<le> T - rollingWindow. cb_window b = filter (\<lambda>x. c \<le> ob_at x) h)
      | SpecOpen t0 \<Rightarrow> cb_state b = stateOpen \<and> cb_openAt b = t0
      | SpecHalfOpen k \<Rightarrow> cb_state b = stateHalfOpen \<and> cb_halfOpenTotal b = k)"

fun hist_len :: "cb_spec \<Rightarrow> nat" where
  "hist_len (SpecClosed h) = length h"
| "hist_len _ = 0"

text \<open>A number of seconds is an even number of nanoseconds, so it is never the value at which
  \<open>time.Since\<close> saturates.\<close>

lemma secondsToDuration_even: "even (secondsToDuration n)"
proof -
  have "even ((n * time_Second + 2 ^ 63) mod 2 ^ 64)"
    by (subst dvd_mod_iff) (auto simp: time_Second_def)
  then show ?thesis by (simp add: secondsToDuration_def i64_def)
qed

lemma open_expired_iff:
  "secondsToDuration n < time_Sub t u \<longleftrightarrow> secondsToDuration n < t - u"
proof -
  have "in_i64 (secondsToDuration n)" by (simp add: secondsToDuration_def)
  moreover have "secondsToDuration n \<noteq> 2 ^ 63 - 1"
    using secondsToDuration_even [of n] by auto
  ultimately have "secondsToDuration n < 2 ^ 63 - 1" by (auto simp: in_i64_def)
  with \<open>in_i64 (secondsToDuration n)\<close> show ?thesis
    unfolding time_Sub_def by (rule sat64_greater)
qed

lemma hist_ok_snoc: "hist_ok T h \<Longrightarrow> T \<le> t \<Longrightarrow> hist_ok t (h @ [\<lparr>ob_at = t, ob_success = ok\<rparr>])"
  by (auto simp: hist_ok_def sorted_wrt_append)

lemma hist_ok_mono: "hist_ok T h \<Longrightarrow> T \<le> t \<Longrightarrow> hist_ok t h"
  by (auto simp: hist_ok_def)

lemma record_window_recent:
  assumes "hist_ok T h" and "T \<le> t" and "c \<le> T - rollingWindow"
    and "cb_window b = filter (\<lambda>x. c \<le> ob_at x) h"
  shows "cb_window (cb_record t ok b) = recent t (h @ [\<lparr>ob_at = t, ob_success = ok\<rparr>])"
proof -
  have "sorted_wrt (\<lambda>x y. ob_at x \<le> ob_at y) (cb_window b)"
    using assms(1,4) by (simp add: hist_ok_def sorted_wrt_filter)
  then have "dropWhile (\<lambda>x. ob_at x < t - rollingWindow) (cb_window b) =
      filter (\<lambda>x. t - rollingWindow \<le> ob_at x) (cb_window b)"
    by (rule dropWhile_sorted_filter)
  also have "\<dots> = filter (\<lambda>x. t - rollingWindow \<le> ob_at x) h"
    using assms(2,3,4) by (auto simp: intro!: filter_cong)
  finally show ?thesis
    using rollingWindow_pos by (simp add: record_window recent_def del: rollingWindow_pos)
qed

lemma cb_rel_mono: "cb_rel T b s \<Longrightarrow> T \<le> t \<Longrightarrow> cb_rel t b s"
proof (cases s)
  case (SpecClosed h)
  assume rel: "cb_rel T b s" and T: "T \<le> t"
  then obtain c where "c \<le> T - rollingWindow" "cb_window b = filter (\<lambda>x. c \<le> ob_at x) h"
    using SpecClosed by (auto simp: cb_rel_def)
  moreover from this(1) T have "c \<le> t - rollingWindow" by simp
  ultimately show ?thesis
    using rel SpecClosed hist_ok_mono [OF _ T] by (auto simp: cb_rel_def)
qed (auto simp: cb_rel_def)

lemma cb_rel_inv: "cb_rel T b s \<Longrightarrow> cb_inv b"
  by (simp add: cb_rel_def)

lemma cb_rel_closedI:
  "cb_inv b \<Longrightarrow> cb_state b = stateClosed \<Longrightarrow> hist_ok T h \<Longrightarrow> t \<le> T \<Longrightarrow>
     cb_window b = recent t h \<Longrightarrow> cb_rel T b (SpecClosed h)"
  by (auto simp: cb_rel_def recent_def intro!: exI [of _ "t - rollingWindow"])

lemma cb_rel_closed_record:
  assumes "cb_rel T b (SpecClosed h)" and "T \<le> t"
  shows "cb_window (cb_record t ok b) = recent t (h @ [\<lparr>ob_at = t, ob_success = ok\<rparr>])"
  using assms by (auto simp: cb_rel_def intro: record_window_recent)

text \<open>One event: same decision, and the relation again.\<close>

lemma cb_rel_decision:
  assumes "cb_rel T b s"
  shows "cb_decision b (EvAllow t) = [spec_admits (cb_cfg b) s t]"
  using assms by (cases s) (auto simp: cb_rel_def open_expired_iff)

lemma cb_rel_allow:
  assumes "cb_rel T b s" and "T \<le> t" and "cb_step b (EvAllow t) = Inr b'"
  shows "cb_rel t b' (spec_step (cb_cfg b) s (EvAllow t))"
proof -
  have "cb_inv b'"
    using assms(1,3) cb_inv_step [of b "EvAllow t"] by (auto dest: cb_rel_inv)
  with assms cb_rel_mono [OF assms(1,2)] show ?thesis
    by (cases s) (auto simp: cb_rel_def open_expired_iff cb_inv_def cbc_wf_def i64_incr split: if_splits)
qed

lemma cb_rel_success:
  assumes "cb_rel T b s" and "T \<le> t" and "cb_step b (EvSuccess t) = Inr b'"
  shows "cb_rel t b' (spec_step (cb_cfg b) s (EvSuccess t))"
proof -
  have inv: "cb_inv b'"
    using assms(1,3) cb_inv_step [of b "EvSuccess t"] by (auto dest: cb_rel_inv)
  show ?thesis
  proof (cases s)
    case (SpecClosed h)
    then have st: "cb_state b = stateClosed" "hist_ok T h" using assms(1) by (auto simp: cb_rel_def)
    with SpecClosed inv assms cb_rel_closed_record [of T b h t True] show ?thesis
      by (auto intro!: cb_rel_closedI [where t = t] hist_ok_snoc)
  next
    case (SpecHalfOpen k)
    then have "cb_inv b" "cb_state b = stateHalfOpen" "cb_halfOpenTotal b = k"
      using assms(1) by (auto simp: cb_rel_def)
    moreover from this have "i64 (cb_halfOpenTotal b - cb_halfOpenFailures b) = k"
      by (auto simp: cb_inv_def cbc_wf_def in_i64_def max_def split: if_splits)
    ultimately show ?thesis
      using SpecHalfOpen inv assms(3) by (auto simp: cb_rel_def hist_ok_def split: if_splits)
  qed (use assms inv in \<open>auto simp: cb_rel_def\<close>)
qed

lemma cb_rel_failure:
  assumes "cb_rel T b s" and "T \<le> t" and "t \<le> t'" and "cb_step b (EvFailure t t') = Inr b'"
    and "100 * (int (hist_len s) + 1) < 2 ^ 63"
  shows "cb_rel t' b' (spec_step (cb_cfg b) s (EvFailure t t'))"
proof -
  have inv: "cb_inv b'"
    using assms(1,4) cb_inv_step [of b "EvFailure t t'"] by (auto dest: cb_rel_inv)
  show ?thesis
  proof (cases s)
    case (SpecClosed h)
    let ?h = "h @ [\<lparr>ob_at = t, ob_success = False\<rparr>]" and ?b = "cb_record t False b"
    have st: "cb_state b = stateClosed" "hist_ok T h"
      using SpecClosed assms(1) by (auto simp: cb_rel_def)
    have w: "cb_window ?b = recent t ?h"
      using SpecClosed assms(1,2) by (intro cb_rel_closed_record) auto
    have "length (recent t ?h) \<le> length ?h"
      unfolding recent_def by (rule length_filter_le)
    then have "length (cb_window ?b) \<le> Suc (length h)"
      by (simp only: w length_append_singleton)
    then have "cb_maybeTrip t' ?b =
        Inr (if trips (cb_cfg b) (recent t ?h) then cb_transitionTo t' stateOpen ?b else ?b)"
      using maybeTrip_eq [OF record_window_nonempty, of t False b t'] assms(5) SpecClosed w by simp
    then have b': "b' = (if trips (cb_cfg b) (recent t ?h)
        then cb_transitionTo t' stateOpen ?b else ?b)"
      using assms(4) st by (simp split: if_splits)
    have "hist_ok t' ?h"
      using hist_ok_mono [OF hist_ok_snoc [OF st(2) assms(2)] assms(3)] .
    then have "\<not> trips (cb_cfg b) (recent t ?h) \<Longrightarrow> cb_rel t' b' (SpecClosed ?h)"
      using st inv w assms(3) unfolding b' by (intro cb_rel_closedI [where t = t]) auto
    then show ?thesis
      using SpecClosed inv unfolding b' by (auto simp: cb_rel_def [of _ _ "SpecOpen _"] Let_def)
  qed (use assms inv in \<open>auto simp: cb_rel_def\<close>)
qed

lemma cb_step_cfg: "cb_step b e = Inr b' \<Longrightarrow> cb_cfg b' = cb_cfg b"
proof (cases e)
  case (EvFailure t t')
  assume "cb_step b e = Inr b'"
  with EvFailure show ?thesis
    using record_failure_closed [of b t t'] by (cases "cb_state b") auto
qed (auto split: cb_state.splits if_splits)

lemma hist_len_step: "hist_len (spec_step c s e) \<le> Suc (hist_len s)"
  by (cases "(c, s, e)" rule: spec_step.cases) (auto simp: Let_def)

text \<open>A whole run, by induction on the events with both states general.\<close>

lemma cb_refines:
  assumes "cb_rel T b s" and "sorted (T # concat (map ev_times es))"
    and "100 * (int (hist_len s) + int (length es)) < 2 ^ 63"
  shows "cb_trace b es = spec_trace (cb_cfg b) s es"
  using assms
proof (induction es arbitrary: T b s)
  case Nil
  then show ?case by simp
next
  case (Cons e es)
  from Cons.prems(1) obtain b' where b': "cb_step b e = Inr b'"
    using cb_inv_step cb_rel_inv by blast
  obtain T' where T': "T' \<in> insert T (set (ev_times e))" "sorted (T' # concat (map ev_times es))"
      and rel: "cb_rel T' b' (spec_step (cb_cfg b) s e)"
  proof (cases e)
    case (EvAllow t)
    with cb_rel_allow [OF Cons.prems(1), of t b'] Cons.prems b' that [of t] show ?thesis
      by (simp del: cb_step.simps)
  next
    case (EvSuccess t)
    with cb_rel_success [OF Cons.prems(1), of t b'] Cons.prems b' that [of t] show ?thesis
      by (simp del: cb_step.simps)
  next
    case (EvFailure t t')
    with cb_rel_failure [OF Cons.prems(1), of t t' b'] Cons.prems b' that [of t'] show ?thesis
      by (simp del: cb_step.simps)
  qed
  have "cb_trace b' es = spec_trace (cb_cfg b') (spec_step (cb_cfg b) s e) es"
    using Cons.IH [of T' b' "spec_step (cb_cfg b) s e"] T' rel Cons.prems(3)
      hist_len_step [of "cb_cfg b" s e] cb_step_cfg [OF b']
    by simp
  moreover have "cb_decision b e = (case e of EvAllow t \<Rightarrow> [spec_admits (cb_cfg b) s t] | _ \<Rightarrow> [])"
    using cb_rel_decision [OF Cons.prems(1)] by (cases e) auto
  ultimately show ?case
    using b' cb_step_cfg [OF b'] by simp
qed

subsection \<open>The transitions of the state machine\<close>

text \<open>The edges of the diagram, each with the event that may take it.\<close>

inductive cb_edge :: "cb_event \<Rightarrow> cb_state \<Rightarrow> cb_state \<Rightarrow> bool" where
  stay: "cb_edge e s s"
| trip: "cb_edge (EvFailure t t') stateClosed stateOpen"
| probe: "cb_edge (EvAllow t) stateOpen stateHalfOpen"
| recover: "cb_edge (EvSuccess t) stateHalfOpen stateClosed"
| relapse: "cb_edge (EvFailure t t') stateHalfOpen stateOpen"

inductive_simps cb_edge_from_closed: "cb_edge e stateClosed s"
inductive_simps cb_edge_from_open: "cb_edge e stateOpen s"
inductive_simps cb_edge_from_halfOpen: "cb_edge e stateHalfOpen s"

lemmas cb_edge_from = cb_edge_from_closed cb_edge_from_open cb_edge_from_halfOpen

lemma cb_step_edge_aux: "cb_step b e = Inr b' \<Longrightarrow> cb_edge e (cb_state b) (cb_state b')"
proof (cases e)
  case (EvFailure t t')
  assume "cb_step b e = Inr b'"
  with EvFailure show ?thesis
    using record_failure_closed [of b t t'] by (cases "cb_state b") (auto simp: cb_edge_from)
qed (auto simp: cb_edge_from split: cb_state.splits if_splits)

subsection \<open>Probing\<close>

text \<open>While a half-open breaker only sees \<open>Allow\<close> calls it counts them up to the quota.\<close>

lemma halfOpen_allows:
  assumes "cb_inv b" and "cb_state b = stateHalfOpen"
  shows "cb_trace b (map EvAllow ts) =
      map (\<lambda>i. cb_halfOpenTotal b + int i < cbc_HalfOpenRequests (cb_cfg b)) [0..<length ts] \<and>
    (\<exists>b'. run_steps cb_step b (map EvAllow ts) = Inr b' \<and> cb_inv b' \<and>
       cb_cfg b' = cb_cfg b \<and> cb_state b' = stateHalfOpen \<and>
       cb_halfOpenTotal b' = max (cb_halfOpenTotal b)
         (min (cb_halfOpenTotal b + int (length ts)) (cbc_HalfOpenRequests (cb_cfg b))))"
  using assms
proof (induction ts arbitrary: b)
  case Nil
  then show ?case by simp
next
  case (Cons t ts)
  obtain b' where b': "cb_step b (EvAllow t) = Inr b'" "cb_inv b'"
    using cb_inv_step [OF Cons.prems(1)] by blast
  have total: "cb_halfOpenTotal b < cbc_HalfOpenRequests (cb_cfg b) \<Longrightarrow>
      i64 (cb_halfOpenTotal b + 1) = cb_halfOpenTotal b + 1"
    using Cons.prems by (auto simp: cb_inv_def cbc_wf_def i64_incr)
  have f: "cb_cfg b' = cb_cfg b" "cb_state b' = stateHalfOpen"
    "cb_halfOpenTotal b' = (if cb_halfOpenTotal b < cbc_HalfOpenRequests (cb_cfg b)
       then cb_halfOpenTotal b + 1 else cb_halfOpenTotal b)"
    using b'(1) Cons.prems(2) total by (auto split: if_splits)
  show ?case
    using Cons.IH [OF b'(2) f(2)] b'(1) Cons.prems(2) f(1,3)
    by (auto simp add: map_upt_Suc algebra_simps simp del: cb_step.simps upt_Suc)
qed

lemma open_expired_step:
  assumes "cb_inv b" and "cb_state b = stateOpen"
    and "secondsToDuration (cbc_OpenDurationSeconds (cb_cfg b)) < t - cb_openAt b"
  shows "cb_decision b (EvAllow t) = [True]"
    and "\<exists>b'. cb_step b (EvAllow t) = Inr b' \<and> cb_inv b' \<and> cb_cfg b' = cb_cfg b \<and>
       cb_state b' = stateHalfOpen \<and> cb_halfOpenTotal b' = 0"
  using assms cb_inv_step [OF assms(1), of "EvAllow t"] by (simp_all add: open_expired_iff)

subsection \<open>Properties\<close>

text \<open>
  C31. A breaker built from any 64-bit configuration survives every sequence of \<open>Allow\<close>,
  \<open>RecordSuccess\<close> and \<open>RecordFailure\<close> calls at any clock readings: no call panics (the
  percentage never divides by zero) and the invariant \<open>cb_inv\<close> holds afterwards.
\<close>

theorem breaker_never_panics:
  assumes "cbc_wf c" and "snd (cb_New (Some c)) = Some b"
  shows "\<exists>b'. run_steps cb_step b es = Inr b' \<and> cb_inv b'"
  using cb_New_inv [OF assms] by (rule breaker.run_ok)

definition example_cfg :: CircuitBreakerConfig where
  "example_cfg = \<lparr>cbc_FailureThreshold = 50, cbc_MinRequests = 2,
     cbc_OpenDurationSeconds = 1, cbc_HalfOpenRequests = 2\<rparr>"

definition example_breaker :: Breaker where
  "example_breaker = \<lparr>cb_cfg = example_cfg, cb_state = stateClosed, cb_openAt = zeroTime,
     cb_window = [], cb_halfOpenTotal = 0, cb_halfOpenFailures = 0\<rparr>"

lemma example_cfg_wf: "cbc_wf example_cfg"
  by (simp add: cbc_wf_def example_cfg_def in_i64_def)

lemma example_New: "cb_New (Some example_cfg) = (Some example_cfg, Some example_breaker)"
  by (simp add: cb_New_def example_breaker_def example_cfg_def cb_defaults_def Let_def)

theorem breaker_never_panics_witness:
  "cbc_wf example_cfg \<and> snd (cb_New (Some example_cfg)) = Some example_breaker \<and>
   (\<exists>b'. run_steps cb_step example_breaker [EvFailure 1 1, EvFailure 2 2, EvAllow 3] = Inr b' \<and>
      cb_inv b')"
  using breaker_never_panics [OF example_cfg_wf, of example_breaker "[EvFailure 1 1, EvFailure 2 2, EvAllow 3]"]
  by (simp add: example_New example_cfg_wf del: run_steps.simps)

text \<open>
  C7. Refinement: over every run whose clock readings do not go backwards, a new breaker takes
  exactly the decisions of the specification that keeps the whole history of reports since the
  last close and trips when, among the reports of the last ten seconds, there are at least
  \<open>MinRequests\<close> and at least \<open>FailureThreshold\<close> percent are failures. The eviction from the
  front, the truncating division and the counters lose nothing.
\<close>

theorem breaker_refines_history:
  assumes "cbc_wf c" and "cb_New (Some c) = (Some c', Some b)"
    and "sorted (concat (map ev_times es))" and "100 * int (length es) < 2 ^ 63"
  shows "cb_trace b es = spec_trace c' (SpecClosed []) es"
proof -
  define T where "T = (case concat (map ev_times es) of [] \<Rightarrow> 0 | t # _ \<Rightarrow> t)"
  have "cb_inv b" using assms(1,2) cb_New_inv by simp
  then have "cb_rel T b (SpecClosed [])"
    using assms(2) by (intro cb_rel_closedI) (auto simp: cb_New_def hist_ok_def recent_def Let_def)
  moreover have "sorted (T # concat (map ev_times es))"
  proof -
    have "sorted xs \<Longrightarrow> sorted ((case xs of [] \<Rightarrow> 0 | t # _ \<Rightarrow> t) # xs)" for xs :: "time list"
      by (cases xs) auto
    then show ?thesis unfolding T_def using assms(3) by blast
  qed
  moreover have "cb_cfg b = c'" using assms(2) by (auto simp: cb_New_def Let_def)
  ultimately show ?thesis using cb_refines assms(4) by auto
qed

definition example_run :: "cb_event list" where
  "example_run = [EvSuccess 1, EvFailure 2 2, EvAllow 3, EvAllow 1000000003, EvAllow 1000000004,
     EvAllow 1000000005, EvAllow 1000000006, EvSuccess 1000000007, EvAllow 1000000008]"

theorem breaker_refines_history_witness:
  "cb_trace example_breaker example_run = [False, True, True, True, False, True]"
proof -
  have "spec_trace example_cfg (SpecClosed []) example_run = [False, True, True, True, False, True]"
    by (simp add: example_run_def example_cfg_def trips_def recent_def rollingWindow_def
        time_Second_def secondsToDuration_def i64_small Let_def)
  then show ?thesis
    using breaker_refines_history [OF example_cfg_wf example_New, of example_run]
    by (simp add: example_run_def)
qed

text \<open>
  A tripped breaker fails fast: as long as no call is made later than the configured open
  duration after the trip, every \<open>Allow\<close> is refused and no report changes the breaker.
\<close>

theorem breaker_open_fails_fast:
  assumes "cb_state b = stateOpen"
    and "\<forall>t \<in> set (concat (map ev_times es)).
      t - cb_openAt b \<le> secondsToDuration (cbc_OpenDurationSeconds (cb_cfg b))"
  shows "run_steps cb_step b es = Inr b \<and> set (cb_trace b es) \<subseteq> {False}"
  using assms
proof (induction es)
  case Nil
  then show ?case by simp
next
  case (Cons e es)
  then have "cb_step b e = Inr b \<and> set (cb_decision b e) \<subseteq> {False}"
    by (cases e) (auto simp: open_expired_iff)
  with Cons show ?case by (simp del: cb_step.simps)
qed

theorem breaker_open_fails_fast_witness:
  "cb_state (cb_transitionTo 5 stateOpen example_breaker) = stateOpen \<and>
   set (cb_trace (cb_transitionTo 5 stateOpen example_breaker)
     [EvAllow 6, EvSuccess 7, EvFailure 8 9, EvAllow 1000000005]) \<subseteq> {False}"
  using breaker_open_fails_fast [of "cb_transitionTo 5 stateOpen example_breaker"
      "[EvAllow 6, EvSuccess 7, EvFailure 8 9, EvAllow 1000000005]"]
  by (simp add: example_breaker_def example_cfg_def secondsToDuration_def time_Second_def i64_small)

text \<open>
  C32. The probes of a recovery: once the open duration has passed, a sequence of \<open>Allow\<close> calls
  with no report in between admits the first call and then \<open>HalfOpenRequests\<close> more, one more
  than the configured number of probe requests (the call that moves the breaker to half-open is
  not counted), and refuses all later ones.
\<close>

theorem breaker_probe_quota:
  assumes "cb_inv b" and "cb_state b = stateOpen"
    and "secondsToDuration (cbc_OpenDurationSeconds (cb_cfg b)) < t - cb_openAt b"
  shows "cb_trace b (map EvAllow (t # ts)) =
    True # map (\<lambda>i. int i < cbc_HalfOpenRequests (cb_cfg b)) [0..<length ts]"
proof -
  from open_expired_step(2) [OF assms] obtain b' where b': "cb_step b (EvAllow t) = Inr b'"
    "cb_inv b'" "cb_cfg b' = cb_cfg b" "cb_state b' = stateHalfOpen" "cb_halfOpenTotal b' = 0"
    by blast
  then show ?thesis
    using open_expired_step(1) [OF assms] halfOpen_allows [OF b'(2,4), of ts]
    by (simp del: cb_step.simps cb_decision.simps)
qed

lemma example_open_inv: "cb_inv (cb_transitionTo 5 stateOpen example_breaker)"
  using example_cfg_wf by (simp add: cb_inv_def example_breaker_def)

theorem breaker_probe_quota_witness:
  "cb_trace (cb_transitionTo 5 stateOpen example_breaker)
     [EvAllow 1000000006, EvAllow 1000000007, EvAllow 1000000008, EvAllow 1000000009] =
   [True, True, True, False]"
  using breaker_probe_quota [OF example_open_inv, of 1000000006 "[1000000007, 1000000008, 1000000009]"]
  by (simp add: example_breaker_def example_cfg_def secondsToDuration_def time_Second_def i64_small)

text \<open>
  The half-open breaker closes on one success: after the quota of probes has been admitted,
  a single reported success closes the circuit although all the other probes are still
  outstanding; the code compares the admitted probes, not the successful ones, with
  \<open>HalfOpenRequests\<close>.
\<close>

theorem breaker_closes_on_one_success:
  assumes "cb_inv b" and "cb_state b = stateOpen"
    and "secondsToDuration (cbc_OpenDurationSeconds (cb_cfg b)) < t - cb_openAt b"
    and "cbc_HalfOpenRequests (cb_cfg b) \<le> int (length ts)"
  shows "\<exists>b'. run_steps cb_step b (map EvAllow (t # ts) @ [EvSuccess t']) = Inr b' \<and>
    cb_state b' = stateClosed"
proof -
  from open_expired_step(2) [OF assms(1-3)] obtain b1 where b1: "cb_step b (EvAllow t) = Inr b1"
    "cb_inv b1" "cb_cfg b1 = cb_cfg b" "cb_state b1 = stateHalfOpen" "cb_halfOpenTotal b1 = 0"
    by blast
  from halfOpen_allows [OF b1(2,4), of ts] obtain b2 where
    b2: "run_steps cb_step b1 (map EvAllow ts) = Inr b2" "cb_inv b2" "cb_cfg b2 = cb_cfg b"
      "cb_state b2 = stateHalfOpen" "cbc_HalfOpenRequests (cb_cfg b) \<le> cb_halfOpenTotal b2"
    using assms(4) b1 by auto
  then have "i64 (cb_halfOpenTotal b2 - cb_halfOpenFailures b2) = cb_halfOpenTotal b2"
    by (auto simp: cb_inv_def cbc_wf_def in_i64_def max_def split: if_splits)
  then have "\<exists>b'. cb_step b2 (EvSuccess t') = Inr b' \<and> cb_state b' = stateClosed"
    using b2 by simp
  then show ?thesis
    using b1 b2 by (auto simp: run_steps_append simp del: cb_step.simps)
qed

theorem breaker_closes_on_one_success_witness:
  "\<exists>b'. run_steps cb_step (cb_transitionTo 5 stateOpen example_breaker)
      [EvAllow 1000000006, EvAllow 1000000007, EvAllow 1000000008, EvSuccess 1000000009] = Inr b' \<and>
    cb_state b' = stateClosed"
  using breaker_closes_on_one_success [OF example_open_inv, of 1000000006 "[1000000007, 1000000008]" 1000000009]
  by (simp add: example_breaker_def example_cfg_def secondsToDuration_def time_Second_def i64_small)

text \<open>
  A half-open breaker has no way out of its own: when the quota is used up and no admitted
  request reports back, every \<open>Allow\<close> is refused at every later time and the breaker does not
  change.
\<close>

theorem breaker_halfOpen_stuck:
  assumes "cb_state b = stateHalfOpen"
    and "cbc_HalfOpenRequests (cb_cfg b) \<le> cb_halfOpenTotal b"
  shows "run_steps cb_step b (map EvAllow ts) = Inr b \<and>
    cb_trace b (map EvAllow ts) = replicate (length ts) False"
  using assms by (induction ts) auto

theorem breaker_halfOpen_stuck_witness:
  "cb_trace (example_breaker\<lparr>cb_state := stateHalfOpen, cb_halfOpenTotal := 2\<rparr>)
     [EvAllow 1, EvAllow (10 ^ 18)] = [False, False]"
  using breaker_halfOpen_stuck [of "example_breaker\<lparr>cb_state := stateHalfOpen, cb_halfOpenTotal := 2\<rparr>"
      "[1, 10 ^ 18]"]
  by (simp add: example_breaker_def example_cfg_def)

text \<open>
  Every call takes an edge of the diagram closed, open, half-open: a circuit opens only on
  a failure, becomes half-open only by an \<open>Allow\<close>, closes only on a success, and never goes
  from closed to half-open or from open to closed.
\<close>

theorem breaker_transitions:
  assumes "cb_step b e = Inr b'"
  shows "cb_edge e (cb_state b) (cb_state b')"
  using assms by (rule cb_step_edge_aux)

theorem breaker_transitions_witness:
  "cb_edge (EvAllow 1000000006) stateOpen stateHalfOpen"
  using breaker_transitions [of "cb_transitionTo 5 stateOpen example_breaker" "EvAllow 1000000006"]
  by (simp add: example_breaker_def example_cfg_def secondsToDuration_def time_Second_def
      time_Sub_def in_i64_def i64_small)

end
