(* ===== verification/Gateway.thy ===== *)
theory Gateway
  imports ReverseProxy Auth Tracing Health CircuitBreaker RateLimiter
begin

section \<open>Package proxy: the gateway\<close>

text \<open>
  \<open>internal/proxy/gateway.go\<close>. Routes, backends and health checkers are shared through pointers,
  so the gateway's state has a heap of each and \<open>gw_routes\<close> lists the addresses of the current
  routes; a request keeps the address of its route while the gateway may already run others. The
  libraries the code relies on are the fields of \<open>gwlib\<close>; the clock readings of one request are
  \<open>clocks\<close>.
\<close>

record 'k gwlib =
  gl_redis :: redis_run
  gl_parseRedis :: "string \<Rightarrow> bool"
  gl_parseURL :: "string \<Rightarrow> (string \<times> string) option"
  gl_token :: "'k tokenlib"
  gl_readFile :: "string \<Rightarrow> string option"
  gl_quoteError :: "auth_error \<Rightarrow> string"
  gl_quote :: "string \<Rightarrow> string"

record clocks =
  ck_fill :: time
  ck_limit :: time
  ck_reset :: time
  ck_allow :: time
  ck_report :: time
  ck_open :: time

record 'k route =
  rt_prefix :: string
  rt_strip :: bool
  rt_timeout :: duration
  rt_lb :: balancer
  rt_rl :: limiter
  rt_breakers :: "string \<Rightarrow> Breaker option option"
  rt_checker :: nat
  rt_traced :: bool
  rt_auth :: "('k \<times> MwAuthConfig) option"

record 'k gateway =
  gw_store :: store
  gw_checkers :: "Checker list"
  gw_heap :: "'k route list"
  gw_routes :: "nat list"
  gw_authConfig :: "AuthConfig option"
  gw_traced :: bool

subsection \<open>The core of one route: before the backend is called\<close>

text \<open>\<open>rt.breakers[url]\<close>: a missing entry is the nil breaker, which is the disabled one.\<close>

definition rt_breaker :: "'k route \<Rightarrow> string \<Rightarrow> Breaker option" where
  "rt_breaker rt url = (case rt_breakers rt url of None \<Rightarrow> None | Some b \<Rightarrow> b)"

definition put_breaker :: "string \<Rightarrow> Breaker option \<Rightarrow> 'k route \<Rightarrow> 'k route" where
  "put_breaker url b rt =
     (if rt_breakers rt url = None then rt else rt\<lparr>rt_breakers := (rt_breakers rt)(url \<mapsto> b)\<rparr>)"

definition scheme :: "request \<Rightarrow> string" where
  "scheme r = (if r_TLS r then ''https'' else ''http'')"

definition director_path :: "bool \<Rightarrow> string \<Rightarrow> string \<Rightarrow> string" where
  "director_path strip prefix path =
     (if \<not> strip then path
      else if TrimPrefix path prefix = [] then ''/'' else TrimPrefix path prefix)"

definition gw_director :: "bool \<Rightarrow> string \<Rightarrow> string \<times> string \<Rightarrow> request \<Rightarrow> request" where
  "gw_director strip prefix target req =
     (let r1 = req\<lparr>r_URLScheme := fst target, r_URLHost := snd target\<rparr>;
          r2 = r1\<lparr>r_Path := director_path strip prefix (r_Path r1)\<rparr>;
          prior = header_Get (r_Header r2) ''X-Forwarded-For'';
          r3 = (case SplitHost (r_RemoteAddr r2) of
                  None \<Rightarrow> r2
                | Some ip \<Rightarrow>
                    SetRequestHeader ''X-Forwarded-For'' (if prior \<noteq> [] then prior @ '', '' @ ip else ip) r2)
      in SetRequestHeader ''X-Forwarded-Proto'' (scheme r3) (SetRequestHeader ''X-Forwarded-Host'' (r_Host r3) r3))"

datatype start =
    StartPanic panic
  | StartLimited duration
  | StartNoBackend
  | StartOpen
  | StartBadURL
  | StartForward addr "request option"

definition serve_begin :: "'k gwlib \<Rightarrow> clocks \<Rightarrow> request \<Rightarrow> store \<Rightarrow> 'k route \<Rightarrow> store \<times> 'k route \<times> start" where
  "serve_begin lib ck r st rt =
     (let (rl', res) = rl_Allow (gl_redis lib) (ck_fill ck) (ck_limit ck) r (rt_rl rt);
          rt1 = rt\<lparr>rt_rl := rl'\<rparr>
      in case res of
           Inl p \<Rightarrow> (st, rt1, StartPanic p)
         | Inr (ErrRateLimited d) \<Rightarrow> (st, rt1, StartLimited d)
         | Inr Allowed \<Rightarrow>
             (let (lb', pick) = lb_Next st r (rt_lb rt1);
                  rt2 = rt1\<lparr>rt_lb := lb'\<rparr>
              in case pick of
                   Inl e \<Rightarrow> (st, rt2, StartNoBackend)
                 | Inr a \<Rightarrow>
                     (let url = be_URL (st ! a);
                          (cb', err) = cb_Allow (ck_allow ck) (rt_breaker rt2 url);
                          rt3 = put_breaker url cb' rt2
                      in case err of
                           Some e \<Rightarrow> (st, rt3, StartOpen)
                         | None \<Rightarrow>
                             (let st1 = be_Inc st a
                              in case gl_parseURL lib url of
                                   None \<Rightarrow> (be_Dec st1 a, rt3, StartBadURL)
                                 | Some target \<Rightarrow>
                                     (st1, rt3,
                                      StartForward a (rp_outgoing (gw_director (rt_strip rt3) (rt_prefix rt3) target) r))))))"

subsection \<open>The core of one route: the backend's answer\<close>

text \<open>\<open>ErrorHandler\<close> and the failing half of \<open>ModifyResponse\<close>.\<close>

definition report_failure :: "clocks \<Rightarrow> addr \<Rightarrow> store \<Rightarrow> 'k route \<Rightarrow> panic + store \<times> 'k route" where
  "report_failure ck a st rt =
     (let url = be_URL (st ! a)
      in case cb_RecordFailure (ck_report ck) (ck_open ck) (rt_breaker rt url) of
           Inl p \<Rightarrow> Inl p
         | Inr b \<Rightarrow> Inr (be_SetAlive st a False, put_breaker url b rt))"

definition report_success :: "clocks \<Rightarrow> addr \<Rightarrow> store \<Rightarrow> 'k route \<Rightarrow> store \<times> 'k route" where
  "report_success ck a st rt =
     (let url = be_URL (st ! a)
      in (be_SetAlive st a True, put_breaker url (cb_RecordSuccess (ck_report ck) (rt_breaker rt url)) rt))"

definition bad_gateway :: "clocks \<Rightarrow> addr \<Rightarrow> store \<Rightarrow> 'k route \<Rightarrow> writer \<Rightarrow>
    store \<times> 'k route \<times> writer \<times> log_entry list \<times> panic option" where
  "bad_gateway ck a st rt w =
     (let entry = [ErrorLine ''upstream error'' (be_URL (st ! a))]
      in case report_failure ck a st rt of
           Inl p \<Rightarrow> (st, rt, w, entry, Some p)
         | Inr (st1, rt1) \<Rightarrow> (st1, rt1, http_Error ''bad gateway'' 502 w, entry, None))"

text \<open>
  \<open>ModifyResponse\<close>, and after it what the reverse proxy does with the response. A 101 cannot be
  served: the wrappers around the response writer hide its \<open>Hijacker\<close>, so the error handler runs.
\<close>

definition serve_response :: "clocks \<Rightarrow> addr \<Rightarrow> int \<Rightarrow> header \<Rightarrow> string \<Rightarrow> bool \<Rightarrow> store \<Rightarrow> 'k route \<Rightarrow> writer \<Rightarrow>
    store \<times> 'k route \<times> writer \<times> log_entry list \<times> panic option" where
  "serve_response ck a code h body broken st rt w =
     (let h1 = (if code = 101 then h else removeHopByHop h);
          h2 = header_Set h1 ''X-Gateway-Backend'' (be_URL (st ! a))
      in case (if 500 \<le> code then report_failure ck a st rt else Inr (report_success ck a st rt)) of
           Inl p \<Rightarrow> (st, rt, w, [], Some p)
         | Inr (st1, rt1) \<Rightarrow>
             if code = 101 then bad_gateway ck a st1 rt1 w
             else (case rp_respond code h2 body broken w of (w1, p) \<Rightarrow> (st1, rt1, w1, [], p)))"

text \<open>The deferred \<open>backend.Dec()\<close> runs on every way out.\<close>

definition serve_end :: "clocks \<Rightarrow> addr \<Rightarrow> upstream \<Rightarrow> store \<Rightarrow> 'k route \<Rightarrow> writer \<Rightarrow>
    store \<times> 'k route \<times> writer \<times> log_entry list \<times> panic option" where
  "serve_end ck a up st rt w =
     (let (st1, rest) =
        (case up of
           UpError \<Rightarrow> bad_gateway ck a st rt w
         | UpResponse code h body broken \<Rightarrow> serve_response ck a code h body broken st rt w)
      in (be_Dec st1 a, rest))"

subsection \<open>The handler\<close>

text \<open>\<open>fmt.Sprintf("%.0f", x)\<close>.\<close>

fun format_f0 :: "float64 \<Rightarrow> string" where
  "format_f0 (Fin x) = (if x < 0 then CHR ''-'' # itoa (half_even (- x)) else itoa (half_even x))"
| "format_f0 PInf = ''+Inf''"
| "format_f0 NInf = ''-Inf''"
| "format_f0 NaN = ''NaN''"

definition limited_response :: "clocks \<Rightarrow> duration \<Rightarrow> writer \<Rightarrow> writer" where
  "limited_response ck d w =
     http_Error ''too many requests'' 429
       (w_SetHeader ''X-RateLimit-Reset'' (itoa (time_Unix (ck_reset ck + d)))
         (w_SetHeader ''Retry-After'' (format_f0 (duration_Seconds d)) w))"

definition dash :: string where
  "dash = [CHR 0xE2, CHR 0x80, CHR 0x94]"

definition set_route :: "nat \<Rightarrow> store \<Rightarrow> 'k route \<Rightarrow> 'k gateway \<Rightarrow> 'k gateway" where
  "set_route ra st rt g = g\<lparr>gw_store := st, gw_heap := (gw_heap g)[ra := rt]\<rparr>"

text \<open>\<open>upstream\<close> is the network: what comes back for an outgoing request to a backend.\<close>

definition serveProxy :: "'k gwlib \<Rightarrow> clocks \<Rightarrow> (addr \<Rightarrow> request \<Rightarrow> upstream) \<Rightarrow> nat \<Rightarrow> 'k gateway handler" where
  "serveProxy lib ck upstream ra wd r w =
     (let g = wd_gw wd;
          (st, rt, start) = serve_begin lib ck r (gw_store g) (gw_heap g ! ra);
          wd1 = wd\<lparr>wd_gw := set_route ra st rt g\<rparr>
      in case start of
           StartPanic p \<Rightarrow> (wd1, r, w, Some p)
         | StartLimited d \<Rightarrow> (wd1, r, limited_response ck d w, None)
         | StartNoBackend \<Rightarrow>
             (wd1\<lparr>wd_log := wd_log wd1 @ [ErrorLine ''no healthy backend'' (rt_prefix rt)]\<rparr>, r,
              http_Error (''service unavailable '' @ dash @ '' no healthy backends'') 503 w, None)
         | StartOpen \<Rightarrow> (wd1, r, http_Error (''service unavailable '' @ dash @ '' circuit open'') 503 w, None)
         | StartBadURL \<Rightarrow> (wd1, r, http_Error ''bad gateway'' 502 w, None)
         | StartForward a out \<Rightarrow>
             (case serve_end ck a (case out of None \<Rightarrow> UpError | Some o' \<Rightarrow> upstream a o') st rt w of
                (st2, rt2, w2, entries, p) \<Rightarrow>
                  (wd1\<lparr>wd_log := wd_log wd1 @ entries, wd_gw := set_route ra st2 rt2 (wd_gw wd1)\<rparr>, r, w2, p)))"

text \<open>What one request draws from the clock and the random generators, middleware by middleware.\<close>

record req_env =
  en_uuid :: string
  en_hex32 :: string
  en_hex16 :: string
  en_trace :: "time \<times> time"
  en_log :: "time \<times> time"
  en_metrics :: "time \<times> time"
  en_auth :: time
  en_clocks :: clocks

definition route_chain :: "'k gwlib \<Rightarrow> req_env \<Rightarrow> 'k route \<Rightarrow> ('k gateway handler \<Rightarrow> 'k gateway handler) list" where
  "route_chain lib env rt =
     [RequestID (en_uuid env)] @
     (if rt_traced rt then [Tracing (en_hex32 env) (en_hex16 env) (fst (en_trace env)) (snd (en_trace env))] else []) @
     [Logger (fst (en_log env)) (snd (en_log env)),
      Metrics (rt_prefix rt) (fst (en_metrics env)) (snd (en_metrics env))] @
     (case rt_auth rt of
        None \<Rightarrow> []
      | Some (key, cfg) \<Rightarrow> [AuthHandler (gl_token lib) key cfg (gl_quoteError lib) (en_auth env)])"

definition route_handler :: "'k gwlib \<Rightarrow> req_env \<Rightarrow> (addr \<Rightarrow> request \<Rightarrow> upstream) \<Rightarrow> nat \<Rightarrow> 'k route \<Rightarrow> 'k gateway handler" where
  "route_handler lib env upstream ra rt =
     Chain (serveProxy lib (en_clocks env) upstream ra) (route_chain lib env rt)"

text \<open>The loop of \<open>Gateway.ServeHTTP\<close> over the routes, and its dispatch.\<close>

fun match_route :: "'k route list \<Rightarrow> string \<Rightarrow> nat list \<Rightarrow> nat option \<Rightarrow> nat option" where
  "match_route heap path [] matched = matched"
| "match_route heap path (ra # ras) matched =
     match_route heap path ras
       (if HasPrefix path (rt_prefix (heap ! ra)) \<and>
           (case matched of None \<Rightarrow> True | Some m \<Rightarrow> length (rt_prefix (heap ! m)) < length (rt_prefix (heap ! ra)))
        then Some ra else matched)"

definition gateway_ServeHTTP :: "'k gwlib \<Rightarrow> req_env \<Rightarrow> (addr \<Rightarrow> request \<Rightarrow> upstream) \<Rightarrow> 'k gateway handler" where
  "gateway_ServeHTTP lib env upstream wd r w =
     (let g = wd_gw wd
      in case match_route (gw_heap g) (r_Path r) (gw_routes g) None of
           None \<Rightarrow> (wd, r, http_Error ''no route matched'' 404 w, None)
         | Some ra \<Rightarrow> route_handler lib env upstream ra (gw_heap g ! ra) wd r w)"

text \<open>The main server's handler (\<open>cmd/gateway/main.go\<close>).\<close>

definition main_handler :: "'k gwlib \<Rightarrow> req_env \<Rightarrow> (addr \<Rightarrow> request \<Rightarrow> upstream) \<Rightarrow> 'k gateway handler" where
  "main_handler lib env upstream = Recovery (gateway_ServeHTTP lib env upstream)"

end
