(* ===== verification/Routes.thy ===== *)
theory Routes
  imports Gateway
begin

section \<open>Package proxy: building and reloading the routes\<close>

text \<open>
  The second half of \<open>internal/proxy/gateway.go\<close>: \<open>buildRoute\<close>, which starts a health checker as
  it goes, \<open>NewGateway\<close>, \<open>Reload\<close>, and the handlers of the admin server.
\<close>

subsection \<open>Construction\<close>

text \<open>One breaker per backend URL; \<open>circuitbreaker.New\<close> fills the shared configuration in place.\<close>

fun buildBreakers :: "CircuitBreakerConfig option \<Rightarrow> BackendConfig list \<Rightarrow> (string \<Rightarrow> Breaker option option) \<Rightarrow>
    (string \<Rightarrow> Breaker option option)" where
  "buildBreakers cfg [] m = m"
| "buildBreakers cfg (b # bs) m =
     (case cb_New cfg of (cfg', cb) \<Rightarrow> buildBreakers cfg' bs (m(bc_URL b \<mapsto> cb)))"

datatype route_error =
    LimiterError rl_error
  | AuthError key_error

text \<open>The key of the route's authentication, if it has any.\<close>

definition route_auth :: "'k gwlib \<Rightarrow> AuthConfig option \<Rightarrow> key_error + ('k \<times> MwAuthConfig) option" where
  "route_auth lib auth =
     (case auth of
        None \<Rightarrow> Inr None
      | Some a \<Rightarrow>
          if \<not> au_Enabled a then Inr None
          else (let cfg = \<lparr>ma_Enabled = au_Enabled a, ma_PublicKeyPath = au_PublicKeyPath a,
                           ma_SkipPaths = au_SkipPaths a\<rparr>
                in map_sum id (map_option (\<lambda>k. (k, cfg))) (NewAuthMiddleware (gl_token lib) (gl_readFile lib) cfg)))"

text \<open>A route in the making changes the gateway's heaps even when it fails.\<close>

definition buildRoute :: "'k gwlib \<Rightarrow> RouteConfig \<Rightarrow> 'k gateway \<Rightarrow> 'k gateway \<times> (route_error + nat)" where
  "buildRoute lib cfg g =
     (let (st, lb) = lb_New (gw_store g) (rc_LBAlgorithm cfg) (rc_Backends cfg);
          g1 = g\<lparr>gw_store := st\<rparr>
      in case rl_New (gl_parseRedis lib) (rc_RateLimit cfg) of
           Inl e \<Rightarrow> (g1, Inl (LimiterError e))
         | Inr rl \<Rightarrow>
             (let breakers = buildBreakers (rc_CircuitBreaker cfg) (rc_Backends cfg) Map.empty;
                  ch = length (gw_checkers g1);
                  g2 = g1\<lparr>gw_checkers := gw_checkers g1 @ [health_New (lb_Backends lb)]\<rparr>
              in case route_auth lib (gw_authConfig g2) of
                   Inl e \<Rightarrow> (g2, Inl (AuthError e))
                 | Inr auth \<Rightarrow>
                     (let rt = \<lparr>rt_prefix = rc_PathPrefix cfg, rt_strip = rc_StripPrefix cfg,
                                rt_timeout = secondsToDuration (rc_TimeoutSeconds cfg), rt_lb = lb, rt_rl = rl,
                                rt_breakers = breakers, rt_checker = ch, rt_traced = gw_traced g2, rt_auth = auth\<rparr>
                      in (g2\<lparr>gw_heap := gw_heap g2 @ [rt]\<rparr>, Inr (length (gw_heap g2))))))"

fun buildRoutes :: "'k gwlib \<Rightarrow> nat \<Rightarrow> RouteConfig list \<Rightarrow> 'k gateway \<Rightarrow>
    'k gateway \<times> (nat \<times> string \<times> route_error + nat list)" where
  "buildRoutes lib i [] g = (g, Inr [])"
| "buildRoutes lib i (c # cs) g =
     (case buildRoute lib c g of
        (g1, Inl e) \<Rightarrow> (g1, Inl (i, rc_PathPrefix c, e))
      | (g1, Inr ra) \<Rightarrow> map_prod id (map_sum id (\<lambda>ras. ra # ras)) (buildRoutes lib (Suc i) cs g1))"

definition NewGateway :: "'k gwlib \<Rightarrow> Config \<Rightarrow> AuthConfig option \<Rightarrow> bool \<Rightarrow>
    nat \<times> string \<times> route_error + 'k gateway" where
  "NewGateway lib cfg auth traced =
     (let g0 = \<lparr>gw_store = [], gw_checkers = [], gw_heap = [], gw_routes = [], gw_authConfig = auth, gw_traced = traced\<rparr>
      in case buildRoutes lib 0 (cfg_Routes cfg) g0 of
           (g, Inl e) \<Rightarrow> Inl e
         | (g, Inr ras) \<Rightarrow> Inr (g\<lparr>gw_routes := ras\<rparr>))"

text \<open>\<open>main\<close>: authentication and tracing as the initial configuration says.\<close>

definition main_gateway :: "'k gwlib \<Rightarrow> Config \<Rightarrow> nat \<times> string \<times> route_error + 'k gateway" where
  "main_gateway lib cfg =
     NewGateway lib cfg (if au_Enabled (cfg_Auth cfg) then Some (cfg_Auth cfg) else None) (tc_Enabled (cfg_Tracing cfg))"

subsection \<open>Reload\<close>

text \<open>The loop over the old routes: checkers of removed prefixes are stopped.\<close>

fun stopRemoved :: "string set \<Rightarrow> 'k route list \<Rightarrow> nat list \<Rightarrow> Checker list \<Rightarrow> Checker list" where
  "stopRemoved newPrefixes heap [] cs = cs"
| "stopRemoved newPrefixes heap (ra # ras) cs =
     stopRemoved newPrefixes heap ras
       (if rt_prefix (heap ! ra) \<notin> newPrefixes
        then cs[rt_checker (heap ! ra) := health_Stop (cs ! rt_checker (heap ! ra))] else cs)"

definition Reload :: "'k gwlib \<Rightarrow> Config \<Rightarrow> 'k gateway \<Rightarrow> 'k gateway \<times> (nat \<times> string \<times> route_error) option" where
  "Reload lib cfg g =
     (case buildRoutes lib 0 (cfg_Routes cfg) g of
        (g1, Inl e) \<Rightarrow> (g1, Some e)
      | (g1, Inr ras) \<Rightarrow>
          (let old = gw_routes g1;
               newPrefixes = set (map (\<lambda>ra. rt_prefix (gw_heap g1 ! ra)) ras)
           in (g1\<lparr>gw_routes := ras, gw_checkers := stopRemoved newPrefixes (gw_heap g1) old (gw_checkers g1)\<rparr>, None)))"

subsection \<open>The admin server's handlers\<close>

definition healthz :: "'k gateway handler" where
  "healthz wd r w = (wd, r, w_Write ''{\"status\":\"ok\"}'' (w_WriteHeader 200 w), None)"

definition readyz :: "'k gateway handler" where
  "readyz wd r w =
     (let g = wd_gw wd
      in if list_ex (\<lambda>ra. list_ex (be_IsAlive (gw_store g)) (lb_Backends (rt_lb (gw_heap g ! ra)))) (gw_routes g)
         then (wd, r, w_Write ''{\"status\":\"ready\"}'' (w_WriteHeader 200 w), None)
         else (wd, r, http_Error ''{\"status\":\"not_ready\",\"reason\":\"no healthy backends\"}'' 503 w, None))"

fun comma_separated :: "string list \<Rightarrow> string" where
  "comma_separated [] = []"
| "comma_separated [s] = s"
| "comma_separated (s # t # ss) = s @ '','' @ comma_separated (t # ss)"

definition backend_json :: "'k gwlib \<Rightarrow> store \<Rightarrow> 'k route \<Rightarrow> addr \<Rightarrow> string" where
  "backend_json lib st rt a =
     (let url = be_URL (st ! a);
          cbState = (case rt_breakers rt url of None \<Rightarrow> ''disabled'' | Some b \<Rightarrow> cb_State b)
      in ''{\"url\":'' @ gl_quote lib url @ '',\"alive\":'' @ (if be_IsAlive st a then ''true'' else ''false'') @
         '',\"inflight\":'' @ itoa (be_Inflight st a) @ '',\"circuit_breaker\":'' @ gl_quote lib cbState @ ''}'')"

definition route_json :: "'k gwlib \<Rightarrow> store \<Rightarrow> 'k route \<Rightarrow> string" where
  "route_json lib st rt =
     ''{\"route\":'' @ gl_quote lib (rt_prefix rt) @ '',\"backends\":['' @
     comma_separated (map (backend_json lib st rt) (lb_Backends (rt_lb rt))) @ '']}''"

definition backendsHandler :: "'k gwlib \<Rightarrow> 'k gateway handler" where
  "backendsHandler lib wd r w =
     (let g = wd_gw wd
      in (wd, r,
          w_Write (''['' @ comma_separated (map (\<lambda>ra. route_json lib (gw_store g) (gw_heap g ! ra)) (gw_routes g)) @ '']'')
            (w_SetHeader ''Content-Type'' ''application/json'' w), None))"

end
