(* ===== verification/GatewayProps.thy ===== *)
theory GatewayProps
  imports Routes
begin

section \<open>The gateway's request path\<close>

subsection \<open>Dispatch\<close>

lemma match_route_spec:
  "match_route heap path ras m = Some ra \<Longrightarrow>
     (m = Some ra \<or> ra \<in> set ras \<and> HasPrefix path (rt_prefix (heap ! ra))) \<and>
     (\<forall>m'. m = Some m' \<longrightarrow> length (rt_prefix (heap ! m')) \<le> length (rt_prefix (heap ! ra))) \<and>
     (\<forall>ra' \<in> set ras. HasPrefix path (rt_prefix (heap ! ra')) \<longrightarrow>
        length (rt_prefix (heap ! ra')) \<le> length (rt_prefix (heap ! ra)))"
proof (induction ras arbitrary: m)
  case Nil
  then show ?case by simp
next
  case (Cons a ras)
  let ?m = "if HasPrefix path (rt_prefix (heap ! a)) \<and>
      (case m of None \<Rightarrow> True | Some m \<Rightarrow> length (rt_prefix (heap ! m)) < length (rt_prefix (heap ! a)))
    then Some a else m"
  from Cons.prems have "match_route heap path ras ?m = Some ra" by simp
  note IH = Cons.IH [OF this]
  show ?case
  proof (cases m)
    case None
    with IH show ?thesis by (auto split: if_splits)
  next
    case (Some b)
    with IH show ?thesis by (auto split: if_splits)
  qed
qed

lemma match_route_None:
  "match_route heap path ras m = None \<longleftrightarrow> m = None \<and> (\<forall>ra \<in> set ras. \<not> HasPrefix path (rt_prefix (heap ! ra)))"
  by (induction ras arbitrary: m) (auto split: option.splits)

text \<open>
  C14. A request goes to a route with the longest prefix of its path, and gets a 404 exactly when
  no route's prefix is one. A 404 is answered outside every middleware: it carries no request
  ID and is neither logged nor counted.
\<close>

theorem dispatch_longest_prefix:
  "(\<exists>ra \<in> set (gw_routes (wd_gw wd)).
      HasPrefix (r_Path r) (rt_prefix (gw_heap (wd_gw wd) ! ra)) \<and>
      (\<forall>rb \<in> set (gw_routes (wd_gw wd)). HasPrefix (r_Path r) (rt_prefix (gw_heap (wd_gw wd) ! rb)) \<longrightarrow>
         length (rt_prefix (gw_heap (wd_gw wd) ! rb)) \<le> length (rt_prefix (gw_heap (wd_gw wd) ! ra))) \<and>
      gateway_ServeHTTP lib env upstream wd r w =
        route_handler lib env upstream ra (gw_heap (wd_gw wd) ! ra) wd r w) \<or>
    (\<forall>ra \<in> set (gw_routes (wd_gw wd)). \<not> HasPrefix (r_Path r) (rt_prefix (gw_heap (wd_gw wd) ! ra))) \<and>
      gateway_ServeHTTP lib env upstream wd r w = (wd, r, http_Error ''no route matched'' 404 w, None)"
proof (cases "match_route (gw_heap (wd_gw wd)) (r_Path r) (gw_routes (wd_gw wd)) None")
  case None
  with iffD1 [OF match_route_None None] show ?thesis by (simp add: gateway_ServeHTTP_def Let_def)
next
  case (Some ra)
  with match_route_spec [OF Some] show ?thesis by (auto simp: gateway_ServeHTTP_def Let_def)
qed

subsection \<open>Example\<close>

definition example_lib :: "nat gwlib" where
  "example_lib = \<lparr>gl_redis = (\<lambda>k now window limit. None), gl_parseRedis = (\<lambda>u. True),
     gl_parseURL = (\<lambda>u. if u = ''http://a'' then Some (''http'', ''a'') else None), gl_token = toy_lib,
     gl_readFile = (\<lambda>p. None), gl_quoteError = (\<lambda>e. []), gl_quote = (\<lambda>s. s)\<rparr>"

definition example_clocks :: "time \<Rightarrow> clocks" where
  "example_clocks t = \<lparr>ck_fill = t, ck_limit = t, ck_reset = t, ck_allow = t, ck_report = t, ck_open = t\<rparr>"

definition example_backends :: store where
  "example_backends = [\<lparr>be_URL = ''http://a'', be_Weight = 1, be_alive = True, be_inflight = 0\<rparr>]"

definition example_route :: "nat route" where
  "example_route = \<lparr>rt_prefix = ''/api'', rt_strip = True, rt_timeout = 30 * time_Second,
     rt_lb = RoundRobin \<lparr>rr_backends = [0], rr_counter = 0\<rparr>, rt_rl = NoopLimiter,
     rt_breakers = [''http://a'' \<mapsto> None], rt_checker = 0, rt_traced = False, rt_auth = None\<rparr>"

definition example_gateway :: "nat gateway" where
  "example_gateway = \<lparr>gw_store = example_backends, gw_checkers = [health_New [0]], gw_heap = [example_route],
     gw_routes = [0], gw_authConfig = None, gw_traced = False\<rparr>"

definition example_env :: req_env where
  "example_env = \<lparr>en_uuid = ''u'', en_hex32 = ''t'', en_hex16 = ''s'', en_trace = (0, 1), en_log = (0, 1),
     en_metrics = (0, 1), en_auth = 0, en_clocks = example_clocks 0\<rparr>"

definition example_world :: "nat gateway world" where
  "example_world = \<lparr>wd_log = [], wd_requestsTotal = [], wd_requestDuration = [], wd_traces = None, wd_gw = example_gateway\<rparr>"

theorem dispatch_longest_prefix_witness:
  "gateway_ServeHTTP example_lib example_env (\<lambda>a r. UpError) example_world (get_request ''/other'') new_writer =
    (example_world, get_request ''/other'', http_Error ''no route matched'' 404 new_writer, None)"
  using dispatch_longest_prefix [of example_world "get_request ''/other''" example_lib example_env "\<lambda>a r. UpError" new_writer]
  by (auto simp: example_world_def example_gateway_def example_route_def get_request_def)

subsection \<open>The gates before the backend\<close>

lemma put_breaker_fields [simp]:
  "rt_lb (put_breaker url b rt) = rt_lb rt" "rt_prefix (put_breaker url b rt) = rt_prefix rt"
  "rt_strip (put_breaker url b rt) = rt_strip rt" "rt_rl (put_breaker url b rt) = rt_rl rt"
  "rt_checker (put_breaker url b rt) = rt_checker rt"
  by (simp_all add: put_breaker_def)

text \<open>The gates a request passes, and what each leaves behind.\<close>

definition gates :: "'k gwlib \<Rightarrow> clocks \<Rightarrow> request \<Rightarrow> store \<Rightarrow> 'k route \<Rightarrow> store \<Rightarrow> 'k route \<Rightarrow> start \<Rightarrow> bool" where
  "gates lib ck r st rt st' rt' start =
     (let verdict = snd (rl_Allow (gl_redis lib) (ck_fill ck) (ck_limit ck) r (rt_rl rt));
          alive = healthy st (lb_Backends (rt_lb rt))
      in case start of
           StartPanic p \<Rightarrow> verdict = Inl p \<and> st' = st \<and> rt_lb rt' = rt_lb rt \<and> rt_breakers rt' = rt_breakers rt
         | StartLimited d \<Rightarrow>
             verdict = Inr (ErrRateLimited d) \<and> st' = st \<and> rt_lb rt' = rt_lb rt \<and> rt_breakers rt' = rt_breakers rt
         | StartNoBackend \<Rightarrow>
             verdict = Inr Allowed \<and> alive = [] \<and> st' = st \<and> rt_breakers rt' = rt_breakers rt
         | StartOpen \<Rightarrow>
             verdict = Inr Allowed \<and> st' = st \<and>
             list_ex (\<lambda>a. snd (cb_Allow (ck_allow ck) (rt_breaker rt (be_URL (st ! a)))) \<noteq> None) alive
         | StartBadURL \<Rightarrow>
             verdict = Inr Allowed \<and>
             list_ex (\<lambda>a. gl_parseURL lib (be_URL (st ! a)) = None \<and> st' = be_Dec (be_Inc st a) a) alive
         | StartForward a out \<Rightarrow>
             verdict = Inr Allowed \<and> a \<in> set alive \<and>
             snd (cb_Allow (ck_allow ck) (rt_breaker rt (be_URL (st ! a)))) = None \<and> st' = be_Inc st a)"

lemma serve_begin_gates:
  assumes "lb_ok (rt_lb rt)" and "serve_begin lib ck r st rt = (st', rt', start)"
  shows "gates lib ck r st rt st' rt' start \<and> lb_Backends (rt_lb rt') = lb_Backends (rt_lb rt)"
proof -
  obtain rl' verdict where rl: "rl_Allow (gl_redis lib) (ck_fill ck) (ck_limit ck) r (rt_rl rt) = (rl', verdict)"
    by (cases "rl_Allow (gl_redis lib) (ck_fill ck) (ck_limit ck) r (rt_rl rt)")
  show ?thesis
  proof (cases "verdict = Inr Allowed")
    case False
    with rl assms(2) show ?thesis
      by (auto simp: serve_begin_def gates_def Let_def split: sum.splits rl_result.splits)
  next
    case True
    obtain lb' pick where pick: "lb_Next st r (rt_lb rt) = (lb', pick)" by (cases "lb_Next st r (rt_lb rt)")
    have bk: "lb_Backends lb' = lb_Backends (rt_lb rt)" using lb.pick_list [of st r "rt_lb rt"] pick by simp
    have ok: "pick_ok (lb_Backends (rt_lb rt)) st pick" using lb.pick_result [OF assms(1), of st r] pick by simp
    show ?thesis
    proof (cases pick)
      case (Inl e)
      with True rl pick bk ok assms(2) show ?thesis
        by (auto simp: serve_begin_def gates_def pick_ok_def Let_def simp del: set_healthy)
    next
      case (Inr a)
      have alive: "a \<in> set (healthy st (lb_Backends (rt_lb rt)))"
        using ok Inr by (simp add: pick_ok_def del: set_healthy)
      let ?rt2 = "rt\<lparr>rt_rl := rl', rt_lb := lb'\<rparr>"
      have br: "rt_breaker ?rt2 u = rt_breaker rt u" for u by (simp add: rt_breaker_def)
      obtain cb' err where cb: "cb_Allow (ck_allow ck) (rt_breaker rt (be_URL (st ! a))) = (cb', err)"
        by (cases "cb_Allow (ck_allow ck) (rt_breaker rt (be_URL (st ! a)))")
      show ?thesis
      proof (cases err)
        case None
        with True rl pick bk Inr cb alive assms(2) show ?thesis
          by (auto simp: serve_begin_def gates_def br list_ex_iff Let_def split: option.splits simp del: set_healthy)
      next
        case (Some e)
        with True rl pick bk Inr cb alive assms(2) show ?thesis
          by (auto simp: serve_begin_def gates_def br list_ex_iff Let_def simp del: set_healthy intro!: bexI [of _ a])
      qed
    qed
  qed
qed

text \<open>
  C1. The gates stand in order and a closed gate leaves no trace behind it: a request over its
  rate limit touches no balancer, breaker or backend; one without a healthy backend touches no
  breaker; a request is forwarded only to a healthy backend of its route that the strategy chose,
  when the limiter and that backend's breaker admit it, and only then is it counted in flight.
\<close>

theorem request_gates:
  assumes "lb_ok (rt_lb rt)" and "serve_begin lib ck r st rt = (st', rt', start)"
  shows "gates lib ck r st rt st' rt' start \<and> lb_Backends (rt_lb rt') = lb_Backends (rt_lb rt)"
  by (rule serve_begin_gates [OF assms])

lemma example_begin:
  "serve_begin example_lib (example_clocks 5) (get_request ''/api/x'') example_backends example_route =
    (be_Inc example_backends 0, example_route\<lparr>rt_lb := RoundRobin \<lparr>rr_backends = [0], rr_counter = 1\<rparr>\<rparr>,
     StartForward 0 (rp_outgoing (gw_director True ''/api'' (''http'', ''a'')) (get_request ''/api/x'')))"
  by (simp add: serve_begin_def example_route_def example_clocks_def example_backends_def example_lib_def
      rr_Next_def healthy_def be_IsAlive_def rt_breaker_def put_breaker_def Let_def)

theorem request_gates_witness:
  "gates example_lib (example_clocks 5) (get_request ''/api/x'') example_backends example_route
     (be_Inc example_backends 0) (example_route\<lparr>rt_lb := RoundRobin \<lparr>rr_backends = [0], rr_counter = 1\<rparr>\<rparr>)
     (StartForward 0 (rp_outgoing (gw_director True ''/api'' (''http'', ''a'')) (get_request ''/api/x'')))"
  using request_gates [OF _ example_begin] by (simp add: lb_ok_def few_def example_route_def)

text \<open>The one panic of a limiter: the first timestamp of an empty window, or a short answer of Redis.\<close>

lemma limiter_panic: "snd (rl_Allow run t0 now r l) = Inl p \<Longrightarrow> p = IndexOutOfRange"
  by (cases l)
    (auto simp: tl_Allow_def sl_Allow_def sw_take_def rd_Allow_def Let_def split: prod.splits if_splits list.splits option.splits)

lemma begin_panic:
  assumes "serve_begin lib ck r st rt = (st', rt', StartPanic p)"
  shows "snd (rl_Allow (gl_redis lib) (ck_fill ck) (ck_limit ck) r (rt_rl rt)) = Inl p"
  using assms by (auto simp: serve_begin_def Let_def split: prod.splits sum.splits rl_result.splits option.splits)

subsection \<open>One failure takes a backend out\<close>

definition breaker_ok :: "Breaker option \<Rightarrow> bool" where
  "breaker_ok b = (case b of None \<Rightarrow> True | Some x \<Rightarrow> cb_inv x)"

lemma RecordFailure_ok: "breaker_ok b \<Longrightarrow> \<exists>b'. cb_RecordFailure t t' b = Inr b' \<and> breaker_ok b'"
proof (cases b)
  case (Some x)
  assume "breaker_ok b"
  with Some have "cb_inv x" by (simp add: breaker_ok_def)
  from cb_inv_step [OF this, of "EvFailure t t'"] obtain y where
    "map_sum id the (cb_RecordFailure t t' (Some x)) = Inr y" "cb_inv y" by auto
  moreover have "cb_RecordFailure t t' (Some x) = Inr z \<Longrightarrow> z \<noteq> None" for z
    by (auto simp: cb_maybeTrip_def Let_def split: cb_state.splits if_splits)
  ultimately show ?thesis using Some
    by (cases "cb_RecordFailure t t' (Some x)") (auto simp: breaker_ok_def)
qed (simp add: breaker_ok_def)

lemma RecordSuccess_ok: "breaker_ok b \<Longrightarrow> breaker_ok (cb_RecordSuccess t b)"
proof (cases b)
  case (Some x)
  assume "breaker_ok b"
  with Some have "cb_inv x" by (simp add: breaker_ok_def)
  from cb_inv_step [OF this, of "EvSuccess t"] have inv: "cb_inv (the (cb_RecordSuccess t (Some x)))"
    by (auto simp del: cb_RecordSuccess.simps)
  have "cb_RecordSuccess t (Some x) \<noteq> None" by (auto split: cb_state.splits)
  then obtain y where "cb_RecordSuccess t (Some x) = Some y" by blast
  with inv Some show ?thesis by (simp add: breaker_ok_def del: cb_RecordSuccess.simps)
qed (simp add: breaker_ok_def)

lemma nth_update_field: "f v = f (xs ! a) \<Longrightarrow> f (xs[a := v] ! b) = f (xs ! b)"
  by (cases "a < length xs"; cases "a = b") (simp_all add: list_update_beyond)

lemma be_flags [simp]:
  "be_URL (be_SetAlive st a v ! b) = be_URL (st ! b)" "be_URL (be_Dec st a ! b) = be_URL (st ! b)"
  "be_URL (be_Inc st a ! b) = be_URL (st ! b)"
  unfolding be_SetAlive_def be_Dec_def be_Inc_def by (rule nth_update_field; simp)+

lemma be_IsAlive_Dec [simp]: "be_IsAlive (be_Dec st a) b = be_IsAlive st b"
  unfolding be_IsAlive_def be_Dec_def by (rule nth_update_field) simp

lemma be_IsAlive_SetAlive: "a < length st \<Longrightarrow> be_IsAlive (be_SetAlive st a v) b = (if a = b then v else be_IsAlive st b)"
  by (simp add: be_IsAlive_def be_SetAlive_nth)

text \<open>The answers that count against a backend.\<close>

fun counts_against :: "upstream \<Rightarrow> bool" where
  "counts_against UpError = True"
| "counts_against (UpResponse code h body broken) = (500 \<le> code \<or> code = 101)"

lemma rt_breaker_put: "rt_breaker (put_breaker url b rt) url = (if rt_breakers rt url = None then None else b)"
  by (simp add: rt_breaker_def put_breaker_def)

lemma report_failure_ok:
  assumes "breaker_ok (rt_breaker rt (be_URL (st ! a)))"
  shows "\<exists>b. breaker_ok b \<and> report_failure ck a st rt = Inr (be_SetAlive st a False, put_breaker (be_URL (st ! a)) b rt)"
  using RecordFailure_ok [OF assms, of "ck_report ck" "ck_open ck"] by (auto simp: report_failure_def Let_def)

lemma bad_gateway_ok:
  assumes "breaker_ok (rt_breaker rt (be_URL (st ! a)))"
  shows "\<exists>b. breaker_ok b \<and> bad_gateway ck a st rt w =
    (be_SetAlive st a False, put_breaker (be_URL (st ! a)) b rt, http_Error ''bad gateway'' 502 w,
     [ErrorLine ''upstream error'' (be_URL (st ! a))], None)"
  using report_failure_ok [OF assms, of ck] by (auto simp: bad_gateway_def)

lemma counts_against_dead:
  assumes "breaker_ok (rt_breaker rt (be_URL (st ! a)))" and "a < length st" and "counts_against up"
    and "serve_end ck a up st rt w = (st', rt', rest)"
  shows "st' \<in> {be_Dec (be_SetAlive st a False) a, be_Dec (be_SetAlive (be_SetAlive st a True) a False) a}"
    and "rt_lb rt' = rt_lb rt" and "rt_rl rt' = rt_rl rt"
proof -
  obtain b where b: "breaker_ok b" "report_failure ck a st rt = Inr (be_SetAlive st a False, put_breaker (be_URL (st ! a)) b rt)"
    using report_failure_ok [OF assms(1), of ck] by blast
  obtain b1 where b1: "breaker_ok b1" "bad_gateway ck a st rt w =
    (be_SetAlive st a False, put_breaker (be_URL (st ! a)) b1 rt, http_Error ''bad gateway'' 502 w,
     [ErrorLine ''upstream error'' (be_URL (st ! a))], None)"
    using bad_gateway_ok [OF assms(1), of ck w] by blast
  obtain st2 rt2 where s: "report_success ck a st rt = (st2, rt2)" by (cases "report_success ck a st rt")
  then have s2: "st2 = be_SetAlive st a True"
      "rt2 = put_breaker (be_URL (st ! a)) (cb_RecordSuccess (ck_report ck) (rt_breaker rt (be_URL (st ! a)))) rt"
    by (simp_all add: report_success_def Let_def)
  have "breaker_ok (rt_breaker rt2 (be_URL (st2 ! a)))"
    using RecordSuccess_ok [OF assms(1)] by (simp add: s2 rt_breaker_put breaker_ok_def)
  then obtain b2 where b2: "bad_gateway ck a st2 rt2 w =
    (be_SetAlive st2 a False, put_breaker (be_URL (st2 ! a)) b2 rt2, http_Error ''bad gateway'' 502 w,
     [ErrorLine ''upstream error'' (be_URL (st2 ! a))], None)"
    using bad_gateway_ok by blast
  show "st' \<in> {be_Dec (be_SetAlive st a False) a, be_Dec (be_SetAlive (be_SetAlive st a True) a False) a}"
    and "rt_lb rt' = rt_lb rt" and "rt_rl rt' = rt_rl rt"
    using assms(3,4) b b1 b2 s s2
    by (cases up; auto simp: serve_end_def serve_response_def Let_def split: if_splits prod.splits)+
qed

text \<open>
  C15. A single failure takes a backend out of rotation, whatever the breaker's threshold: after
  one answer of 500 or more, one network error (the client going away is one), or one upgrade to
  another protocol, a route with this backend alone has none, and every request the limiter
  admits gets a 503 until a health check or another answer revives it.
\<close>

theorem one_failure_removes_backend:
  assumes "lb_ok (rt_lb rt)" and "set (lb_Backends (rt_lb rt)) \<subseteq> {a}" and "a < length st"
    and "breaker_ok (rt_breaker rt (be_URL (st ! a)))" and "counts_against up"
    and "serve_end ck a up st rt w = (st', rt', rest)"
    and "snd (rl_Allow (gl_redis lib) (ck_fill ck') (ck_limit ck') r (rt_rl rt')) = Inr Allowed"
  shows "be_IsAlive st' a = False \<and> snd (snd (serve_begin lib ck' r st' rt')) = StartNoBackend"
proof -
  note dead = counts_against_dead [OF assms(4,3,5,6)]
  have down: "\<not> be_IsAlive st' a"
    using dead(1) assms(3) by (auto simp: be_IsAlive_SetAlive)
  have "healthy st' (lb_Backends (rt_lb rt')) = []"
    using assms(2) down by (auto simp: healthy_empty_iff dead(2))
  moreover have "pick_ok (lb_Backends (rt_lb rt')) st' (snd (lb_Next st' r (rt_lb rt')))"
    using lb.pick_result [OF assms(1), of st' r] by (simp add: dead(2))
  ultimately obtain e where "snd (lb_Next st' r (rt_lb rt')) = Inl e"
    by (auto simp: pick_ok_def simp del: set_healthy split: sum.splits)
  then show ?thesis
    using assms(7) down by (auto simp: serve_begin_def Let_def split: prod.splits)
qed

theorem one_failure_removes_backend_witness:
  "\<exists>st rt rest. serve_end (example_clocks 6) 0 (UpResponse 500 Map.empty ''oops'' False) (be_Inc example_backends 0)
      example_route new_writer = (st, rt, rest) \<and>
    snd (snd (serve_begin example_lib (example_clocks 7) (get_request ''/api'') st rt)) = StartNoBackend"
proof -
  obtain st rt rest where e: "serve_end (example_clocks 6) 0 (UpResponse 500 Map.empty ''oops'' False)
      (be_Inc example_backends 0) example_route new_writer = (st, rt, rest)"
    by (metis prod_cases3)
  then have "rt_rl rt = NoopLimiter"
    using counts_against_dead(3) [OF _ _ _ e]
    by (simp add: example_route_def rt_breaker_def breaker_ok_def example_backends_def be_Inc_def)
  then have "snd (snd (serve_begin example_lib (example_clocks 7) (get_request ''/api'') st rt)) = StartNoBackend"
    using one_failure_removes_backend [OF _ _ _ _ _ e, of example_lib "example_clocks 7" "get_request ''/api''"]
    by (simp add: example_route_def lb_ok_def few_def rt_breaker_def breaker_ok_def example_backends_def be_Inc_def)
  with e show ?thesis by blast
qed

subsection \<open>What the backend is told\<close>

lemma director_header:
  "r_Header (gw_director strip prefix target r) =
     (let h = r_Header r;
          prior = header_Get h ''X-Forwarded-For'';
          h1 = (case SplitHost (r_RemoteAddr r) of None \<Rightarrow> h
                | Some ip \<Rightarrow> header_Set h ''X-Forwarded-For'' (if prior \<noteq> [] then prior @ '', '' @ ip else ip))
      in header_Set (header_Set h1 ''X-Forwarded-Host'' (r_Host r)) ''X-Forwarded-Proto'' (scheme r))"
  by (simp add: gw_director_def SetRequestHeader_def scheme_def Let_def split: option.splits)

lemma header_Set_apply: "header_Set h k v k' = (if k' = canonicalKey k then Some [v] else h k')"
  by (simp add: header_Set_def)

lemma header_tokens_Set:
  "canonicalKey k \<noteq> ''Connection'' \<Longrightarrow> header_tokens (header_Set h k v) ''Connection'' = header_tokens h ''Connection''"
  by (auto simp: header_tokens_def header_values_def header_Set_apply)

lemma header_tokens_director:
  "header_tokens (r_Header (gw_director strip prefix target r)) ''Connection'' = header_tokens (r_Header r) ''Connection''"
  by (simp add: director_header header_tokens_Set Let_def split: option.splits)

lemma hop_not_forwarded: "''X-Forwarded-For'' \<notin> canonicalKey ` set hopHeaders" "''X-User-Id'' \<notin> canonicalKey ` set hopHeaders"
  by (simp_all add: hopHeaders_def, code_simp+)

lemma canonical_hop [simp]:
  "canonicalKey ''Te'' = ''Te''" "canonicalKey ''Connection'' = ''Connection''" "canonicalKey ''Upgrade'' = ''Upgrade''"
  by code_simp+

lemma gw_director_path: "r_Path (gw_director strip prefix target r) = director_path strip prefix (r_Path r)"
  by (simp add: gw_director_def SetRequestHeader_def Let_def split: option.splits)

lemma outgoing_path: "rp_outgoing director r = Some out \<Longrightarrow> r_Path out = r_Path (director r)"
  unfolding rp_outgoing_def Let_def
  by (cases "list_all isPrintByte (upgradeType (r_Header (director r)))") auto

text \<open>
  C29. A request is forwarded to a path that starts with a slash unless the prefix that is stripped
  ends in one, or in the middle of a segment: \<open>/api/x\<close> behind \<open>/api/\<close> becomes \<open>x\<close>, which no backend can be
  asked for, and with the prefix \<open>/\<close> that is every path but the root.
\<close>

theorem forwarded_path_rooted:
  assumes "rp_outgoing (gw_director strip prefix target) r = Some out" and "HasPrefix (r_Path r) prefix"
    and "HasPrefix (r_Path r) ''/''"
  shows "HasPrefix (r_Path out) ''/'' \<longleftrightarrow> \<not> strip \<or> r_Path r = prefix \<or> r_Path r ! length prefix = CHR ''/''"
proof -
  obtain rest where rest: "r_Path r = prefix @ rest" using assms(2) by (auto simp: HasPrefix_iff)
  have "r_Path out = director_path strip prefix (r_Path r)"
    using outgoing_path [OF assms(1)] by (simp only: gw_director_path)
  moreover have "TrimPrefix (r_Path r) prefix = rest" using rest by simp
  ultimately show ?thesis
    using assms(3) rest by (cases rest) (auto simp: director_path_def HasPrefix_iff)
qed

theorem forwarded_path_rooted_witness:
  "\<exists>out. rp_outgoing (gw_director True ''/api/'' (''http'', ''a'')) (get_request ''/api/x'') = Some out \<and>
    \<not> HasPrefix (r_Path out) ''/''"
proof -
  let ?r = "get_request ''/api/x''"
  have "upgradeType (r_Header (gw_director True ''/api/'' (''http'', ''a'') ?r)) = []"
    by (simp add: upgradeType_def has_token_def header_tokens_director) (simp add: get_request_def header_tokens_def header_values_def)
  then obtain out where out: "rp_outgoing (gw_director True ''/api/'' (''http'', ''a'')) ?r = Some out"
    by (simp add: rp_outgoing_def Let_def)
  from forwarded_path_rooted [OF out] out show ?thesis by (simp add: get_request_def HasPrefix_iff)
qed

text \<open>
  The backend sees the client's address twice: the director appends it to \<open>X-Forwarded-For\<close>,
  and the reverse proxy, which does so itself, appends it again. Anything the client sent in that
  header stays in front and cannot be told apart.
\<close>

theorem forwarded_for_doubled:
  assumes "SplitHost (r_RemoteAddr r) = Some ip"
    and "''X-Forwarded-For'' \<notin> canonicalKey ` set (header_tokens (r_Header r) ''Connection'')"
    and "rp_outgoing (gw_director strip prefix target) r = Some out"
  shows "header_Get (r_Header out) ''X-Forwarded-For'' =
    (if header_Get (r_Header r) ''X-Forwarded-For'' = [] then ip
     else header_Get (r_Header r) ''X-Forwarded-For'' @ '', '' @ ip) @ '', '' @ ip"
proof -
  let ?h = "r_Header (gw_director strip prefix target r)"
  let ?x = "if header_Get (r_Header r) ''X-Forwarded-For'' = [] then ip
     else header_Get (r_Header r) ''X-Forwarded-For'' @ '', '' @ ip"
  have h: "?h ''X-Forwarded-For'' = Some [?x]"
    using assms(1) by (simp add: director_header header_Set_apply Let_def)
  have "removeHopByHop ?h ''X-Forwarded-For'' = Some [?x]"
    using assms(2) h hop_not_forwarded(1) by (auto simp: removeHop_apply header_tokens_director image_iff)
  with assms(1,3) show ?thesis
    by (auto simp: rp_outgoing_def Let_def header_Get_def header_values_def header_Set_apply split: if_splits)
qed

theorem forwarded_for_doubled_witness:
  "\<exists>out. rp_outgoing (gw_director True ''/api'' (''http'', ''a'')) (get_request ''/api/x'') = Some out \<and>
     header_Get (r_Header out) ''X-Forwarded-For'' = ''10.0.0.1, 10.0.0.1''"
proof -
  have ip: "SplitHost (r_RemoteAddr (get_request ''/api/x'')) = Some ''10.0.0.1''"
    using SplitHost_plain [of "''10.0.0.1''" "''4001''"] by (simp add: get_request_def)
  have tokens: "header_tokens (r_Header (get_request p)) ''Connection'' = []" for p
    by (simp add: header_tokens_def header_values_def get_request_def)
  then have "upgradeType (r_Header (gw_director True ''/api'' (''http'', ''a'') (get_request ''/api/x''))) = []"
    by (simp add: upgradeType_def has_token_def header_tokens_director)
  then obtain out where out: "rp_outgoing (gw_director True ''/api'' (''http'', ''a'')) (get_request ''/api/x'') = Some out"
    by (simp add: rp_outgoing_def Let_def)
  from forwarded_for_doubled [OF ip _ out] tokens have "header_Get (r_Header out) ''X-Forwarded-For'' = ''10.0.0.1, 10.0.0.1''"
    by (simp add: get_request_def)
  with out show ?thesis by blast
qed

text \<open>
  C28. A client can strip the identity the gateway vouches for: it names \<open>X-User-ID\<close> in its
  \<open>Connection\<close> header, and the reverse proxy, which removes the headers named there after
  authentication has set it, forwards the authenticated request without a user.
\<close>

theorem connection_strips_user:
  assumes "t \<in> set (header_tokens (r_Header r) ''Connection'')" and "canonicalKey t = ''X-User-Id''"
    and "rp_outgoing (gw_director strip prefix target) (SetRequestHeader ''X-User-ID'' user r) = Some out"
  shows "header_Get (r_Header out) ''X-User-ID'' = []"
proof -
  let ?r = "SetRequestHeader ''X-User-ID'' user r"
  have "t \<noteq> []" using assms(2) by (auto simp: canonicalKey_def)
  moreover have "header_tokens (r_Header ?r) ''Connection'' = header_tokens (r_Header r) ''Connection''"
    by (simp add: SetRequestHeader_def header_tokens_Set)
  ultimately have "''X-User-Id'' \<in> canonicalKey ` ({t \<in> set (header_tokens (r_Header ?r) ''Connection''). t \<noteq> []} \<union> set hopHeaders)"
    using assms(1,2) by (intro image_eqI [of _ _ t]) simp_all
  then have "removeHopByHop (r_Header (gw_director strip prefix target ?r)) ''X-User-Id'' = None"
    by (simp add: removeHop_apply header_tokens_director)
  with assms(3) show ?thesis
    by (auto simp: rp_outgoing_def Let_def header_Get_def header_Set_apply split: if_splits option.splits)
qed

theorem connection_strips_user_witness:
  "\<exists>out. rp_outgoing (gw_director True ''/api'' (''http'', ''a''))
       (SetRequestHeader ''X-User-ID'' ''alice'' (SetRequestHeader ''Connection'' ''x-user-id'' (get_request ''/api/x''))) = Some out \<and>
     header_Get (r_Header out) ''X-User-ID'' = []"
proof -
  let ?r = "SetRequestHeader ''Connection'' ''x-user-id'' (get_request ''/api/x'')"
  let ?out = "rp_outgoing (gw_director True ''/api'' (''http'', ''a'')) (SetRequestHeader ''X-User-ID'' ''alice'' ?r)"
  have trim: "TrimString ''x-user-id'' = ''x-user-id''"
    by (simp add: TrimString_def asciiSpaces_def trimLeft.simps)
  have tokens: "header_tokens (r_Header ?r) ''Connection'' = [''x-user-id'']"
    by (simp add: header_tokens_def header_values_def SetRequestHeader_def header_Set_apply trim)
  then have "header_tokens (r_Header (SetRequestHeader ''X-User-ID'' ''alice'' ?r)) ''Connection'' = [''x-user-id'']"
    by (simp add: SetRequestHeader_def header_tokens_Set)
  then have "upgradeType (r_Header (gw_director True ''/api'' (''http'', ''a'') (SetRequestHeader ''X-User-ID'' ''alice'' ?r))) = []"
    by (simp add: upgradeType_def has_token_def header_tokens_director EqualFold_def)
  then obtain out where out: "?out = Some out" by (simp add: rp_outgoing_def Let_def)
  have "canonicalKey ''x-user-id'' = ''X-User-Id''" by code_simp
  with connection_strips_user [OF _ _ out, of "''x-user-id''"] tokens out show ?thesis by simp
qed

end
