(* ===== verification/Observability.thy ===== *)
theory Observability
  imports GatewayProps
begin

section \<open>What is observed of a request\<close>

text \<open>
  Request IDs, the access log, the metrics and the traces over the whole chain of a route. The
  contract \<open>answers\<close> of a handler says that it sends exactly one status, tells every
  \<open>captureStatus\<close> around it, keeps the request ID and observes nothing itself; the core of a
  route and the authentication in front of it satisfy it, and each observing middleware adds one
  observation of that status.
\<close>

subsection \<open>The contract of the observed handlers\<close>

fun is_request :: "log_entry \<Rightarrow> bool" where
  "is_request (RequestLine l) = True"
| "is_request e = False"

definition request_lines :: "'g world \<Rightarrow> log_entry list" where
  "request_lines wd = filter is_request (wd_log wd)"

text \<open>What a handler must not touch: the observations, and what the observers read of the request.\<close>

definition unobserved :: "'g world \<Rightarrow> request \<Rightarrow> 'g world \<Rightarrow> request \<Rightarrow> bool" where
  "unobserved wd r wd' r' \<longleftrightarrow>
     request_lines wd' = request_lines wd \<and> wd_requestsTotal wd' = wd_requestsTotal wd \<and>
     wd_requestDuration wd' = wd_requestDuration wd \<and> wd_traces wd' = wd_traces wd \<and>
     r_Method r' = r_Method r \<and> r_Path r' = r_Path r \<and>
     header_Get (r_Header r') ''X-Request-ID'' = header_Get (r_Header r) ''X-Request-ID''"

text \<open>One status is sent, and every wrapper around the writer notes that one.\<close>

definition sends :: "writer \<Rightarrow> writer \<Rightarrow> bool" where
  "sends w w' \<longleftrightarrow>
     (\<exists>code h. w_sent w' = Some (code, h) \<and> w_captures w' = map (\<lambda>s. code) (w_captures w) \<and>
        (\<forall>v. w_Header w ''X-Request-Id'' = Some [v] \<longrightarrow> header_Get h ''X-Request-ID'' = v))"

definition quiet :: "'g handler \<Rightarrow> bool" where
  "quiet h \<longleftrightarrow> (\<forall>wd r w wd' r' w' p. h wd r w = (wd', r', w', p) \<longrightarrow> unobserved wd r wd' r')"

definition answers :: "'g handler \<Rightarrow> bool" where
  "answers h \<longleftrightarrow> (\<forall>wd r w wd' r' w'. h wd r w = (wd', r', w', None) \<longrightarrow> w_sent w = None \<longrightarrow> sends w w')"

lemma quietD: "quiet h \<Longrightarrow> h wd r w = (wd', r', w', p) \<Longrightarrow> unobserved wd r wd' r'"
  unfolding quiet_def by blast

lemma answersD: "answers h \<Longrightarrow> h wd r w = (wd', r', w', None) \<Longrightarrow> w_sent w = None \<Longrightarrow> sends w w'"
  unfolding answers_def by blast

lemma unobserved_refl: "unobserved wd r wd r"
  by (simp add: unobserved_def)

subsection \<open>The core of a route satisfies it\<close>

lemma sends_WriteHeader:
  assumes "w_sent w1 = None" and "\<not> informational code" and "w_captures w1 = w_captures w"
    and "\<And>v. w_Header w ''X-Request-Id'' = Some [v] \<Longrightarrow> header_Get (w_Header w1) ''X-Request-ID'' = v"
  shows "sends w (w_WriteHeader code w1)"
  using assms by (simp add: sends_def)

lemma sends_Write: "sends w w1 \<Longrightarrow> sends w (w_Write s w1)"
  by (auto simp: sends_def)

lemma sends_Error: "w_sent w = None \<Longrightarrow> \<not> informational code \<Longrightarrow> sends w (http_Error msg code w)"
  unfolding http_Error_def
  by (intro sends_Write sends_WriteHeader) (simp_all add: header_Get_def header_Set_def)

lemma sends_limited: "w_sent w = None \<Longrightarrow> sends w (limited_response ck d w)"
  unfolding limited_response_def http_Error_def
  by (intro sends_Write sends_WriteHeader) (simp_all add: header_Get_def header_Set_def informational_def)

lemma sends_auth_error: "w_sent w = None \<Longrightarrow> sends w (writeAuthError quoted 401 e w)"
  unfolding writeAuthError_def
  by (intro sends_Write sends_WriteHeader) (simp_all add: header_Get_def header_Set_def informational_def)

lemma copyHeader_kept:
  "dst ''X-Request-Id'' = Some [v] \<Longrightarrow> header_Get (copyHeader dst src) ''X-Request-ID'' = v"
  by (cases "src ''X-Request-Id''") (simp_all add: header_Get_def copyHeader_def)

text \<open>The transport reports informational responses apart: what it returns is never one.\<close>

fun final_answer :: "upstream \<Rightarrow> bool" where
  "final_answer UpError = True"
| "final_answer (UpResponse code h body broken) = (\<not> informational code)"

lemma sends_respond:
  assumes "rp_respond code h body broken w = (w', p)" and "w_sent w = None" and "\<not> informational code"
  shows "sends w w'"
proof -
  let ?w1 = "w_WriteHeader code (w\<lparr>w_Header := copyHeader (w_Header w) h\<rparr>)"
  have "sends w ?w1" using assms(2,3) by (intro sends_WriteHeader) (simp_all add: copyHeader_kept)
  then show ?thesis using assms(1) sends_Write by (auto simp: rp_respond_def Let_def split: if_splits)
qed

lemma sends_bad_gateway:
  "bad_gateway ck a st rt w = (st', rt', w', es, None) \<Longrightarrow> w_sent w = None \<Longrightarrow> sends w w'"
  by (auto simp: bad_gateway_def sends_Error informational_def Let_def split: sum.splits)

lemma sends_end:
  assumes "serve_end ck a up st rt w = (st', rt', w', es, None)" and "w_sent w = None" and "final_answer up"
  shows "sends w w'"
proof (cases up)
  case UpError
  with assms show ?thesis by (auto simp: serve_end_def Let_def split: prod.splits intro: sends_bad_gateway)
next
  case (UpResponse code h body broken)
  with assms show ?thesis
    by (auto simp: serve_end_def serve_response_def Let_def split: prod.splits sum.splits if_splits
        intro: sends_bad_gateway sends_respond)
qed

lemma end_errors: "serve_end ck a up st rt w = (st', rt', w', es, p) \<Longrightarrow> filter is_request es = []"
  by (cases up)
    (auto simp: serve_end_def serve_response_def bad_gateway_def Let_def split: prod.splits sum.splits if_splits)

lemma serveProxy_quiet: "quiet (serveProxy lib ck upstream ra)"
proof -
  have "unobserved wd r wd' r'" if "serveProxy lib ck upstream ra wd r w = (wd', r', w', p)" for wd r w wd' r' w' p
  proof -
    obtain st rt start where b: "serve_begin lib ck r (gw_store (wd_gw wd)) (gw_heap (wd_gw wd) ! ra) = (st, rt, start)"
      by (metis prod_cases3)
    show ?thesis
    proof (cases start)
      case (StartForward a out)
      obtain st2 rt2 w2 es q where e: "serve_end ck a (case out of None \<Rightarrow> UpError | Some o' \<Rightarrow> upstream a o') st rt w =
          (st2, rt2, w2, es, q)" by (metis prod_cases5)
      with that b StartForward end_errors [OF e] show ?thesis
        by (auto simp: serveProxy_def unobserved_def request_lines_def)
    qed (use that b in \<open>auto simp: serveProxy_def unobserved_def request_lines_def\<close>)
  qed
  then show ?thesis by (simp add: quiet_def)
qed

lemma serveProxy_answers:
  assumes "\<And>a o'. final_answer (upstream a o')"
  shows "answers (serveProxy lib ck upstream ra)"
proof -
  have "sends w w'" if "serveProxy lib ck upstream ra wd r w = (wd', r', w', None)" "w_sent w = None" for wd r w wd' r' w'
  proof -
    obtain st rt start where b: "serve_begin lib ck r (gw_store (wd_gw wd)) (gw_heap (wd_gw wd) ! ra) = (st, rt, start)"
      by (metis prod_cases3)
    show ?thesis
    proof (cases start)
      case (StartForward a out)
      let ?up = "case out of None \<Rightarrow> UpError | Some o' \<Rightarrow> upstream a o'"
      have fin: "final_answer ?up" using assms by (cases out) simp_all
      obtain st2 rt2 w2 es q where e: "serve_end ck a ?up st rt w = (st2, rt2, w2, es, q)" by (metis prod_cases5)
      with that b StartForward have "w' = w2" "q = None" by (auto simp: serveProxy_def)
      with sends_end [OF _ that(2) fin] e show ?thesis by blast
    qed (use that b in \<open>auto simp: serveProxy_def sends_limited sends_Error informational_def\<close>)
  qed
  then show ?thesis by (simp add: answers_def)
qed

text \<open>Authentication answers itself or passes the request on with the user set.\<close>

lemma AuthHandler_cases:
  assumes "AuthHandler lib key cfg quoted now h wd r w = (wd', r', w', p)"
  obtains (passed) r1 where "h wd r1 w = (wd', r', w', p)" and "unobserved wd r wd r1"
  | (refused) e where "wd' = wd" and "r' = r" and "w' = writeAuthError quoted 401 e w" and "p = None"
proof (cases "isSkipped cfg (r_Path r)")
  case True
  with assms show thesis by (intro passed [of r]) (simp_all add: AuthHandler_def unobserved_refl)
next
  case False
  show thesis
  proof (cases "\<exists>token claims. extractBearer r = Inr token \<and> validateToken lib key now token = Inr claims")
    case True
    then obtain token claims where "extractBearer r = Inr token" "validateToken lib key now token = Inr claims" by blast
    with assms False show ?thesis
      by (intro passed [of "SetRequestHeader ''X-User-ID'' (jc_Sub claims) r"])
        (simp_all add: AuthHandler_def unobserved_def SetRequestHeader_def)
  next
    case no: False
    with assms False obtain e where "(wd', r', w', p) = (wd, r, writeAuthError quoted 401 e w, None)"
      by (cases "extractBearer r"; cases "validateToken lib key now (projr (extractBearer r))")
        (auto simp: AuthHandler_def)
    then show ?thesis by (intro refused) simp_all
  qed
qed

lemma unobserved_trans: "unobserved wd r wd1 r1 \<Longrightarrow> unobserved wd1 r1 wd2 r2 \<Longrightarrow> unobserved wd r wd2 r2"
  by (simp add: unobserved_def)

lemma AuthHandler_quiet:
  assumes "quiet h"
  shows "quiet (AuthHandler lib key cfg quoted now h)"
  unfolding quiet_def
proof (intro allI impI)
  fix wd r w wd' r' w' p
  assume "AuthHandler lib key cfg quoted now h wd r w = (wd', r', w', p)"
  then show "unobserved wd r wd' r'"
    by (cases rule: AuthHandler_cases) (auto simp: unobserved_refl intro: unobserved_trans quietD [OF assms])
qed

lemma AuthHandler_answers:
  assumes "answers h"
  shows "answers (AuthHandler lib key cfg quoted now h)"
  unfolding answers_def
proof (intro allI impI)
  fix wd r w wd' r' w'
  assume "AuthHandler lib key cfg quoted now h wd r w = (wd', r', w', None)" and "w_sent w = None"
  then show "sends w w'"
    by (cases rule: AuthHandler_cases) (auto simp: sends_auth_error intro: answersD [OF assms])
qed

subsection \<open>The observing middleware around it\<close>

text \<open>The ID a request travels under, and the three records of it.\<close>

definition request_id :: "req_env \<Rightarrow> request \<Rightarrow> string" where
  "request_id env r =
     (if header_Get (r_Header r) ''X-Request-ID'' = [] then en_uuid env else header_Get (r_Header r) ''X-Request-ID'')"

definition logged :: "req_env \<Rightarrow> request \<Rightarrow> int \<Rightarrow> log_entry" where
  "logged env r code = RequestLine
     \<lparr>al_method = r_Method r, al_path = r_Path r, al_status = code,
      al_duration_ms = time_Sub (snd (en_log env)) (fst (en_log env)) sdiv 1000000, al_request_id = request_id env r\<rparr>"

definition traced :: "req_env \<Rightarrow> request \<Rightarrow> int \<Rightarrow> TraceSpan" where
  "traced env r code =
     (let dur = time_Sub (snd (en_trace env)) (fst (en_trace env))
      in \<lparr>sp_TraceID = fst (extractOrGenerateIDs (en_hex32 env) (en_hex16 env) r), sp_Path = r_Path r,
          sp_Method = r_Method r, sp_StatusCode = code, sp_Duration = dur, sp_StartTime = fst (en_trace env),
          sp_Timings = [(''total'', dur)]\<rparr>)"

definition observed :: "req_env \<Rightarrow> 'k route \<Rightarrow> request \<Rightarrow> int \<Rightarrow> 'g world \<Rightarrow> 'g world \<Rightarrow> bool" where
  "observed env rt r code wd wd' \<longleftrightarrow>
     request_lines wd' = request_lines wd @ [logged env r code] \<and>
     wd_requestsTotal wd' = wd_requestsTotal wd @ [(rt_prefix rt, r_Method r, itoa code)] \<and>
     wd_requestDuration wd' = wd_requestDuration wd @
       [(rt_prefix rt, r_Method r, duration_Seconds (time_Sub (snd (en_metrics env)) (fst (en_metrics env))))] \<and>
     wd_traces wd' = (if rt_traced rt then map_option (ts_Add (traced env r code)) (wd_traces wd) else wd_traces wd)"

text \<open>What runs inside the metrics middleware: the core, behind authentication if there is one.\<close>

definition inner :: "'k gwlib \<Rightarrow> req_env \<Rightarrow> (addr \<Rightarrow> request \<Rightarrow> upstream) \<Rightarrow> nat \<Rightarrow> 'k route \<Rightarrow> 'k gateway handler" where
  "inner lib env upstream ra rt =
     (case rt_auth rt of
        None \<Rightarrow> serveProxy lib (en_clocks env) upstream ra
      | Some (key, cfg) \<Rightarrow>
          AuthHandler (gl_token lib) key cfg (gl_quoteError lib) (en_auth env) (serveProxy lib (en_clocks env) upstream ra))"

lemma inner_quiet: "quiet (inner lib env upstream ra rt)"
  by (auto simp: inner_def serveProxy_quiet AuthHandler_quiet split: option.splits)

lemma inner_answers: "(\<And>a o'. final_answer (upstream a o')) \<Longrightarrow> answers (inner lib env upstream ra rt)"
  by (auto simp: inner_def serveProxy_answers AuthHandler_answers split: option.splits)

definition watched :: "req_env \<Rightarrow> 'k route \<Rightarrow> 'g handler \<Rightarrow> 'g handler" where
  "watched env rt h =
     Logger (fst (en_log env)) (snd (en_log env)) (Metrics (rt_prefix rt) (fst (en_metrics env)) (snd (en_metrics env)) h)"

lemma route_handler_eq:
  "route_handler lib env upstream ra rt =
     RequestID (en_uuid env)
       (if rt_traced rt
        then Tracing (en_hex32 env) (en_hex16 env) (fst (en_trace env)) (snd (en_trace env))
          (watched env rt (inner lib env upstream ra rt))
        else watched env rt (inner lib env upstream ra rt))"
  by (auto simp: route_handler_def route_chain_def watched_def inner_def Chain_Cons Chain_Nil split: option.splits)

text \<open>The line and the two metrics, read off the request after the handler.\<close>

definition note_request :: "req_env \<Rightarrow> 'k route \<Rightarrow> request \<Rightarrow> int \<Rightarrow> 'g world \<Rightarrow> 'g world" where
  "note_request env rt r code wd =
     wd\<lparr>wd_requestsTotal := wd_requestsTotal wd @ [(rt_prefix rt, r_Method r, itoa code)],
        wd_requestDuration := wd_requestDuration wd @
          [(rt_prefix rt, r_Method r, duration_Seconds (time_Sub (snd (en_metrics env)) (fst (en_metrics env))))],
        wd_log := wd_log wd @ [RequestLine \<lparr>al_method = r_Method r, al_path = r_Path r, al_status = code,
          al_duration_ms = time_Sub (snd (en_log env)) (fst (en_log env)) sdiv 1000000,
          al_request_id = header_Get (r_Header r) ''X-Request-ID''\<rparr>]\<rparr>"

text \<open>
  The interface between a handler and the middleware that observes it, with what the observers
  then know of a request: nothing was recorded when it panicked, and its one status when it
  returned (\<open>ok\<close> is the condition under which the handler answers).
\<close>

locale observed_core =
  fixes h :: "'g handler" and ok :: bool
  assumes silent: "quiet h"
    and answering: "ok \<Longrightarrow> answers h"
begin

lemma watched_panics:
  assumes "watched env rt h wd r w = (wd', r', w', Some p)"
  shows "unobserved wd r wd' r'"
  using assms quietD [OF silent]
  by (auto simp: watched_def Logger_def Metrics_def split: prod.splits option.splits)

lemma watched_returns:
  assumes "watched env rt h wd r w = (wd', r', w', None)" and ok and "w_sent w = None"
  obtains code hd wd1 where "w_sent w' = Some (code, hd)" and "w_captures w' = map (\<lambda>s. code) (w_captures w)"
    and "\<forall>v. w_Header w ''X-Request-Id'' = Some [v] \<longrightarrow> header_Get hd ''X-Request-ID'' = v"
    and "unobserved wd r wd1 r'"
    and "wd' = note_request env rt r' code wd1"
proof -
  obtain wd1 r1 w1 p where h: "h wd r (cw_new (cw_new w)) = (wd1, r1, w1, p)" by (metis prod_cases4)
  with assms(1) have p: "p = None" and r1: "r1 = r'" and w': "w' = cw_inner (cw_inner w1)"
    by (auto simp: watched_def Logger_def Metrics_def split: option.splits)
  have "sends (cw_new (cw_new w)) w1"
    using answersD [OF answering [OF assms(2)] h [unfolded p]] assms(3) by simp
  then obtain code hd where s: "w_sent w1 = Some (code, hd)" "w_captures w1 = code # code # map (\<lambda>s. code) (w_captures w)"
      "\<forall>v. w_Header w ''X-Request-Id'' = Some [v] \<longrightarrow> header_Get hd ''X-Request-ID'' = v"
    by (auto simp: sends_def)
  show thesis
    by (rule that [of code hd wd1])
      (use assms(1) h p r1 s w' quietD [OF silent h] in \<open>simp_all add: watched_def Logger_def Metrics_def cw_status_def note_request_def\<close>)
qed

end

interpretation inner: observed_core "inner lib env upstream ra rt" "\<forall>a o'. final_answer (upstream a o')"
  for lib env upstream ra rt
  by unfold_locales (simp_all add: inner_quiet inner_answers)

lemma extract_injected [simp]:
  "extractOrGenerateIDs a b (SetRequestHeader ''X-Request-ID'' v r) = extractOrGenerateIDs a b r"
  by (simp add: extractOrGenerateIDs_def SetRequestHeader_def Let_def)

lemma note_observed:
  assumes "unobserved wd r1 wd1 r'" and "r_Method r1 = r_Method r" and "r_Path r1 = r_Path r"
    and "header_Get (r_Header r1) ''X-Request-ID'' = request_id env r"
    and "traces = (if rt_traced rt then map_option (ts_Add (traced env r code)) (wd_traces wd) else wd_traces wd)"
  shows "observed env rt r code wd ((note_request env rt r' code wd1)\<lparr>wd_traces := traces\<rparr>)"
  using assms by (simp add: observed_def unobserved_def note_request_def request_lines_def logged_def)

lemma inject_fields [simp]:
  "r_Method (injectIDs a b r) = r_Method r" "r_Path (injectIDs a b r) = r_Path r"
  "header_Get (r_Header (injectIDs a b r)) ''X-Request-ID'' = header_Get (r_Header r) ''X-Request-ID''"
  by (simp_all add: injectIDs_def SetRequestHeader_def)

lemma route_handler_observed:
  assumes up: "\<And>a o'. final_answer (upstream a o')"
    and run: "route_handler lib env upstream ra rt wd r w = (wd', r', w', None)" and fresh: "w_sent w = None"
  shows "\<exists>code hd. w_sent w' = Some (code, hd) \<and> header_Get hd ''X-Request-ID'' = request_id env r \<and>
    observed env rt r code wd wd'"
proof -
  let ?h = "inner lib env upstream ra rt"
  let ?r = "SetRequestHeader ''X-Request-ID'' (request_id env r) r"
  let ?w = "w_SetHeader ''X-Request-ID'' (request_id env r) w"
  have ok: "\<forall>a o'. final_answer (upstream a o')" using up by blast
  show ?thesis
  proof (cases "rt_traced rt")
    case False
    with run have "watched env rt ?h wd ?r ?w = (wd', r', w', None)"
      by (simp add: route_handler_eq RequestID_def request_id_def Let_def)
    moreover have "w_sent ?w = None" using fresh by simp
    ultimately obtain code hd wd1 where o: "w_sent w' = Some (code, hd)" "w_captures w' = map (\<lambda>s. code) (w_captures ?w)"
      "\<forall>v. w_Header ?w ''X-Request-Id'' = Some [v] \<longrightarrow> header_Get hd ''X-Request-ID'' = v" "unobserved wd ?r wd1 r'"
      "wd' = note_request env rt r' code wd1" by (rule inner.watched_returns [OF _ ok]) (rule that)
    have "header_Get hd ''X-Request-ID'' = request_id env r" using o(3) by (simp add: header_Set_def)
    moreover have "wd' = wd'\<lparr>wd_traces := wd_traces wd\<rparr>"
      using o(4) by (simp add: o(5) note_request_def unobserved_def)
    then have "observed env rt r code wd wd'"
      using note_observed [OF o(4), of r env "wd_traces wd" rt code] False by (simp add: o(5) SetRequestHeader_def)
    ultimately show ?thesis using o(1) by blast
  next
    case True
    obtain tid sid par where ids: "extractOrGenerateIDs (en_hex32 env) (en_hex16 env) r = (tid, sid, par)"
      by (metis prod_cases3)
    let ?w2 = "cw_new (w_SetHeader ''X-Trace-ID'' tid ?w)"
    obtain wd2 r2 w2 p where run2: "watched env rt ?h wd (injectIDs tid sid ?r) ?w2 = (wd2, r2, w2, p)"
      by (metis prod_cases4)
    with run True ids have out: "p = None" "r' = r2" "w' = cw_inner w2"
        "wd' = wd2\<lparr>wd_traces := map_option (ts_Add (trace_span tid (fst (en_trace env)) (snd (en_trace env)) r2 w2)) (wd_traces wd2)\<rparr>"
      by (auto simp: route_handler_eq RequestID_def Tracing_def request_id_def Let_def split: option.splits)
    have "w_sent ?w2 = None" using fresh by simp
    then obtain code hd wd1 where
      o: "w_sent w2 = Some (code, hd)" "w_captures w2 = map (\<lambda>s. code) (w_captures ?w2)"
      "\<forall>v. w_Header ?w2 ''X-Request-Id'' = Some [v] \<longrightarrow> header_Get hd ''X-Request-ID'' = v"
      "unobserved wd (injectIDs tid sid ?r) wd1 r2" "wd2 = note_request env rt r2 code wd1"
      by (rule inner.watched_returns [OF run2 [unfolded out(1)] ok]) (rule that)
    have "header_Get hd ''X-Request-ID'' = request_id env r" using o(3) by (simp add: header_Set_def)
    moreover have "trace_span tid (fst (en_trace env)) (snd (en_trace env)) r2 w2 = traced env r code"
      using o(2,4) ids by (simp add: trace_span_def traced_def cw_status_def unobserved_def SetRequestHeader_def Let_def)
    then have "observed env rt r code wd wd'"
      using note_observed [OF o(4), of r env "wd_traces wd'" rt code] True o(4)
      by (simp add: o(5) out(4) SetRequestHeader_def note_request_def unobserved_def)
    ultimately show ?thesis using o(1) out(3) by auto
  qed
qed

text \<open>
  C4. Every request a route answers is observed once and truthfully: one access-log line, one
  count, one duration and, if the route traces, one span, all with the status the client got,
  the request's own method and path, and the ID that the client's \<open>X-Request-ID\<close> response header
  carries, be it from a success, an error of the backend or a refusal at any gate.
\<close>

theorem request_observed:
  assumes "\<And>a o'. final_answer (upstream a o')"
    and "route_handler lib env upstream ra rt wd r w = (wd', r', w', None)" and "w_sent w = None"
  shows "\<exists>code hd. w_sent w' = Some (code, hd) \<and> header_Get hd ''X-Request-ID'' = request_id env r \<and>
    observed env rt r code wd wd'"
  using route_handler_observed [where upstream = upstream, OF assms] .

definition down_world :: "nat gateway world" where
  "down_world = example_world\<lparr>wd_gw := example_gateway\<lparr>gw_store := be_SetAlive example_backends 0 False\<rparr>\<rparr>"

lemma down_begin:
  "snd (snd (serve_begin example_lib (en_clocks example_env) r (gw_store (wd_gw down_world)) (gw_heap (wd_gw down_world) ! 0))) =
     StartNoBackend"
  by (simp add: serve_begin_def down_world_def example_world_def example_gateway_def example_route_def example_backends_def
      example_lib_def example_env_def be_SetAlive_def rr_Next_def healthy_def be_IsAlive_def Let_def)

lemma watched_runs:
  "watched env rt h wd r w = (wd', r', w', p) \<Longrightarrow> \<exists>wd1 r1 w1. h wd r (cw_new (cw_new w)) = (wd1, r1, w1, p)"
  by (auto simp: watched_def Logger_def Metrics_def split: prod.splits option.splits)

lemma down_returns:
  assumes "rt_auth rt = None"
  shows "\<exists>wd' r' w'. route_handler example_lib example_env (\<lambda>a r. UpError) 0 rt (down_world\<lparr>wd_traces := ts\<rparr>)
    (get_request ''/api'') new_writer = (wd', r', w', None)"
proof -
  obtain wd' r' w' p where e: "route_handler example_lib example_env (\<lambda>a r. UpError) 0 rt (down_world\<lparr>wd_traces := ts\<rparr>)
      (get_request ''/api'') new_writer = (wd', r', w', p)" by (metis prod_cases4)
  then obtain wd0 r1 w0 w2 where "watched example_env rt (inner example_lib example_env (\<lambda>a r. UpError) 0 rt)
      (down_world\<lparr>wd_traces := ts\<rparr>) r1 w0 = (wd0, r', w2, p)"
    by (auto simp: route_handler_eq RequestID_def Tracing_def Let_def split: if_splits prod.splits option.splits)
  from watched_runs [OF this] obtain wd1 r2 w1 where
    "serveProxy example_lib (en_clocks example_env) (\<lambda>a r. UpError) 0 (down_world\<lparr>wd_traces := ts\<rparr>) r1 (cw_new (cw_new w0)) =
      (wd1, r2, w1, p)"
    by (auto simp: inner_def assms)
  then have "p = None" using down_begin [of r1] by (auto simp: serveProxy_def Let_def split: prod.splits)
  with e show ?thesis by blast
qed

theorem request_observed_witness:
  "\<exists>wd r w code. route_handler example_lib example_env (\<lambda>a r. UpError) 0 example_route down_world (get_request ''/api'') new_writer =
     (wd, r, w, None) \<and> observed example_env example_route (get_request ''/api'') code down_world wd"
proof -
  obtain wd' r' w' where e: "route_handler example_lib example_env (\<lambda>a r. UpError) 0 example_route down_world
      (get_request ''/api'') new_writer = (wd', r', w', None)"
    using down_returns [of example_route "wd_traces down_world"] by (auto simp: example_route_def)
  from request_observed [OF _ e] obtain code where "observed example_env example_route (get_request ''/api'') code down_world wd'"
    by (auto simp: new_writer_def)
  with e show ?thesis by blast
qed

subsection \<open>What is not observed\<close>

lemma route_handler_panics:
  assumes "route_handler lib env upstream ra rt wd r w = (wd', r', w', Some p)"
  shows "request_lines wd' = request_lines wd \<and> wd_requestsTotal wd' = wd_requestsTotal wd \<and>
    wd_requestDuration wd' = wd_requestDuration wd \<and> wd_traces wd' = wd_traces wd"
proof -
  obtain r1 w1 w2 where "watched env rt (inner lib env upstream ra rt) wd r1 w1 = (wd', r', w2, Some p)"
    using assms by (auto simp: route_handler_eq RequestID_def Tracing_def Let_def split: if_splits prod.splits option.splits)
  from inner.watched_panics [OF this] show ?thesis by (simp add: unobserved_def)
qed

text \<open>
  C16. A request that panics is answered but not observed: the client gets a 500 (or, when the
  response had begun, its status), and there is no access-log line, no metric and no span of it,
  only the line of the panic.
\<close>

theorem panic_unobserved:
  assumes "gateway_ServeHTTP lib env upstream wd r w = (wd', r', w', Some p)"
  shows "\<exists>wd2 w2. main_handler lib env upstream wd r w = (wd2, r', w2, None) \<and>
    status_of w2 = (if w_sent w' = None then 500 else status_of w') \<and> last (wd_log wd2) = PanicLine p \<and>
    request_lines wd2 = request_lines wd \<and> wd_requestsTotal wd2 = wd_requestsTotal wd \<and>
    wd_requestDuration wd2 = wd_requestDuration wd \<and> wd_traces wd2 = wd_traces wd"
proof -
  from assms obtain ra rt where "route_handler lib env upstream ra rt wd r w = (wd', r', w', Some p)"
    by (auto simp: gateway_ServeHTTP_def Let_def split: option.splits)
  note same = route_handler_panics [OF this]
  have "main_handler lib env upstream wd r w = (wd'\<lparr>wd_log := wd_log wd' @ [PanicLine p]\<rparr>, r',
      http_Error ''{\"error\":\"internal server error\"}'' 500 w', None)"
    using assms by (simp add: main_handler_def Recovery_def)
  with same show ?thesis
    by (simp add: Error_status informational_def request_lines_def) (simp add: status_of_def split: option.splits)
qed

definition panicking_world :: "nat gateway world" where
  "panicking_world = example_world\<lparr>wd_gw := example_gateway\<lparr>gw_heap := [example_route\<lparr>rt_rl :=
     SlidingWindow \<lparr>sl_buckets = Map.empty, sl_rate = 0, sl_window = 60 * time_Second, sl_keyFn = (\<lambda>r. ''k'')\<rparr>\<rparr>]\<rparr>\<rparr>"

lemma panicking:
  "\<exists>wd' r' w'. gateway_ServeHTTP example_lib example_env (\<lambda>a r. UpError) panicking_world (get_request ''/api'') new_writer =
     (wd', r', w', Some IndexOutOfRange)"
  by (simp add: gateway_ServeHTTP_def panicking_world_def example_world_def example_gateway_def example_route_def
      get_request_def route_handler_eq watched_def inner_def RequestID_def Logger_def Metrics_def serveProxy_def
      serve_begin_def sl_Allow_def sl_getOrCreate_def sw_take_def Let_def)

theorem panic_unobserved_witness:
  "\<exists>wd2 r' w2. main_handler example_lib example_env (\<lambda>a r. UpError) panicking_world (get_request ''/api'') new_writer =
     (wd2, r', w2, None) \<and> wd_requestsTotal wd2 = [] \<and> last (wd_log wd2) = PanicLine IndexOutOfRange"
proof -
  obtain wd' r' w' where "gateway_ServeHTTP example_lib example_env (\<lambda>a r. UpError) panicking_world (get_request ''/api'')
      new_writer = (wd', r', w', Some IndexOutOfRange)" using panicking by blast
  from panic_unobserved [OF this] show ?thesis by (auto simp: panicking_world_def example_world_def)
qed

end
