(* ===== verification/CutShort.thy ===== *)
theory CutShort
  imports Observability
begin

section \<open>Answers that break off\<close>

text \<open>
  A backend whose answer breaks off makes \<open>ReverseProxy\<close> raise \<open>ErrAbortHandler\<close>, with which the
  server would cut the connection; \<open>Recovery\<close> (\<open>internal/middleware/middleware.go\<close>) catches it first.
  This theory follows the panic through the whole chain, from the backend's answer to what the
  client is sent.
\<close>

subsection \<open>The chain hands a panic and the writer through\<close>

definition same_output :: "writer \<Rightarrow> writer \<Rightarrow> bool" where
  "same_output w w' \<longleftrightarrow> w_sent w' = w_sent w \<and> w_body w' = w_body w \<and> w_written w' = w_written w \<and>
     w_Header w' ''Content-Length'' = w_Header w ''Content-Length''"

lemma watched_panic:
  assumes "watched env rt h wd r w = (wd', r', w', Some p)"
  shows "\<exists>w0 w1. h wd r w0 = (wd', r', w1, Some p) \<and> same_output w w0 \<and> same_output w1 w'"
proof -
  obtain w1 where "h wd r (cw_new (cw_new w)) = (wd', r', w1, Some p)" "w' = cw_inner (cw_inner w1)"
    using assms by (auto simp: watched_def Logger_def Metrics_def split: prod.splits option.splits)
  then show ?thesis by (intro exI [of _ "cw_new (cw_new w)"] exI [of _ w1]) (simp add: same_output_def)
qed

lemma route_panic:
  assumes "route_handler lib env upstream ra rt wd r w = (wd', r', w', Some p)"
  shows "\<exists>r1 w0 w1. serveProxy lib (en_clocks env) upstream ra wd r1 w0 = (wd', r', w1, Some p) \<and>
    same_output w w0 \<and> same_output w1 w'"
proof -
  obtain r1 w0 w1 where i: "watched env rt (inner lib env upstream ra rt) wd r1 w0 = (wd', r', w1, Some p)"
      "same_output w w0" "same_output w1 w'"
    using assms
    by (auto simp: route_handler_eq RequestID_def Tracing_def same_output_def header_Set_apply Let_def
        split: if_splits prod.splits option.splits)
  from watched_panic [OF i(1)] obtain w2 w3 where
    h: "inner lib env upstream ra rt wd r1 w2 = (wd', r', w3, Some p)" "same_output w0 w2" "same_output w3 w1" by blast
  have "\<exists>r2. serveProxy lib (en_clocks env) upstream ra wd r2 w2 = (wd', r', w3, Some p)"
  proof (cases "rt_auth rt")
    case None
    with h(1) show ?thesis by (auto simp: inner_def)
  next
    case (Some kc)
    obtain key cfg where "kc = (key, cfg)" by (cases kc)
    with Some h(1) have "AuthHandler (gl_token lib) key cfg (gl_quoteError lib) (en_auth env)
        (serveProxy lib (en_clocks env) upstream ra) wd r1 w2 = (wd', r', w3, Some p)" by (simp add: inner_def)
    then show ?thesis by (cases rule: AuthHandler_cases) auto
  qed
  with h(2,3) i(2,3) show ?thesis by (auto simp: same_output_def)
qed

subsection \<open>Where the panic comes from\<close>

lemma failure_panic: "cb_RecordFailure t0 now b = Inl p \<Longrightarrow> p \<noteq> AbortHandler"
  by (cases b) (auto simp: cb_maybeTrip_def Let_def split: if_splits sum.splits cb_state.splits)

lemma serve_abort:
  assumes "serveProxy lib ck upstream ra wd r w = (wd', r', w', Some AbortHandler)"
  obtains a out code h h2 body where "upstream a out = UpResponse code h body True"
    and "rp_respond code h2 body True w = (w', Some AbortHandler)"
    and "h ''Content-Length'' = None \<Longrightarrow> h2 ''Content-Length'' = None"
proof -
  obtain st rt start where b: "serve_begin lib ck r (gw_store (wd_gw wd)) (gw_heap (wd_gw wd) ! ra) = (st, rt, start)"
    by (metis prod_cases3)
  have "start \<noteq> StartPanic AbortHandler" using b limiter_panic begin_panic by (metis panic.distinct)
  with assms b obtain a out where s: "start = StartForward a out"
    by (cases start) (auto simp: serveProxy_def Let_def)
  let ?up = "case out of None \<Rightarrow> UpError | Some o' \<Rightarrow> upstream a o'"
  have "\<exists>st2 rt2 es. serve_end ck a ?up st rt w = (st2, rt2, w', es, Some AbortHandler)"
    using assms b s by (auto simp: serveProxy_def Let_def split: prod.splits)
  then obtain o' code h body where up: "upstream a o' = UpResponse code h body True"
    and respond: "rp_respond code (header_Set (if code = 101 then h else removeHopByHop h) ''X-Gateway-Backend'' (be_URL (st ! a)))
      body True w = (w', Some AbortHandler)"
    using failure_panic
    by (cases out; cases "upstream a (the out)")
      (auto simp: serve_end_def serve_response_def bad_gateway_def report_failure_def rp_respond_def Let_def
        split: prod.splits sum.splits if_splits)
  show thesis
    by (rule that [OF up respond]) (simp add: header_Set_apply removeHop_apply)
qed

subsection \<open>What the client is sent\<close>

definition error_text :: string where
  "error_text = ''{\"error\":\"internal server error\"}'' @ [CHR 0x0A]"

lemma respond_sent:
  assumes "rp_respond code h body broken w = (w', p)" and "w_sent w = None" and "\<not> informational code"
    and "w_body w = []" and "w_written w = 0"
  shows "\<exists>hd. w_sent w' = Some (code, hd) \<and> (w_Header w ''Content-Length'' = None \<and> h ''Content-Length'' = None \<longrightarrow>
      hd ''Content-Length'' = None) \<and> (bodyAllowed code \<longrightarrow> w_written w' = int (length body)) \<and>
    w_body w' = (if bodyAllowed code \<and> fits hd (int (length body)) then body else [])"
proof -
  let ?w1 = "w_WriteHeader code (w\<lparr>w_Header := copyHeader (w_Header w) h\<rparr>)"
  have w1: "w_sent ?w1 = Some (code, copyHeader (w_Header w) h)" using assms(2,3) by simp
  have "w_body ?w1 = []" "w_written ?w1 = 0" using assms(4,5) by simp_all
  with Write_body [OF w1, of body] w1
  have "w_sent (w_Write body ?w1) = Some (code, copyHeader (w_Header w) h) \<and>
      (bodyAllowed code \<longrightarrow> w_written (w_Write body ?w1) = int (length body)) \<and>
      w_body (w_Write body ?w1) = (if bodyAllowed code \<and> fits (copyHeader (w_Header w) h) (int (length body)) then body else [])"
    by auto
  moreover have "w' = (if body = [] then ?w1 else w_Write body ?w1)"
    using assms(1) by (auto simp: rp_respond_def Let_def)
  ultimately show ?thesis
    using w1 \<open>w_body ?w1 = []\<close> \<open>w_written ?w1 = 0\<close>
    by (intro exI [of _ "copyHeader (w_Header w) h"]) (auto simp: copyHeader_def)
qed

lemma undeclared_fits: "h ''Content-Length'' = None \<Longrightarrow> fits h n"
  by (simp add: fits_def declaredLength_def header_Get_def Let_def)

lemma fits_less: "fits h n \<Longrightarrow> m \<le> n \<Longrightarrow> fits h m"
  by (auto simp: fits_def split: option.splits)

text \<open>
  C27. An answer that breaks off is passed off as complete. When a request ends in the panic that
  should cut its connection, a backend answered with a body that broke off, and the client is sent
  that answer's status, the partial body and, glued to it, the text of an internal error, if
  the declared length leaves room for it (always when none is declared), else the partial body alone.
  The request ends without a panic: where no length was declared the client sees a complete answer.
\<close>

theorem broken_answer_glued:
  assumes "gateway_ServeHTTP lib env upstream wd r w = (wd', r', w', Some AbortHandler)"
    and "\<And>a o'. final_answer (upstream a o')" and "w_sent w = None" and "w_body w = []" and "w_written w = 0"
  shows "\<exists>a out code h body hd wd2 w2. upstream a out = UpResponse code h body True \<and>
    main_handler lib env upstream wd r w = (wd2, r', w2, None) \<and> w_sent w2 = Some (code, hd) \<and>
    w_body w2 =
      (if bodyAllowed code \<and> fits hd (int (length (body @ error_text))) then body @ error_text
       else if bodyAllowed code \<and> fits hd (int (length body)) then body else []) \<and>
    (w_Header w ''Content-Length'' = None \<and> h ''Content-Length'' = None \<and> bodyAllowed code \<longrightarrow> w_body w2 = body @ error_text)"
proof -
  obtain ra rt where "route_handler lib env upstream ra rt wd r w = (wd', r', w', Some AbortHandler)"
    using assms(1) by (auto simp: gateway_ServeHTTP_def Let_def split: option.splits)
  from route_panic [OF this] obtain r1 w0 w1 where
    s: "serveProxy lib (en_clocks env) upstream ra wd r1 w0 = (wd', r', w1, Some AbortHandler)"
    and out: "same_output w w0" "same_output w1 w'" by blast
  from serve_abort [OF s] obtain a out code h h2 body where
    up: "upstream a out = UpResponse code h body True" and respond: "rp_respond code h2 body True w0 = (w1, Some AbortHandler)"
    and h2: "h ''Content-Length'' = None \<longrightarrow> h2 ''Content-Length'' = None"
    by metis
  have code: "\<not> informational code" using assms(2) [of a out] up by simp
  have "w_sent w0 = None" "w_body w0 = []" "w_written w0 = 0" using assms(3-5) out(1) by (simp_all add: same_output_def)
  from respond_sent [OF respond this(1) code this(2,3)] out(2) obtain hd where
    w': "w_sent w' = Some (code, hd)" "bodyAllowed code \<longrightarrow> w_written w' = int (length body)"
    "w_body w' = (if bodyAllowed code \<and> fits hd (int (length body)) then body else [])"
    "w_Header w ''Content-Length'' = None \<and> h ''Content-Length'' = None \<longrightarrow> hd ''Content-Length'' = None"
    using out(1) h2 by (auto simp: same_output_def)
  let ?w2 = "http_Error ''{\"error\":\"internal server error\"}'' 500 w'"
  have "w_sent ?w2 = Some (code, hd)" using w'(1) by (simp add: http_Error_def informational_def)
  moreover have body: "w_body ?w2 = (if bodyAllowed code \<and> fits hd (int (length (body @ error_text))) then body @ error_text
       else if bodyAllowed code \<and> fits hd (int (length body)) then body else [])"
    using Error_body [OF w'(1), of 500 "''{\"error\":\"internal server error\"}''"] w'(2,3)
      fits_less [of hd "int (length (body @ error_text))" "int (length body)"]
    by (auto simp: informational_def error_text_def algebra_simps)
  moreover have "main_handler lib env upstream wd r w = (wd'\<lparr>wd_log := wd_log wd' @ [PanicLine AbortHandler]\<rparr>, r', ?w2, None)"
    using assms(1) by (simp add: main_handler_def Recovery_def)
  moreover have "w_Header w ''Content-Length'' = None \<and> h ''Content-Length'' = None \<and> bodyAllowed code \<longrightarrow>
      w_body ?w2 = body @ error_text"
    using body w'(4) undeclared_fits by simp
  ultimately show ?thesis using up by blast
qed

text \<open>A backend that answers half of what it should.\<close>

definition half_answer :: "addr \<Rightarrow> request \<Rightarrow> upstream" where
  "half_answer a out = UpResponse 200 Map.empty ''half of the an'' True"

lemma half_answer_served:
  assumes "r_Header r ''Connection'' = None"
  shows "\<exists>wd' w'. serveProxy example_lib ck half_answer 0 example_world r w = (wd', r, w', Some AbortHandler)"
proof -
  have "upgradeType (r_Header (gw_director True ''/api'' (''http'', ''a'') r)) = []"
    using assms by (simp add: upgradeType_def has_token_def header_tokens_director) (simp add: header_tokens_def header_values_def)
  then obtain out where "rp_outgoing (gw_director True ''/api'' (''http'', ''a'')) r = Some out"
    by (simp add: rp_outgoing_def Let_def)
  then have "\<exists>st rt. serve_begin example_lib ck r (gw_store (wd_gw example_world)) (gw_heap (wd_gw example_world) ! 0) =
      (st, rt, StartForward 0 (Some out))"
    by (simp add: serve_begin_def example_world_def example_gateway_def example_route_def example_backends_def example_lib_def
        rr_Next_def healthy_def be_IsAlive_def rt_breaker_def put_breaker_def Let_def)
  then show ?thesis
    by (auto simp: serveProxy_def half_answer_def serve_end_def serve_response_def report_success_def rp_respond_def Let_def)
qed

lemma half_answer_aborts:
  "\<exists>wd' r' w'. gateway_ServeHTTP example_lib example_env half_answer example_world (get_request ''/api/x'') new_writer =
     (wd', r', w', Some AbortHandler)"
proof -
  let ?r = "SetRequestHeader ''X-Request-ID'' ''u'' (get_request ''/api/x'')"
  have "r_Header ?r ''Connection'' = None" by (simp add: SetRequestHeader_def get_request_def header_Set_apply)
  from half_answer_served [OF this] obtain wd' w' where
    "serveProxy example_lib (en_clocks example_env) half_answer 0 example_world ?r
       (cw_new (cw_new (w_SetHeader ''X-Request-ID'' ''u'' new_writer))) = (wd', ?r, w', Some AbortHandler)" by blast
  then show ?thesis
    by (simp add: gateway_ServeHTTP_def route_handler_eq watched_def inner_def RequestID_def Logger_def Metrics_def Let_def
        example_world_def [THEN arg_cong, of wd_gw] example_gateway_def example_route_def get_request_def header_Get_def
        example_env_def)
qed

theorem broken_answer_glued_witness:
  "\<exists>wd r w. main_handler example_lib example_env half_answer example_world (get_request ''/api/x'') new_writer = (wd, r, w, None) \<and>
     status_of w = 200 \<and> w_body w = ''half of the an'' @ error_text"
proof -
  obtain wd' r' w' where "gateway_ServeHTTP example_lib example_env half_answer example_world (get_request ''/api/x'') new_writer =
      (wd', r', w', Some AbortHandler)" using half_answer_aborts by blast
  from broken_answer_glued [OF this] show ?thesis
    by (fastforce simp: half_answer_def informational_def bodyAllowed_def new_writer_def status_of_def)
qed

end
