(* ===== verification/Interleaving.thy ===== *)
theory Interleaving
  imports GatewayProps
begin

section \<open>The gateway under concurrent requests, health checks and reloads\<close>

text \<open>
  The system is the gateway and the list of requests in flight, each with the route it entered
  and the backend it was sent to. A step starts a request (which is refused or joins the list),
  finishes one, lets a health checker act, or reloads the configuration; its label says which, and
  for a reload with what configuration and outcome. A reload reads the key file as it is then
  (\<open>fs\<close>), whatever it held before. Requests may still use a route that a reload has replaced. The gates of one request are taken as one step; what they
  read and write is each under a lock or atomic of its own.
\<close>

definition in_range :: "Config \<Rightarrow> bool" where
  "in_range cfg \<longleftrightarrow> (\<forall>rc \<in> set (cfg_Routes cfg). length (rc_Backends rc) < 2 ^ 32 \<and>
     (\<forall>c. rc_CircuitBreaker rc = Some c \<longrightarrow> cbc_wf c))"

fun forwards :: "start \<Rightarrow> bool" where
  "forwards (StartForward a out) = True"
| "forwards s = False"

datatype gw_event =
    Beginning
  | Finishing
  | Checking
  | Reloading Config "(nat \<times> string \<times> route_error) option"

inductive gw_step :: "'k gwlib \<Rightarrow> gw_event \<Rightarrow> 'k gateway \<times> (nat \<times> addr) list \<Rightarrow> 'k gateway \<times> (nat \<times> addr) list \<Rightarrow> bool" for lib where
  begin_forward: "ra < length (gw_heap g) \<Longrightarrow>
    serve_begin lib ck r (gw_store g) (gw_heap g ! ra) = (st, rt, StartForward a out) \<Longrightarrow>
    gw_step lib Beginning (g, fl) (set_route ra st rt g, (ra, a) # fl)"
| begin_refuse: "ra < length (gw_heap g) \<Longrightarrow>
    serve_begin lib ck r (gw_store g) (gw_heap g ! ra) = (st, rt, start) \<Longrightarrow> \<not> forwards start \<Longrightarrow>
    gw_step lib Beginning (g, fl) (set_route ra st rt g, fl)"
| finish: "(ra, a) \<in> set fl \<Longrightarrow>
    serve_end ck a up (gw_store g) (gw_heap g ! ra) w = (st, rt, rest) \<Longrightarrow>
    gw_step lib Finishing (g, fl) (set_route ra st rt g, remove1 (ra, a) fl)"
| health: "i < length (gw_checkers g) \<Longrightarrow>
    health_step ev (gw_checkers g ! i, gw_store g) (c, st) \<Longrightarrow>
    gw_step lib Checking (g, fl) (g\<lparr>gw_store := st, gw_checkers := (gw_checkers g)[i := c]\<rparr>, fl)"
| reload: "in_range cfg \<Longrightarrow> Reload (lib\<lparr>gl_readFile := fs\<rparr>) cfg g = (g', e) \<Longrightarrow>
    gw_step lib (Reloading cfg e) (g, fl) (g', fl)"

text \<open>The states reachable from a gateway as \<open>NewGateway\<close> returns it, with nothing in flight.\<close>

inductive gw_reach :: "'k gwlib \<Rightarrow> 'k gateway \<times> (nat \<times> addr) list \<Rightarrow> bool" for lib where
  reach_new: "in_range cfg \<Longrightarrow> NewGateway lib cfg auth traced = Inr g \<Longrightarrow> gw_reach lib (g, [])"
| reach_step: "gw_reach lib s \<Longrightarrow> gw_step lib ev s s' \<Longrightarrow> gw_reach lib s'"

subsection \<open>The invariant\<close>

text \<open>Every pointer is valid: of a route, of the route table, of a checker, of a request.\<close>

definition route_ok :: "nat \<Rightarrow> nat \<Rightarrow> 'k route \<Rightarrow> bool" where
  "route_ok n m rt \<longleftrightarrow> lb_ok (rt_lb rt) \<and> (\<forall>a \<in> set (lb_Backends (rt_lb rt)). a < n) \<and> rt_checker rt < m \<and>
     (\<forall>u. breaker_ok (rt_breaker rt u))"

definition checker_ok :: "nat \<Rightarrow> Checker \<Rightarrow> bool" where
  "checker_ok n c \<longleftrightarrow> (\<forall>a \<in> set (hc_backends c). a < n)"

definition gw_ok :: "'k gateway \<Rightarrow> bool" where
  "gw_ok g \<longleftrightarrow> list_all (route_ok (length (gw_store g)) (length (gw_checkers g))) (gw_heap g) \<and>
     (\<forall>ra \<in> set (gw_routes g). ra < length (gw_heap g)) \<and>
     list_all (checker_ok (length (gw_store g))) (gw_checkers g)"

definition flights_ok :: "'k gateway \<Rightarrow> (nat \<times> addr) list \<Rightarrow> bool" where
  "flights_ok g fl \<longleftrightarrow> (\<forall>(ra, a) \<in> set fl. ra < length (gw_heap g) \<and> a < length (gw_store g))"

definition counts_ok :: "store \<Rightarrow> (nat \<times> addr) list \<Rightarrow> bool" where
  "counts_ok st fl \<longleftrightarrow> (\<forall>a < length st. be_inflight (st ! a) = i64 (int (count_list (map snd fl) a)))"

definition sys_ok :: "'k gateway \<times> (nat \<times> addr) list \<Rightarrow> bool" where
  "sys_ok s \<longleftrightarrow> gw_ok (fst s) \<and> flights_ok (fst s) (snd s) \<and> counts_ok (gw_store (fst s)) (snd s)"

lemma route_ok_mono: "route_ok n m rt \<Longrightarrow> n \<le> n' \<Longrightarrow> m \<le> m' \<Longrightarrow> route_ok n' m' rt"
  by (auto simp: route_ok_def intro: less_le_trans)

lemma checker_ok_mono: "checker_ok n c \<Longrightarrow> n \<le> n' \<Longrightarrow> checker_ok n' c"
  by (auto simp: checker_ok_def intro: less_le_trans)

lemma list_all_mono_route:
  "list_all (route_ok n m) rts \<Longrightarrow> n \<le> n' \<Longrightarrow> m \<le> m' \<Longrightarrow> list_all (route_ok n' m') rts"
  by (auto simp: list_all_iff intro: route_ok_mono)

lemma list_all_mono_checker: "list_all (checker_ok n) cs \<Longrightarrow> n \<le> n' \<Longrightarrow> list_all (checker_ok n') cs"
  by (auto simp: list_all_iff intro: checker_ok_mono)

lemma list_all_put: "list_all P xs \<Longrightarrow> P x \<Longrightarrow> list_all P (xs[i := x])"
  by (auto simp: list_all_iff dest: set_update_subset_insert [THEN subsetD])

subsection \<open>In-flight counters\<close>

lemma i64_add: "i64 (i64 x + y) = i64 (x + y)"
proof -
  have "(((x + 2 ^ 63) mod 2 ^ 64 - 2 ^ 63) + y + 2 ^ 63) mod 2 ^ 64 = ((x + 2 ^ 63) mod 2 ^ 64 + y) mod 2 ^ 64"
    by (simp add: algebra_simps)
  also have "\<dots> = (x + y + 2 ^ 63) mod 2 ^ 64" by (simp add: mod_simps algebra_simps)
  finally show ?thesis by (simp only: i64_def)
qed

lemma inflight_SetAlive [simp]: "be_inflight (be_SetAlive st a v ! b) = be_inflight (st ! b)"
  unfolding be_SetAlive_def by (rule nth_update_field) simp

lemma length_be [simp]: "length (be_Inc st a) = length st" "length (be_Dec st a) = length st"
  by (simp_all add: be_Inc_def be_Dec_def)

lemma inflight_Inc:
  "a < length st \<Longrightarrow> be_inflight (be_Inc st a ! b) = (if b = a then i64 (be_inflight (st ! b) + 1) else be_inflight (st ! b))"
  by (simp add: be_Inc_def nth_list_update)

lemma inflight_Dec:
  "a < length st \<Longrightarrow> be_inflight (be_Dec st a ! b) = (if b = a then i64 (be_inflight (st ! b) - 1) else be_inflight (st ! b))"
  by (simp add: be_Dec_def nth_list_update)

lemma counts_Inc: "counts_ok st fl \<Longrightarrow> a < length st \<Longrightarrow> counts_ok (be_Inc st a) ((ra, a) # fl)"
  by (auto simp: counts_ok_def inflight_Inc i64_add add.commute [of 1])

lemma count_remove1: "(ra, a) \<in> set fl \<Longrightarrow>
    int (count_list (map snd (remove1 (ra, a) fl)) b) = int (count_list (map snd fl) b) - (if b = a then 1 else 0)"
proof (induction fl)
  case (Cons f fl)
  then show ?case
    by (cases "f = (ra, a)") auto
qed simp

lemma counts_Dec:
  assumes "counts_ok st fl" and "(ra, a) \<in> set fl" and "a < length st"
  shows "counts_ok (be_Dec st a) (remove1 (ra, a) fl)"
  using assms by (auto simp: counts_ok_def inflight_Dec count_remove1 i64_add [of _ "- 1", simplified])

lemma counts_Inc_Dec: "counts_ok st fl \<Longrightarrow> a < length st \<Longrightarrow> counts_ok (be_Dec (be_Inc st a) a) fl"
  by (auto simp: counts_ok_def inflight_Dec inflight_Inc i64_add [of _ "- 1", simplified] i64_add)

lemma counts_same:
  "counts_ok st fl \<Longrightarrow> length st' = length st \<Longrightarrow> (\<And>b. be_inflight (st' ! b) = be_inflight (st ! b)) \<Longrightarrow> counts_ok st' fl"
  by (simp add: counts_ok_def)

subsection \<open>The request steps keep it\<close>

lemma Allow_ok: "breaker_ok b \<Longrightarrow> breaker_ok (fst (cb_Allow t b))"
proof (cases b)
  case (Some x)
  assume "breaker_ok b"
  with Some have "cb_inv x" by (simp add: breaker_ok_def)
  from cb_inv_step [OF this, of "EvAllow t"] have inv: "cb_inv (the (fst (cb_Allow t (Some x))))"
    by (auto simp del: cb_Allow.simps)
  have "fst (cb_Allow t (Some x)) \<noteq> None" by (auto split: cb_state.splits)
  then obtain y where "fst (cb_Allow t (Some x)) = Some y" by blast
  with inv Some show ?thesis by (simp add: breaker_ok_def del: cb_Allow.simps)
qed (simp add: breaker_ok_def)

lemma put_breaker_ok:
  "\<forall>u. breaker_ok (rt_breaker rt u) \<Longrightarrow> breaker_ok b \<Longrightarrow> breaker_ok (rt_breaker (put_breaker url b rt) u)"
  by (auto simp: put_breaker_def rt_breaker_def breaker_ok_def split: option.splits)

lemma breaker_of_update [simp]:
  "rt_breaker (rt\<lparr>rt_rl := l\<rparr>) u = rt_breaker rt u" "rt_breaker (rt\<lparr>rt_lb := b\<rparr>) u = rt_breaker rt u"
  by (simp_all add: rt_breaker_def)

lemma serve_begin_breakers:
  assumes "serve_begin lib ck r st rt = (st', rt', start)" and "\<forall>u. breaker_ok (rt_breaker rt u)"
  shows "rt_checker rt' = rt_checker rt \<and> breaker_ok (rt_breaker rt' u)"
  using assms Allow_ok [of "rt_breaker rt x" for x]
  by (auto simp: serve_begin_def Let_def put_breaker_ok case_prod_beta
      split: sum.splits rl_result.splits option.splits prod.splits)

lemma begin_keeps:
  assumes "route_ok (length st) m rt" and "serve_begin lib ck r st rt = (st', rt', start)"
  shows "route_ok (length st) m rt'" and "start = StartForward a out \<Longrightarrow> a < length st \<and> st' = be_Inc st a"
    and "\<not> forwards start \<Longrightarrow> st' = st \<or> (\<exists>a < length st. st' = be_Dec (be_Inc st a) a)"
proof -
  have ok: "lb_ok (rt_lb rt)" and refs: "\<forall>a \<in> set (lb_Backends (rt_lb rt)). a < length st"
    using assms(1) by (simp_all add: route_ok_def)
  from serve_begin_gates [OF ok assms(2)] have g: "gates lib ck r st rt st' rt' start"
      "lb_Backends (rt_lb rt') = lb_Backends (rt_lb rt)" by simp_all
  show "route_ok (length st) m rt'"
    using assms serve_begin_breakers [OF assms(2)] g(2) by (simp add: route_ok_def lb_ok_def)
  show "start = StartForward a out \<Longrightarrow> a < length st \<and> st' = be_Inc st a"
    using g(1) refs by (simp add: gates_def Let_def)
  show "\<not> forwards start \<Longrightarrow> st' = st \<or> (\<exists>a < length st. st' = be_Dec (be_Inc st a) a)"
    using g(1) refs by (cases start) (auto simp: gates_def Let_def list_ex_iff)
qed

lemma report_failure_keeps:
  assumes "route_ok n m rt"
  shows "\<exists>rt'. report_failure ck a st rt = Inr (be_SetAlive st a False, rt') \<and> route_ok n m rt'"
proof -
  have "\<forall>u. breaker_ok (rt_breaker rt u)" using assms by (simp add: route_ok_def)
  with report_failure_ok [of rt st a ck] put_breaker_ok [of rt] assms show ?thesis
    by (fastforce simp: route_ok_def)
qed

lemma report_success_keeps:
  assumes "route_ok n m rt"
  shows "fst (report_success ck a st rt) = be_SetAlive st a True" and "route_ok n m (snd (report_success ck a st rt))"
  using assms RecordSuccess_ok [of "rt_breaker rt (be_URL (st ! a))"] put_breaker_ok [of rt]
  by (simp_all add: report_success_def Let_def route_ok_def)

lemma bad_gateway_keeps:
  assumes "route_ok n m rt"
  shows "\<exists>rt'. bad_gateway ck a st rt w =
    (be_SetAlive st a False, rt', http_Error ''bad gateway'' 502 w, [ErrorLine ''upstream error'' (be_URL (st ! a))], None) \<and>
    route_ok n m rt'"
  using report_failure_keeps [OF assms, of ck a st] by (auto simp: bad_gateway_def)

text \<open>The alive flag apart, the store of a request that ends only loses one from its counter.\<close>

lemma end_keeps:
  assumes "route_ok n m rt" and "serve_end ck a up st rt w = (st', rt', w', entries, p)"
  shows "route_ok n m rt'" and "p \<in> {None, Some AbortHandler}"
    and "\<exists>st1. st' = be_Dec st1 a \<and> length st1 = length st \<and> (\<forall>b. be_inflight (st1 ! b) = be_inflight (st ! b))"
proof -
  obtain rt1 where rt1: "bad_gateway ck a st rt w =
    (be_SetAlive st a False, rt1, http_Error ''bad gateway'' 502 w, [ErrorLine ''upstream error'' (be_URL (st ! a))], None)"
    "route_ok n m rt1" using bad_gateway_keeps [OF assms(1)] by blast
  obtain rt2 where rt2: "report_failure ck a st rt = Inr (be_SetAlive st a False, rt2)" "route_ok n m rt2"
    using report_failure_keeps [OF assms(1)] by blast
  obtain rt3 where rt3: "report_success ck a st rt = (be_SetAlive st a True, rt3)" "route_ok n m rt3"
    using report_success_keeps [OF assms(1), of ck a st] by (metis prod.collapse)
  obtain rt4 where rt4: "bad_gateway ck a (be_SetAlive st a True) rt3 w =
    (be_SetAlive (be_SetAlive st a True) a False, rt4, http_Error ''bad gateway'' 502 w,
     [ErrorLine ''upstream error'' (be_URL (st ! a))], None)"
    "route_ok n m rt4" using bad_gateway_keeps [OF rt3(2), of ck a "be_SetAlive st a True" w] by auto
  show "route_ok n m rt'" "p \<in> {None, Some AbortHandler}"
    "\<exists>st1. st' = be_Dec st1 a \<and> length st1 = length st \<and> (\<forall>b. be_inflight (st1 ! b) = be_inflight (st ! b))"
    using assms(2) rt1 rt2 rt3 rt4
    by (cases up; auto simp: serve_end_def serve_response_def rp_respond_def Let_def split: if_splits prod.splits)+
qed

lemma set_route_fields [simp]:
  "gw_store (set_route ra st rt g) = st" "gw_heap (set_route ra st rt g) = (gw_heap g)[ra := rt]"
  "gw_routes (set_route ra st rt g) = gw_routes g" "gw_checkers (set_route ra st rt g) = gw_checkers g"
  by (simp_all add: set_route_def)

lemma gw_ok_set_route:
  assumes "gw_ok g" and "length st = length (gw_store g)"
    and "route_ok (length (gw_store g)) (length (gw_checkers g)) rt"
  shows "gw_ok (set_route ra st rt g)"
  using assms list_all_put by (auto simp: gw_ok_def)

lemma gw_ok_route:
  "gw_ok g \<Longrightarrow> ra < length (gw_heap g) \<Longrightarrow> route_ok (length (gw_store g)) (length (gw_checkers g)) (gw_heap g ! ra)"
  by (simp add: gw_ok_def list_all_length)

subsection \<open>Checkers and reloads keep it\<close>

lemma checkOne_frame [simp]:
  "length (checkOne get a st) = length st" "be_inflight (checkOne get a st ! b) = be_inflight (st ! b)"
  by (simp_all add: checkOne_eq)

lemma checkAll_frame:
  "length (checkAll get as st) = length st \<and> be_inflight (checkAll get as st ! b) = be_inflight (st ! b)"
  by (induction as arbitrary: st) (simp_all add: checkAll_def)

lemma health_step_frame:
  assumes "health_step ev (c, st) (c', st')"
  shows "hc_backends c' = hc_backends c \<and> length st' = length st \<and> be_inflight (st' ! b) = be_inflight (st ! b)"
  using assms by (cases rule: health_step.cases) (simp_all add: checkAll_frame)

definition fresh_backend :: "BackendConfig \<Rightarrow> Backend" where
  "fresh_backend c = \<lparr>be_URL = bc_URL c, be_Weight = bc_Weight c, be_alive = True, be_inflight = 0\<rparr>"

lemma buildBackends_eq:
  "buildBackends st cs = (st @ map fresh_backend cs, [length st..<length st + length cs])"
proof (induction cs arbitrary: st)
  case (Cons c cs)
  have "[length st..<length st + length (c # cs)] = length st # [Suc (length st)..<Suc (length st) + length cs]"
    by (subst upt_conv_Cons) simp_all
  with Cons [of "st @ [fresh_backend c]"] show ?case
    by (simp add: newBackend_def fresh_backend_def del: upt_Suc)
qed simp

lemma lb_New_eq:
  "fst (lb_New st alg cs) = st @ map fresh_backend cs"
  "lb_Backends (snd (lb_New st alg cs)) = [length st..<length st + length cs]"
  by (auto simp: lb_New_def buildBackends_eq newWeighted_def w_Backends_def o_def)

lemma cb_New_ok: "(\<forall>c. cfg = Some c \<longrightarrow> cbc_wf c) \<Longrightarrow>
    breaker_ok (snd (cb_New cfg)) \<and> (\<forall>c. fst (cb_New cfg) = Some c \<longrightarrow> cbc_wf c)"
proof (cases cfg)
  case (Some c)
  assume "\<forall>c. cfg = Some c \<longrightarrow> cbc_wf c"
  with Some have wf: "cbc_wf c" by simp
  obtain b where b: "snd (cb_New (Some c)) = Some b" by (simp add: cb_New_def Let_def)
  from cb_New_inv [OF wf b] b Some defaults_wf [OF wf] show ?thesis
    by (simp add: breaker_ok_def cb_New_def Let_def)
qed (simp add: cb_New_def breaker_ok_def)

lemma buildBreakers_ok:
  "(\<forall>c. cfg = Some c \<longrightarrow> cbc_wf c) \<Longrightarrow> (\<forall>u b. m u = Some b \<longrightarrow> breaker_ok b) \<Longrightarrow>
   buildBreakers cfg bs m u = Some b \<Longrightarrow> breaker_ok b"
proof (induction bs arbitrary: cfg m)
  case (Cons c bs)
  obtain cfg' cb where New: "cb_New cfg = (cfg', cb)" by (cases "cb_New cfg")
  with cb_New_ok [OF Cons.prems(1)] have cfg': "\<forall>c. cfg' = Some c \<longrightarrow> cbc_wf c" and "breaker_ok cb" by simp_all
  with Cons.prems(2) have m: "\<forall>u b. (m(bc_URL c \<mapsto> cb)) u = Some b \<longrightarrow> breaker_ok b" by simp
  have "buildBreakers cfg' bs (m(bc_URL c \<mapsto> cb)) u = Some b" using Cons.prems(3) New by simp
  then show ?case by (rule Cons.IH [OF cfg' m])
qed auto

text \<open>What building routes may do to the gateway: its heaps grow, at their ends.\<close>

definition extends :: "'k gateway \<Rightarrow> 'k gateway \<Rightarrow> bool" where
  "extends g g' \<longleftrightarrow> gw_routes g' = gw_routes g \<and> gw_authConfig g' = gw_authConfig g \<and> gw_traced g' = gw_traced g \<and>
     (\<exists>bs cs rs. gw_store g' = gw_store g @ bs \<and> gw_checkers g' = gw_checkers g @ cs \<and> gw_heap g' = gw_heap g @ rs \<and>
        (\<forall>b \<in> set bs. be_inflight b = 0) \<and> (\<forall>c \<in> set cs. \<not> hc_cancelled c))"

lemma extends_refl: "extends g g"
  by (simp add: extends_def)

lemma extends_trans: "extends g g' \<Longrightarrow> extends g' g'' \<Longrightarrow> extends g g''"
  unfolding extends_def by (auto simp: Ball_def)

definition rc_in_range :: "RouteConfig \<Rightarrow> bool" where
  "rc_in_range rc \<longleftrightarrow> length (rc_Backends rc) < 2 ^ 32 \<and> (\<forall>c. rc_CircuitBreaker rc = Some c \<longrightarrow> cbc_wf c)"

lemma in_range_iff: "in_range cfg \<longleftrightarrow> (\<forall>rc \<in> set (cfg_Routes cfg). rc_in_range rc)"
  by (simp add: in_range_def rc_in_range_def)

text \<open>A route that is built, and the state it leaves, with or without an error.\<close>

lemma buildRoute_cases:
  obtains (limiter) e where "buildRoute lib cfg g =
      (g\<lparr>gw_store := gw_store g @ map fresh_backend (rc_Backends cfg)\<rparr>, Inl e)"
  | (auth) e c where "buildRoute lib cfg g =
      (g\<lparr>gw_store := gw_store g @ map fresh_backend (rc_Backends cfg), gw_checkers := gw_checkers g @ [c]\<rparr>, Inl e)"
      and "c = health_New [length (gw_store g)..<length (gw_store g) + length (rc_Backends cfg)]"
  | (built) c rt where "buildRoute lib cfg g =
      (g\<lparr>gw_store := gw_store g @ map fresh_backend (rc_Backends cfg), gw_checkers := gw_checkers g @ [c],
         gw_heap := gw_heap g @ [rt]\<rparr>, Inr (length (gw_heap g)))"
      and "c = health_New [length (gw_store g)..<length (gw_store g) + length (rc_Backends cfg)]"
      and "rt_prefix rt = rc_PathPrefix cfg" and "rt_checker rt = length (gw_checkers g)"
      and "lb_Backends (rt_lb rt) = [length (gw_store g)..<length (gw_store g) + length (rc_Backends cfg)]"
      and "rt_breakers rt = buildBreakers (rc_CircuitBreaker cfg) (rc_Backends cfg) Map.empty"
      and "rt_strip rt = rc_StripPrefix cfg" and "rt_timeout rt = secondsToDuration (rc_TimeoutSeconds cfg)"
      and "rt_traced rt = gw_traced g" and "route_auth lib (gw_authConfig g) = Inr (rt_auth rt)"
      and "rl_New (gl_parseRedis lib) (rc_RateLimit cfg) = Inr (rt_rl rt)"
      and "rt_lb rt = snd (lb_New (gw_store g) (rc_LBAlgorithm cfg) (rc_Backends cfg))"
proof -
  obtain st lb where l: "lb_New (gw_store g) (rc_LBAlgorithm cfg) (rc_Backends cfg) = (st, lb)" by (metis prod.collapse)
  then have st: "st = gw_store g @ map fresh_backend (rc_Backends cfg)"
      and lb: "lb_Backends lb = [length (gw_store g)..<length (gw_store g) + length (rc_Backends cfg)]"
    using lb_New_eq [of "gw_store g" "rc_LBAlgorithm cfg" "rc_Backends cfg"] by simp_all
  show thesis
  proof (cases "rl_New (gl_parseRedis lib) (rc_RateLimit cfg)")
    case (Inl e)
    with l st show thesis by (intro limiter [where e = "LimiterError e"]) (simp add: buildRoute_def)
  next
    case (Inr rl)
    show thesis
    proof (cases "route_auth lib (gw_authConfig g)")
      case (Inl e)
      with Inr l st lb show thesis
        by (intro auth [where e = "AuthError e"]) (simp_all add: buildRoute_def Let_def \<open>rl_New _ _ = Inr rl\<close>)
    next
      case (Inr a)
      with \<open>rl_New _ _ = Inr rl\<close> l st lb show thesis
        by (intro built [where rt = "\<lparr>rt_prefix = rc_PathPrefix cfg, rt_strip = rc_StripPrefix cfg,
              rt_timeout = secondsToDuration (rc_TimeoutSeconds cfg), rt_lb = lb, rt_rl = rl,
              rt_breakers = buildBreakers (rc_CircuitBreaker cfg) (rc_Backends cfg) Map.empty,
              rt_checker = length (gw_checkers g), rt_traced = gw_traced g, rt_auth = a\<rparr>"])
          (simp_all add: buildRoute_def Let_def)
    qed
  qed
qed

lemma buildRoute_keeps:
  assumes "buildRoute lib cfg g = (g', res)" and "rc_in_range cfg" and "gw_ok g"
  shows "extends g g'" and "gw_ok g'"
    and "res = Inr ra \<Longrightarrow> ra = length (gw_heap g) \<and> length (gw_heap g') = Suc ra \<and>
      rt_prefix (gw_heap g' ! ra) = rc_PathPrefix cfg \<and> length (gw_checkers g') = Suc (length (gw_checkers g))"
proof -
  have new: "checker_ok (length (gw_store g) + length (rc_Backends cfg))
      (health_New [length (gw_store g)..<length (gw_store g) + length (rc_Backends cfg)])"
    by (simp add: checker_ok_def health_New_def)
  note old = assms(3) [unfolded gw_ok_def]
  have grow: "list_all (route_ok (length (gw_store g) + length (rc_Backends cfg)) (length (gw_checkers g))) (gw_heap g)"
      "list_all (route_ok (length (gw_store g) + length (rc_Backends cfg)) (Suc (length (gw_checkers g)))) (gw_heap g)"
      "list_all (checker_ok (length (gw_store g) + length (rc_Backends cfg))) (gw_checkers g)"
    using old by (auto intro: list_all_mono_route list_all_mono_checker)
  have "extends g g' \<and> gw_ok g' \<and> (\<forall>ra. res = Inr ra \<longrightarrow> ra = length (gw_heap g) \<and> length (gw_heap g') = Suc ra \<and>
      rt_prefix (gw_heap g' ! ra) = rc_PathPrefix cfg \<and> length (gw_checkers g') = Suc (length (gw_checkers g)))"
  proof (cases rule: buildRoute_cases [where lib = lib and cfg = cfg and g = g])
    case (limiter e)
    with assms(1) old grow show ?thesis
      by (auto simp: extends_def gw_ok_def fresh_backend_def)
  next
    case (auth e c)
    with assms(1) old grow new show ?thesis
      by (auto simp: extends_def gw_ok_def fresh_backend_def health_New_def)
  next
    case (built c rt)
    have "breaker_ok (rt_breaker rt u)" for u
      using buildBreakers_ok [of "rc_CircuitBreaker cfg" Map.empty "rc_Backends cfg" u] assms(2) built(6)
      by (auto simp: rt_breaker_def rc_in_range_def breaker_ok_def split: option.splits)
    then have "route_ok (length (gw_store g) + length (rc_Backends cfg)) (Suc (length (gw_checkers g))) rt"
      using built assms(2) by (simp add: route_ok_def lb_ok_def few_def rc_in_range_def)
    with built assms(1) old grow new show ?thesis
      by (auto simp: extends_def gw_ok_def fresh_backend_def health_New_def)
  qed
  then show "extends g g'" "gw_ok g'" "res = Inr ra \<Longrightarrow> ra = length (gw_heap g) \<and> length (gw_heap g') = Suc ra \<and>
      rt_prefix (gw_heap g' ! ra) = rc_PathPrefix cfg \<and> length (gw_checkers g') = Suc (length (gw_checkers g))" by blast+
qed

lemma buildRoutes_keeps:
  assumes "buildRoutes lib i cs g = (g', res)" and "\<forall>rc \<in> set cs. rc_in_range rc" and "gw_ok g"
  shows "extends g g' \<and> gw_ok g' \<and>
    (\<forall>ras. res = Inr ras \<longrightarrow> (\<forall>ra \<in> set ras. ra < length (gw_heap g')) \<and>
       map (\<lambda>ra. rt_prefix (gw_heap g' ! ra)) ras = map rc_PathPrefix cs \<and>
       length (gw_checkers g') = length (gw_checkers g) + length cs)"
  using assms
proof (induction cs arbitrary: i g g' res)
  case Nil
  then show ?case by (auto simp: extends_refl)
next
  case (Cons c cs)
  obtain g1 r1 where b1: "buildRoute lib c g = (g1, r1)" by (cases "buildRoute lib c g")
  have c: "rc_in_range c" "\<forall>rc \<in> set cs. rc_in_range rc" using Cons.prems(2) by simp_all
  note k1 = buildRoute_keeps [OF b1 c(1) Cons.prems(3)]
  show ?case
  proof (cases r1)
    case (Inl e)
    with b1 Cons.prems(1) k1 show ?thesis by auto
  next
    case (Inr ra)
    obtain r2 where b2: "buildRoutes lib (Suc i) cs g1 = (g', r2)" "res = map_sum id (\<lambda>ras. ra # ras) r2"
      using b1 Inr Cons.prems(1) by (cases "buildRoutes lib (Suc i) cs g1") auto
    note k2 = Cons.IH [OF b2(1) c(2) k1(2)]
    from k2 obtain rs where heap: "gw_heap g' = gw_heap g1 @ rs" by (auto simp: extends_def)
    with k1(3) [OF Inr] k2 b2(2) extends_trans [OF k1(1)] show ?thesis
      by (cases r2) (auto simp: nth_append)
  qed
qed

lemma stopRemoved_frame:
  "length (stopRemoved P heap ras cs) = length cs \<and> hc_backends (stopRemoved P heap ras cs ! i) = hc_backends (cs ! i)"
proof (induction ras arbitrary: cs)
  case (Cons ra ras)
  let ?cs = "cs[rt_checker (heap ! ra) := health_Stop (cs ! rt_checker (heap ! ra))]"
  have "hc_backends (?cs ! i) = hc_backends (cs ! i)"
    by (rule nth_update_field) (simp add: health_Stop_def)
  with Cons show ?case by simp
qed simp

lemma Reload_keeps:
  assumes "Reload lib cfg g = (g', e)" and "in_range cfg" and "gw_ok g"
  shows "gw_ok g' \<and> length (gw_heap g) \<le> length (gw_heap g') \<and>
    (\<exists>bs. gw_store g' = gw_store g @ bs \<and> (\<forall>b \<in> set bs. be_inflight b = 0))"
proof -
  obtain g1 res where b: "buildRoutes lib 0 (cfg_Routes cfg) g = (g1, res)" by (metis prod.collapse)
  note k = buildRoutes_keeps [OF b assms(2) [unfolded in_range_iff] assms(3)]
  show ?thesis
  proof (cases res)
    case (Inl e)
    with b k assms(1) show ?thesis by (auto simp: Reload_def extends_def)
  next
    case (Inr ras)
    let ?P = "set (map (\<lambda>ra. rt_prefix (gw_heap g1 ! ra)) ras)"
    have g': "g' = g1\<lparr>gw_routes := ras, gw_checkers := stopRemoved ?P (gw_heap g1) (gw_routes g1) (gw_checkers g1)\<rparr>"
      using b Inr assms(1) by (simp add: Reload_def Let_def)
    have "list_all (checker_ok (length (gw_store g1))) (gw_checkers g')"
      using k stopRemoved_frame [of ?P "gw_heap g1" "gw_routes g1" "gw_checkers g1"]
      by (auto simp: g' gw_ok_def list_all_length checker_ok_def)
    with k Inr stopRemoved_frame [of ?P "gw_heap g1" "gw_routes g1" "gw_checkers g1"] show ?thesis
      by (auto simp: g' gw_ok_def extends_def)
  qed
qed

lemma gw_ok_empty: "gw_ok \<lparr>gw_store = [], gw_checkers = [], gw_heap = [], gw_routes = [], gw_authConfig = auth, gw_traced = traced\<rparr>"
  by (simp add: gw_ok_def)

lemma NewGateway_keeps:
  assumes "NewGateway lib cfg auth traced = Inr g" and "in_range cfg"
  shows "gw_ok g \<and> (\<forall>b \<in> set (gw_store g). be_inflight b = 0)"
proof -
  let ?g0 = "\<lparr>gw_store = [], gw_checkers = [], gw_heap = [], gw_routes = [], gw_authConfig = auth, gw_traced = traced\<rparr>"
  obtain g1 res where b: "buildRoutes lib 0 (cfg_Routes cfg) ?g0 = (g1, res)" by (metis prod.collapse)
  note k = buildRoutes_keeps [OF b assms(2) [unfolded in_range_iff] gw_ok_empty]
  from assms(1) b obtain ras where "res = Inr ras" "g = g1\<lparr>gw_routes := ras\<rparr>"
    by (auto simp: NewGateway_def split: sum.splits)
  with k show ?thesis by (auto simp: gw_ok_def extends_def)
qed

subsection \<open>Every reachable state\<close>

lemma counts_extend:
  assumes "counts_ok st fl" and "\<forall>b \<in> set bs. be_inflight b = 0" and "\<forall>(ra, a) \<in> set fl. a < length st"
  shows "counts_ok (st @ bs) fl"
proof -
  have "be_inflight ((st @ bs) ! a) = i64 (int (count_list (map snd fl) a))" if "a < length (st @ bs)" for a
  proof (cases "a < length st")
    case True
    with assms(1) show ?thesis by (simp add: counts_ok_def nth_append)
  next
    case False
    then have "a \<notin> set (map snd fl)" using assms(3) by auto
    then have "count_list (map snd fl) a = 0" by (rule count_notin)
    moreover have "be_inflight ((st @ bs) ! a) = 0"
      using False that assms(2) by (simp add: nth_append)
    ultimately show ?thesis by (simp add: in_i64_def)
  qed
  then show ?thesis by (simp add: counts_ok_def)
qed

lemma sys_ok_step: "gw_step lib ev s s' \<Longrightarrow> sys_ok s \<Longrightarrow> sys_ok s'"
proof (induction rule: gw_step.induct)
  case (begin_forward ra g ck r st rt a out fl)
  from begin_forward.prems have g: "gw_ok g" "flights_ok g fl" "counts_ok (gw_store g) fl" by (simp_all add: sys_ok_def)
  note k = begin_keeps [OF gw_ok_route [OF g(1) begin_forward.hyps(1)] begin_forward.hyps(2)]
  with g begin_forward.hyps(1) show ?case
    by (auto simp: sys_ok_def flights_ok_def intro!: gw_ok_set_route counts_Inc)
next
  case (begin_refuse ra g ck r st rt start fl)
  from begin_refuse.prems have g: "gw_ok g" "flights_ok g fl" "counts_ok (gw_store g) fl" by (simp_all add: sys_ok_def)
  note k = begin_keeps [OF gw_ok_route [OF g(1) begin_refuse.hyps(1)] begin_refuse.hyps(2)]
  have "length st = length (gw_store g)" "counts_ok st fl"
    using k(3) begin_refuse.hyps(3) g(3) counts_Inc_Dec by auto
  with g k(1) show ?case by (auto simp: sys_ok_def flights_ok_def intro!: gw_ok_set_route)
next
  case (finish ra a fl ck up g w st rt rest)
  from finish.prems have g: "gw_ok g" "flights_ok g fl" "counts_ok (gw_store g) fl" by (simp_all add: sys_ok_def)
  then have ra: "ra < length (gw_heap g)" "a < length (gw_store g)" using finish.hyps(1) by (auto simp: flights_ok_def)
  obtain w' es p where rest: "rest = (w', es, p)" by (cases rest)
  note k = end_keeps [OF gw_ok_route [OF g(1) ra(1)] finish.hyps(2) [unfolded rest]]
  from k(3) obtain st1 where st1: "st = be_Dec st1 a" "length st1 = length (gw_store g)"
      "\<forall>b. be_inflight (st1 ! b) = be_inflight (gw_store g ! b)" by blast
  have "counts_ok st (remove1 (ra, a) fl)"
    using counts_Dec [OF counts_same [OF g(3) st1(2)] finish.hyps(1)] st1 ra(2) by simp
  moreover have "flights_ok (set_route ra st rt g) (remove1 (ra, a) fl)"
    using g(2) st1(1,2) notin_set_remove1 by (fastforce simp: flights_ok_def)
  ultimately show ?case using g(1) k(1) st1(1,2) by (auto simp: sys_ok_def intro!: gw_ok_set_route)
next
  case (health i g ev c st fl)
  from health.prems have g: "gw_ok g" "flights_ok g fl" "counts_ok (gw_store g) fl" by (simp_all add: sys_ok_def)
  note f = health_step_frame [OF health.hyps(2)]
  have "checker_ok (length (gw_store g)) c"
    using f g(1) health.hyps(1) by (auto simp: gw_ok_def list_all_length checker_ok_def)
  then have "list_all (checker_ok (length (gw_store g))) ((gw_checkers g)[i := c])"
    using g(1) by (intro list_all_put) (simp_all add: gw_ok_def)
  with g f show ?case by (auto simp: sys_ok_def gw_ok_def flights_ok_def intro: counts_same)
next
  case (reload cfg fs g g' e fl)
  from reload.prems have g: "gw_ok g" "flights_ok g fl" "counts_ok (gw_store g) fl" by (simp_all add: sys_ok_def)
  from Reload_keeps [OF reload.hyps(2,1) g(1)] obtain bs where k: "gw_ok g'" "length (gw_heap g) \<le> length (gw_heap g')"
      "gw_store g' = gw_store g @ bs" "\<forall>b \<in> set bs. be_inflight b = 0" by blast
  have "flights_ok g' fl" using g(2) k by (fastforce simp: flights_ok_def)
  moreover have "counts_ok (gw_store g') fl"
    unfolding k(3) using g(2,3) k(4) by (intro counts_extend) (auto simp: flights_ok_def)
  ultimately show ?case using k(1) by (simp add: sys_ok_def)
qed

lemma reach_ok: "gw_reach lib s \<Longrightarrow> sys_ok s"
proof (induction rule: gw_reach.induct)
  case (reach_new cfg auth traced g)
  with NewGateway_keeps show ?case
    by (fastforce simp: sys_ok_def flights_ok_def counts_ok_def in_i64_def)
next
  case (reach_step s ev s')
  then show ?case by (blast intro: sys_ok_step)
qed

lemma serveProxy_panic:
  assumes "gw_ok (wd_gw wd)" and "ra < length (gw_heap (wd_gw wd))"
    and "serveProxy lib ck upstream ra wd r w = (wd', r', w', Some p)"
  shows "p = AbortHandler \<or>
    snd (rl_Allow (gl_redis lib) (ck_fill ck) (ck_limit ck) r (rt_rl (gw_heap (wd_gw wd) ! ra))) = Inl p"
proof -
  let ?g = "wd_gw wd"
  obtain st rt start where b: "serve_begin lib ck r (gw_store ?g) (gw_heap ?g ! ra) = (st, rt, start)" by (metis prod_cases3)
  show ?thesis
  proof (cases start)
    case (StartPanic q)
    with begin_panic [OF b [unfolded StartPanic]] assms(3) b show ?thesis by (auto simp: serveProxy_def)
  next
    case (StartForward a out)
    obtain st2 rt2 w2 es q where e: "serve_end ck a (case out of None \<Rightarrow> UpError | Some o' \<Rightarrow> upstream a o') st rt w =
        (st2, rt2, w2, es, q)" by (metis prod_cases5)
    with assms(3) b StartForward have "q = Some p" by (simp add: serveProxy_def)
    moreover have "q \<in> {None, Some AbortHandler}"
      by (rule end_keeps(2) [OF begin_keeps(1) [OF gw_ok_route [OF assms(1,2)] b], of ck a _ st w st2 rt2 w2 es q]) (rule e)
    ultimately show ?thesis by simp
  qed (use assms(3) b in \<open>auto simp: serveProxy_def\<close>)
qed

text \<open>
  C13. No dangling pointer and no stray panic: in every reachable state, whatever requests, checks
  and reloads did before, the current routes, their backends and checkers and those of every
  request in flight exist. A request that is answered then panics only to cut its connection, and
  one that starts then panics only in its rate limiter.
\<close>

theorem gateway_stays_well_formed:
  assumes "gw_reach lib (g, fl)"
  shows "gw_ok g \<and> flights_ok g fl \<and>
    ((ra, a) \<in> set fl \<and> serve_end ck a up (gw_store g) (gw_heap g ! ra) w = (st, rt, w', entries, p) \<longrightarrow>
       p \<in> {None, Some AbortHandler}) \<and>
    (rb < length (gw_heap g) \<and> serveProxy lib ck upstream rb wd r w = (wd', r', w2, Some q) \<and> wd_gw wd = g \<longrightarrow>
       q = AbortHandler \<or> snd (rl_Allow (gl_redis lib) (ck_fill ck) (ck_limit ck) r (rt_rl (gw_heap g ! rb))) = Inl q)"
proof -
  from reach_ok [OF assms] have g: "gw_ok g" "flights_ok g fl" by (simp_all add: sys_ok_def)
  have ends: "p \<in> {None, Some AbortHandler}"
    if "(ra, a) \<in> set fl" "serve_end ck a up (gw_store g) (gw_heap g ! ra) w = (st, rt, w', entries, p)"
  proof -
    have "ra < length (gw_heap g)" using g(2) that(1) by (auto simp: flights_ok_def)
    with end_keeps(2) [OF gw_ok_route [OF g(1)] that(2)] show ?thesis by simp
  qed
  with g serveProxy_panic [where wd = wd and ra = rb] show ?thesis by blast
qed

text \<open>
  The in-flight counters that \<open>least_conn\<close> compares are exact: in every reachable state the
  counter of a backend is the number of requests currently forwarded to it, over all routes,
  including replaced ones. Once nothing is in flight every counter is back at zero.
\<close>

theorem inflight_exact:
  assumes "gw_reach lib (g, fl)" and "length fl < 2 ^ 63" and "a < length (gw_store g)"
  shows "be_Inflight (gw_store g) a = int (count_list (map snd fl) a)"
proof -
  have "counts_ok (gw_store g) fl" using reach_ok [OF assms(1)] by (simp add: sys_ok_def)
  moreover have "count_list (map snd fl) a \<le> length fl" using count_le_length [of "map snd fl" a] by simp
  then have "in_i64 (int (count_list (map snd fl) a))" using assms(2) by (simp add: in_i64_def)
  ultimately show ?thesis using assms(3) by (simp add: counts_ok_def be_Inflight_def)
qed

definition loaded_config :: Config where
  "loaded_config = fst (validate example_config)"

definition started :: "nat gateway" where
  "started = \<lparr>gw_store = [\<lparr>be_URL = ''http://a'', be_Weight = 1, be_alive = True, be_inflight = 0\<rparr>],
     gw_checkers = [health_New [0]],
     gw_heap = [\<lparr>rt_prefix = ''/api'', rt_strip = False, rt_timeout = 30 * time_Second,
       rt_lb = RoundRobin \<lparr>rr_backends = [0], rr_counter = 0\<rparr>, rt_rl = NoopLimiter,
       rt_breakers = [''http://a'' \<mapsto> None], rt_checker = 0, rt_traced = False, rt_auth = None\<rparr>],
     gw_routes = [0], gw_authConfig = None, gw_traced = False\<rparr>"

lemma loaded_routes: "cfg_Routes loaded_config = [\<lparr>rc_PathPrefix = ''/api'',
    rc_Backends = [\<lparr>bc_URL = ''http://a'', bc_Weight = 1\<rparr>], rc_LBAlgorithm = ''round_robin'', rc_RateLimit = None,
    rc_CircuitBreaker = None, rc_TimeoutSeconds = 30, rc_StripPrefix = False\<rparr>]"
  by (simp add: loaded_config_def example_config_def validate_def serverDefaults_def tracingDefaults_def
      routeDefaults_def weightDefault_def Let_def)

lemma loaded_in_range: "in_range loaded_config"
  by (simp add: in_range_def loaded_routes)

lemma started_New: "NewGateway example_lib loaded_config None False = Inr started"
  by (simp add: NewGateway_def loaded_routes buildRoute_def lb_New_def newBackend_def rl_New_def cb_New_def
      route_auth_def started_def secondsToDuration_def time_Second_def in_i64_def Let_def)

lemma started_reach: "gw_reach example_lib (started, [])"
  by (rule reach_new [OF loaded_in_range started_New])

lemma started_forward:
  "\<exists>rt out. serve_begin example_lib (example_clocks 5) (get_request ''/api/x'') (gw_store started) (gw_heap started ! 0) =
     (be_Inc (gw_store started) 0, rt, StartForward 0 out)"
  by (simp add: serve_begin_def started_def example_clocks_def example_lib_def rr_Next_def healthy_def
      be_IsAlive_def rt_breaker_def Let_def)

lemma started_busy:
  "\<exists>rt. gw_reach example_lib (set_route 0 (be_Inc (gw_store started) 0) rt started, [(0, 0)])"
proof -
  obtain rt out where b: "serve_begin example_lib (example_clocks 5) (get_request ''/api/x'') (gw_store started) (gw_heap started ! 0) =
     (be_Inc (gw_store started) 0, rt, StartForward 0 out)" using started_forward by blast
  have "0 < length (gw_heap started)" by (simp add: started_def)
  from reach_step [OF started_reach begin_forward [OF this b]] show ?thesis by blast
qed

theorem inflight_exact_witness:
  "\<exists>rt. be_Inflight (gw_store (set_route 0 (be_Inc (gw_store started) 0) rt started)) 0 = 1"
proof -
  obtain rt where "gw_reach example_lib (set_route 0 (be_Inc (gw_store started) 0) rt started, [(0, 0)])"
    using started_busy by blast
  from inflight_exact [OF this, of 0] have "be_Inflight (gw_store (set_route 0 (be_Inc (gw_store started) 0) rt started)) 0 = 1"
    by (simp add: started_def)
  then show ?thesis by blast
qed

theorem gateway_stays_well_formed_witness:
  "\<exists>(g :: nat gateway) st rt w' entries p. serve_end (example_clocks 6) 0 UpError (gw_store g) (gw_heap g ! 0) new_writer =
     (st, rt, w', entries, p) \<and> gw_ok g \<and> flights_ok g [(0, 0)] \<and> p \<in> {None, Some AbortHandler}"
proof -
  obtain rt0 where r: "gw_reach example_lib (set_route 0 (be_Inc (gw_store started) 0) rt0 started, [(0, 0)])"
    using started_busy by blast
  let ?g = "set_route 0 (be_Inc (gw_store started) 0) rt0 started"
  obtain st rt w' entries p where e: "serve_end (example_clocks 6) 0 UpError (gw_store ?g) (gw_heap ?g ! 0) new_writer =
      (st, rt, w', entries, p)" by (metis prod_cases5)
  from gateway_stays_well_formed [OF r, where ra = 0 and a = 0] e
  have "gw_ok ?g" "flights_ok ?g [(0, 0)]" "p \<in> {None, Some AbortHandler}" by (simp_all del: set_route_fields)
  with e show ?thesis by blast
qed

end
