(* ===== verification/RequestSteps.thy ===== *)
theory RequestSteps
  imports Interleaving
begin

section \<open>Requests step by step\<close>

text \<open>
  A finer view of \<open>serveProxy\<close> (\<open>internal/proxy/gateway.go\<close>) than \<open>Interleaving\<close> takes: every access to
  state that requests share is a step of its own, and other requests, probes and reloads may come
  between any two of them. A request is at a program counter; \<open>request_step\<close> is the code from one
  counter to the next, on the shared store and the request's route. What happens to the response
  writer is private to the request and left out. Run alone, the steps are \<open>serve_begin\<close> and
  \<open>serve_end\<close>; the transitions of \<open>Interleaving\<close> are runs of the ones here.
\<close>

subsection \<open>The steps of one request\<close>

datatype pc =
    AtLimiter
  | AtBalancer
  | AtBreaker addr
  | AtInc addr
  | AtParse addr
  | AtBackend addr
  | AtReport addr "bool list"
  | AtFlag addr bool "bool list"
  | AtDec addr
  | Ended

text \<open>
  What an answer makes the callbacks report, in order: \<open>ModifyResponse\<close> for a response, the error
  handler for an error, and both for an upgrade, which fails after it was reported a success.
\<close>

fun reports :: "upstream \<Rightarrow> bool list" where
  "reports UpError = [False]"
| "reports (UpResponse code h body broken) =
     (if 500 \<le> code then [False] else if code = 101 then [True, False] else [True])"

definition report_breaker :: "clocks \<Rightarrow> bool \<Rightarrow> addr \<Rightarrow> store \<Rightarrow> 'k route \<Rightarrow> panic + 'k route" where
  "report_breaker ck ok a st rt =
     (let url = be_URL (st ! a)
      in if ok then Inr (put_breaker url (cb_RecordSuccess (ck_report ck) (rt_breaker rt url)) rt)
         else map_sum id (\<lambda>b. put_breaker url b rt) (cb_RecordFailure (ck_report ck) (ck_open ck) (rt_breaker rt url)))"

fun request_step :: "'k gwlib \<Rightarrow> clocks \<Rightarrow> request \<Rightarrow> upstream \<Rightarrow> store \<times> 'k route \<times> pc \<Rightarrow> store \<times> 'k route \<times> pc" where
  "request_step lib ck r up (st, rt, AtLimiter) =
     (let (rl', res) = rl_Allow (gl_redis lib) (ck_fill ck) (ck_limit ck) r (rt_rl rt)
      in (st, rt\<lparr>rt_rl := rl'\<rparr>, if res = Inr Allowed then AtBalancer else Ended))"
| "request_step lib ck r up (st, rt, AtBalancer) =
     (let (lb', pick) = lb_Next st r (rt_lb rt)
      in (st, rt\<lparr>rt_lb := lb'\<rparr>, case pick of Inl e \<Rightarrow> Ended | Inr a \<Rightarrow> AtBreaker a))"
| "request_step lib ck r up (st, rt, AtBreaker a) =
     (let url = be_URL (st ! a);
          (cb', err) = cb_Allow (ck_allow ck) (rt_breaker rt url)
      in (st, put_breaker url cb' rt, if err = None then AtInc a else Ended))"
| "request_step lib ck r up (st, rt, AtInc a) = (be_Inc st a, rt, AtParse a)"
| "request_step lib ck r up (st, rt, AtParse a) =
     (st, rt, if gl_parseURL lib (be_URL (st ! a)) = None then AtDec a else AtBackend a)"
| "request_step lib ck r up (st, rt, AtBackend a) = (st, rt, AtReport a (reports up))"
| "request_step lib ck r up (st, rt, AtReport a []) = (st, rt, AtDec a)"
| "request_step lib ck r up (st, rt, AtReport a (ok # oks)) =
     (case report_breaker ck ok a st rt of Inl p \<Rightarrow> (st, rt, AtDec a) | Inr rt' \<Rightarrow> (st, rt', AtFlag a ok oks))"
| "request_step lib ck r up (st, rt, AtFlag a ok oks) = (be_SetAlive st a ok, rt, AtReport a oks)"
| "request_step lib ck r up (st, rt, AtDec a) = (be_Dec st a, rt, Ended)"
| "request_step lib ck r up (st, rt, Ended) = (st, rt, Ended)"

subsection \<open>A request alone\<close>

fun begun :: "start \<Rightarrow> pc" where
  "begun (StartForward a out) = AtBackend a"
| "begun s = Ended"

text \<open>
  Alone, the steps of a request are \<open>serve_begin\<close>: six steps or fewer from the limiter lead to the
  same store and route, at the backend when it forwards and at the end when a gate refuses.
\<close>

lemma ended_stays: "(request_step lib ck r up ^^ n) (st, rt, Ended) = (st, rt, Ended)"
  by (induction n) simp_all

lemma steps_admit:
  assumes "cb_Allow (ck_allow ck) (rt_breaker rt (be_URL (st ! a))) = (cb', err)"
  shows "\<exists>n \<le> 4. (request_step lib ck r up ^^ n) (st, rt, AtBreaker a) =
    (if err \<noteq> None then (st, put_breaker (be_URL (st ! a)) cb' rt, Ended)
     else if gl_parseURL lib (be_URL (st ! a)) = None then (be_Dec (be_Inc st a) a, put_breaker (be_URL (st ! a)) cb' rt, Ended)
     else (be_Inc st a, put_breaker (be_URL (st ! a)) cb' rt, AtBackend a))"
proof (cases err)
  case (Some e)
  with assms show ?thesis by (intro exI [of _ 1]) (simp add: Let_def)
next
  case None
  let ?rt = "put_breaker (be_URL (st ! a)) cb' rt"
  have s: "(request_step lib ck r up ^^ Suc (Suc (Suc n))) (st, rt, AtBreaker a) =
      (request_step lib ck r up ^^ n) (be_Inc st a, ?rt, if gl_parseURL lib (be_URL (st ! a)) = None then AtDec a else AtBackend a)" for n
    by (simp add: funpow_Suc_right assms None Let_def del: funpow.simps)
  show ?thesis
  proof (cases "gl_parseURL lib (be_URL (st ! a))")
    case None
    with s [of 1] \<open>err = None\<close> show ?thesis by (intro exI [of _ 4]) (simp add: numeral_eq_Suc)
  next
    case (Some target)
    with s [of 0] None show ?thesis by (intro exI [of _ 3]) (simp add: numeral_eq_Suc)
  qed
qed

lemma steps_begin:
  assumes "serve_begin lib ck r st rt = (st', rt', start)"
  shows "\<exists>n \<le> 6. (request_step lib ck r up ^^ n) (st, rt, AtLimiter) = (st', rt', begun start)"
proof -
  let ?step = "request_step lib ck r up"
  obtain rl' verdict where rl: "rl_Allow (gl_redis lib) (ck_fill ck) (ck_limit ck) r (rt_rl rt) = (rl', verdict)"
    by (metis prod.collapse)
  let ?rt1 = "rt\<lparr>rt_rl := rl'\<rparr>"
  have s1: "(?step ^^ Suc n) (st, rt, AtLimiter) = (?step ^^ n) (st, ?rt1, if verdict = Inr Allowed then AtBalancer else Ended)" for n
    by (simp add: funpow_Suc_right rl del: funpow.simps)
  show ?thesis
  proof (cases "verdict = Inr Allowed")
    case False
    with rl assms have "st' = st" "rt' = ?rt1" "begun start = Ended"
      by (auto simp: serve_begin_def Let_def split: sum.splits rl_result.splits)
    with s1 [of 0] False show ?thesis by (intro exI [of _ "Suc 0"]) (simp del: funpow.simps(2))
  next
    case True
    obtain lb' pick where pick: "lb_Next st r (rt_lb rt) = (lb', pick)" by (metis prod.collapse)
    let ?rt2 = "?rt1\<lparr>rt_lb := lb'\<rparr>"
    have s2: "(?step ^^ Suc (Suc n)) (st, rt, AtLimiter) =
        (?step ^^ n) (st, ?rt2, case pick of Inl e \<Rightarrow> Ended | Inr a \<Rightarrow> AtBreaker a)" for n
      by (subst s1) (simp add: funpow_Suc_right True pick del: funpow.simps)
    show ?thesis
    proof (cases pick)
      case (Inl e)
      with rl pick True assms have "st' = st" "rt' = ?rt2" "begun start = Ended"
        by (auto simp: serve_begin_def Let_def)
      with s2 [of 0] Inl show ?thesis by (intro exI [of _ "Suc (Suc 0)"]) (simp del: funpow.simps(2))
    next
      case (Inr a)
      obtain cb' err where cb: "cb_Allow (ck_allow ck) (rt_breaker ?rt2 (be_URL (st ! a))) = (cb', err)" by (metis prod.collapse)
      have "(if err \<noteq> None then (st, put_breaker (be_URL (st ! a)) cb' ?rt2, Ended)
          else if gl_parseURL lib (be_URL (st ! a)) = None then (be_Dec (be_Inc st a) a, put_breaker (be_URL (st ! a)) cb' ?rt2, Ended)
          else (be_Inc st a, put_breaker (be_URL (st ! a)) cb' ?rt2, AtBackend a)) = (st', rt', begun start)"
        using rl pick True Inr cb assms by (auto simp: serve_begin_def Let_def split: option.splits)
      with steps_admit [OF cb, of lib r up] obtain n where n: "n \<le> 4" "(?step ^^ n) (st, ?rt2, AtBreaker a) = (st', rt', begun start)"
        by metis
      with s2 [of n] Inr show ?thesis by (intro exI [of _ "Suc (Suc n)"]) (simp del: funpow.simps(2))
    qed
  qed
qed

lemma report_breaker_eq:
  "report_failure ck a st rt = map_sum id (\<lambda>rt'. (be_SetAlive st a False, rt')) (report_breaker ck False a st rt)"
  "report_breaker ck True a st rt = Inr (snd (report_success ck a st rt))"
  "fst (report_success ck a st rt) = be_SetAlive st a True"
  by (simp_all add: report_failure_def report_breaker_def report_success_def Let_def split: sum.splits)

lemma step_report:
  "(request_step lib ck r up ^^ Suc (Suc n)) (st, rt, AtReport a (ok # oks)) =
     (case report_breaker ck ok a st rt of
        Inl p \<Rightarrow> (request_step lib ck r up ^^ Suc n) (st, rt, AtDec a)
      | Inr rt' \<Rightarrow> (request_step lib ck r up ^^ n) (be_SetAlive st a ok, rt', AtReport a oks))"
  by (simp add: funpow_Suc_right del: funpow.simps split: sum.splits)

lemma step_dec: "(request_step lib ck r up ^^ Suc n) (st, rt, AtDec a) = (be_Dec st a, rt, Ended)"
  by (simp add: funpow_Suc_right ended_stays del: funpow.simps)

lemma step_done: "(request_step lib ck r up ^^ Suc (Suc n)) (st, rt, AtReport a []) = (be_Dec st a, rt, Ended)"
  by (simp add: funpow_Suc_right step_dec ended_stays del: funpow.simps)

lemma step_answer:
  "(request_step lib ck r up ^^ Suc n) (st, rt, AtBackend a) = (request_step lib ck r up ^^ n) (st, rt, AtReport a (reports up))"
  by (simp add: funpow_Suc_right del: funpow.simps)

text \<open>The rest, from the backend's answer on, is \<open>serve_end\<close>.\<close>

lemma steps_end:
  assumes "serve_end ck a up st rt w = (st', rt', rest)"
  shows "\<exists>n \<le> 7. (request_step lib ck r up ^^ n) (st, rt, AtBackend a) = (st', rt', Ended)"
proof -
  have success: "report_success ck a st rt = (be_SetAlive st a True, rt2)" if "report_breaker ck True a st rt = Inr rt2" for rt2
    using that report_breaker_eq(2,3) [of ck a st rt] by (metis prod.collapse sum.inject(2))
  obtain rt2 where rt2: "report_breaker ck True a st rt = Inr rt2" by (simp add: report_breaker_eq(2))
  have "(request_step lib ck r up ^^ Suc (Suc (Suc (Suc (Suc (Suc (Suc 0))))))) (st, rt, AtBackend a) = (st', rt', Ended)"
    using assms
    by (cases up)
      (auto simp: step_answer step_report step_dec step_done serve_end_def serve_response_def bad_gateway_def
        report_breaker_eq(1) success [OF rt2] rt2 Let_def case_prod_beta simp del: funpow.simps split: sum.splits if_splits)
  then show ?thesis by (intro exI [of _ 7]) (simp add: numeral_eq_Suc)
qed

subsection \<open>Many requests, step by step\<close>

text \<open>
  The requests are a list; at any time one of them takes a step, one arrives at a route it matched
  before, a running checker writes the verdict of one probe, finishes a round or stops, or a reload
  runs. A request the network answers may get any answer.
\<close>

type_synonym 'k fine = "'k gateway \<times> (nat \<times> request \<times> pc) list"

inductive fine_step :: "'k gwlib \<Rightarrow> 'k fine \<Rightarrow> 'k fine \<Rightarrow> bool" for lib where
  arrive: "ra < length (gw_heap g) \<Longrightarrow> fine_step lib (g, ts) (g, (ra, r, AtLimiter) # ts)"
| advance: "i < length ts \<Longrightarrow> ts ! i = (ra, r, pc) \<Longrightarrow>
    request_step lib ck r up (gw_store g, gw_heap g ! ra, pc) = (st, rt, pc') \<Longrightarrow>
    fine_step lib (g, ts) (set_route ra st rt g, ts[i := (ra, r, pc')])"
| probe: "i < length (gw_checkers g) \<Longrightarrow> hc_running (gw_checkers g ! i) \<Longrightarrow> a \<in> set (hc_backends (gw_checkers g ! i)) \<Longrightarrow>
    fine_step lib (g, ts) (g\<lparr>gw_store := checkOne get a (gw_store g)\<rparr>, ts)"
| round_done: "i < length (gw_checkers g) \<Longrightarrow> hc_running (gw_checkers g ! i) \<Longrightarrow>
    fine_step lib (g, ts) (g\<lparr>gw_checkers := (gw_checkers g)[i := (gw_checkers g ! i)\<lparr>hc_checked := True\<rparr>]\<rparr>, ts)"
| checker_done: "i < length (gw_checkers g) \<Longrightarrow>
    health_step HDone (gw_checkers g ! i, gw_store g) (c, gw_store g) \<Longrightarrow>
    fine_step lib (g, ts) (g\<lparr>gw_checkers := (gw_checkers g)[i := c]\<rparr>, ts)"
| fine_reload: "in_range cfg \<Longrightarrow> Reload (lib\<lparr>gl_readFile := fs\<rparr>) cfg g = (g', e) \<Longrightarrow> fine_step lib (g, ts) (g', ts)"

inductive fine_reach :: "'k gwlib \<Rightarrow> 'k fine \<Rightarrow> bool" for lib where
  fine_new: "in_range cfg \<Longrightarrow> NewGateway lib cfg auth traced = Inr g \<Longrightarrow> fine_reach lib (g, [])"
| fine_next: "fine_reach lib s \<Longrightarrow> fine_step lib s s' \<Longrightarrow> fine_reach lib s'"

subsection \<open>The invariant\<close>

text \<open>The backend a request is counted at, and the one it refers to.\<close>

fun holds :: "pc \<Rightarrow> addr option" where
  "holds (AtParse a) = Some a"
| "holds (AtBackend a) = Some a"
| "holds (AtReport a oks) = Some a"
| "holds (AtFlag a ok oks) = Some a"
| "holds (AtDec a) = Some a"
| "holds c = None"

fun refers :: "pc \<Rightarrow> addr option" where
  "refers (AtBreaker a) = Some a"
| "refers (AtInc a) = Some a"
| "refers c = holds c"

definition holders :: "(nat \<times> request \<times> pc) list \<Rightarrow> addr \<Rightarrow> nat" where
  "holders ts a = count_list (map (\<lambda>(ra, r, c). holds c) ts) (Some a)"

definition thread_ok :: "'k gateway \<Rightarrow> nat \<times> request \<times> pc \<Rightarrow> bool" where
  "thread_ok g t \<longleftrightarrow> (case t of (ra, r, c) \<Rightarrow> ra < length (gw_heap g) \<and> (\<forall>a. refers c = Some a \<longrightarrow> a < length (gw_store g)))"

definition fine_ok :: "'k fine \<Rightarrow> bool" where
  "fine_ok s \<longleftrightarrow> gw_ok (fst s) \<and> list_all (thread_ok (fst s)) (snd s) \<and>
     (\<forall>a < length (gw_store (fst s)). be_inflight (gw_store (fst s) ! a) = i64 (int (holders (snd s) a)))"

lemma holds_refers: "holds c = Some a \<Longrightarrow> refers c = Some a"
  by (cases c) simp_all

lemma count_update:
  assumes "i < length xs"
  shows "int (count_list (map f (xs[i := x])) c) = int (count_list (map f xs) c) - of_bool (f (xs ! i) = c) + of_bool (f x = c)"
proof -
  have "xs = take i xs @ xs ! i # drop (Suc i) xs" using assms by (rule id_take_nth_drop)
  then have "count_list (map f xs) c = count_list (map f (take i xs @ xs ! i # drop (Suc i) xs)) c" by simp
  moreover have "xs[i := x] = take i xs @ x # drop (Suc i) xs" using assms by (rule upd_conv_take_nth_drop)
  ultimately show ?thesis by simp
qed

text \<open>What one step of a request keeps, and what it does to the counters.\<close>

lemma report_breaker_ok:
  assumes "route_ok n m rt"
  shows "\<exists>rt'. report_breaker ck ok a st rt = Inr rt' \<and> route_ok n m rt'"
proof -
  have b: "\<forall>u. breaker_ok (rt_breaker rt u)" using assms by (simp add: route_ok_def)
  obtain b' where f: "cb_RecordFailure (ck_report ck) (ck_open ck) (rt_breaker rt (be_URL (st ! a))) = Inr b'" "breaker_ok b'"
    using RecordFailure_ok b by blast
  have s: "breaker_ok (cb_RecordSuccess (ck_report ck) (rt_breaker rt (be_URL (st ! a))))" using RecordSuccess_ok b by blast
  show ?thesis
    using assms f s put_breaker_ok [OF b] by (simp add: report_breaker_def route_ok_def Let_def)
qed

lemma step_keeps_route:
  assumes "request_step lib ck r up (st, rt, c) = (st', rt', c')" and "route_ok (length st) m rt"
  shows "route_ok (length st) m rt'"
proof (cases c)
  case AtBalancer
  have "lb_Backends (fst (lb_Next st r (rt_lb rt))) = lb_Backends (rt_lb rt)" by (rule lb.pick_list)
  with AtBalancer assms show ?thesis by (auto simp: route_ok_def lb_ok_def split: prod.splits)
next
  case (AtBreaker a)
  have b: "\<forall>u. breaker_ok (rt_breaker rt u)" using assms(2) by (simp add: route_ok_def)
  with AtBreaker assms Allow_ok [of "rt_breaker rt (be_URL (st ! a))" "ck_allow ck"] put_breaker_ok [OF b] show ?thesis
    by (auto simp: route_ok_def Let_def split: prod.splits)
next
  case (AtReport a oks)
  show ?thesis
  proof (cases oks)
    case (Cons ok rest)
    with AtReport assms report_breaker_ok [OF assms(2), of ck ok a st] show ?thesis by auto
  qed (use AtReport assms in simp)
qed (use assms in \<open>auto simp: route_ok_def Let_def split: prod.splits\<close>)

lemma step_refers:
  assumes "request_step lib ck r up (st, rt, c) = (st', rt', c')" and "route_ok (length st) m rt"
    and "\<forall>a. refers c = Some a \<longrightarrow> a < length st" and "refers c' = Some a"
  shows "a < length st"
proof (cases c)
  case AtBalancer
  have lb: "lb_ok (rt_lb rt)" "\<forall>a \<in> set (lb_Backends (rt_lb rt)). a < length st" using assms(2) by (simp_all add: route_ok_def)
  have "pick_ok (lb_Backends (rt_lb rt)) st (snd (lb_Next st r (rt_lb rt)))" by (rule lb.pick_result [OF lb(1)])
  with AtBalancer assms(1,4) lb(2) show ?thesis
    by (auto simp: pick_ok_def split: prod.splits sum.splits)
next
  case (AtReport b oks)
  with assms show ?thesis by (cases oks) (auto split: sum.splits)
qed (use assms in \<open>auto simp: Let_def split: prod.splits if_splits\<close>)

lemma step_counts:
  assumes "request_step lib ck r up (st, rt, c) = (st', rt', c')" and "\<forall>a. refers c = Some a \<longrightarrow> a < length st"
  shows "length st' = length st \<and>
    (be_inflight (st ! b) = i64 x \<longrightarrow> be_inflight (st' ! b) = i64 (x - of_bool (holds c = Some b) + of_bool (holds c' = Some b)))"
proof (cases c)
  case (AtInc a)
  with assms show ?thesis by (auto simp: inflight_Inc i64_add)
next
  case (AtDec a)
  with assms show ?thesis by (auto simp: inflight_Dec i64_add [of _ "- 1", simplified])
next
  case (AtReport a oks)
  with assms show ?thesis by (cases oks) (auto split: sum.splits)
qed (use assms in \<open>auto simp: Let_def split: prod.splits sum.splits if_splits\<close>)

lemma thread_ok_mono:
  "thread_ok g t \<Longrightarrow> length (gw_heap g) \<le> length (gw_heap g') \<Longrightarrow> length (gw_store g) \<le> length (gw_store g') \<Longrightarrow> thread_ok g' t"
  by (fastforce simp: thread_ok_def split: prod.splits)

lemma gw_ok_checker:
  assumes "gw_ok g" and "hc_backends c = hc_backends (gw_checkers g ! i)" and "i < length (gw_checkers g)"
  shows "gw_ok (g\<lparr>gw_checkers := (gw_checkers g)[i := c]\<rparr>)"
proof -
  have "checker_ok (length (gw_store g)) c"
    using assms by (simp add: gw_ok_def checker_ok_def list_all_length)
  with assms(1) show ?thesis by (simp add: gw_ok_def list_all_put)
qed

lemma holders_new:
  assumes "list_all (thread_ok g) ts" and "length (gw_store g) \<le> a"
  shows "holders ts a = 0"
proof -
  have "Some a \<notin> set (map (\<lambda>(ra, r, c). holds c) ts)"
  proof
    assume "Some a \<in> set (map (\<lambda>(ra, r, c). holds c) ts)"
    then obtain ra r c where "(ra, r, c) \<in> set ts" "holds c = Some a" by (auto split: prod.splits)
    then have "(ra, r, c) \<in> set ts" "refers c = Some a" by (simp_all add: holds_refers)
    with assms show False by (auto simp: list_all_iff thread_ok_def)
  qed
  then show ?thesis unfolding holders_def by (rule count_notin)
qed

lemma fine_ok_step: "fine_step lib s s' \<Longrightarrow> fine_ok s \<Longrightarrow> fine_ok s'"
proof (induction rule: fine_step.induct)
  case (arrive ra g ts r)
  then show ?case by (simp add: fine_ok_def thread_ok_def holders_def)
next
  case (advance i ts ra r c ck up g st rt c')
  from advance.prems have g: "gw_ok g" "list_all (thread_ok g) ts"
      "\<forall>a < length (gw_store g). be_inflight (gw_store g ! a) = i64 (int (holders ts a))" by (simp_all add: fine_ok_def)
  have t: "ra < length (gw_heap g)" "\<forall>a. refers c = Some a \<longrightarrow> a < length (gw_store g)"
    using g(2) advance.hyps(1,2) by (auto simp: list_all_length thread_ok_def dest: spec [of _ i])
  note rt = gw_ok_route [OF g(1) t(1)]
  note counts = step_counts [OF advance.hyps(3) t(2)]
  have "gw_ok (set_route ra st rt g)"
    using gw_ok_set_route [OF g(1)] counts step_keeps_route [OF advance.hyps(3) rt] by blast
  moreover have "thread_ok (set_route ra st rt g) (ra, r, c')"
    using t(1) counts step_refers [OF advance.hyps(3) rt t(2)] by (simp add: thread_ok_def)
  then have "list_all (thread_ok (set_route ra st rt g)) (ts[i := (ra, r, c')])"
    using g(2) counts by (intro list_all_put) (auto simp: list_all_iff intro: thread_ok_mono)
  moreover have "be_inflight (st ! a) = i64 (int (holders (ts[i := (ra, r, c')]) a))" if "a < length (gw_store g)" for a
    using counts g(3) that advance.hyps(2) by (simp add: holders_def count_update [OF advance.hyps(1)])
  ultimately show ?case using counts by (simp add: fine_ok_def)
next
  case (probe i g a ts get)
  then have "gw_ok (g\<lparr>gw_store := checkOne get a (gw_store g)\<rparr>)" by (simp add: fine_ok_def gw_ok_def)
  with probe.prems show ?case by (auto simp: fine_ok_def list_all_iff intro: thread_ok_mono)
next
  case (round_done i g ts)
  then show ?case using gw_ok_checker [of g "(gw_checkers g ! i)\<lparr>hc_checked := True\<rparr>" i]
    by (auto simp: fine_ok_def list_all_iff intro: thread_ok_mono)
next
  case (checker_done i g c ts)
  from health_step_frame [OF checker_done.hyps(2)] have "hc_backends c = hc_backends (gw_checkers g ! i)" by simp
  with checker_done gw_ok_checker [of g c i] show ?case
    by (auto simp: fine_ok_def list_all_iff intro: thread_ok_mono)
next
  case (fine_reload cfg fs g g' e ts)
  from fine_reload.prems have g: "gw_ok g" "list_all (thread_ok g) ts"
      "\<forall>a < length (gw_store g). be_inflight (gw_store g ! a) = i64 (int (holders ts a))" by (simp_all add: fine_ok_def)
  from Reload_keeps [OF fine_reload.hyps(2,1) g(1)] obtain bs where k: "gw_ok g'" "length (gw_heap g) \<le> length (gw_heap g')"
      "gw_store g' = gw_store g @ bs" "\<forall>b \<in> set bs. be_inflight b = 0" by blast
  have "list_all (thread_ok g') ts" using g(2) k by (auto simp: list_all_iff intro: thread_ok_mono)
  moreover have "be_inflight (gw_store g' ! a) = i64 (int (holders ts a))" if "a < length (gw_store g')" for a
  proof (cases "a < length (gw_store g)")
    case True
    with g(3) show ?thesis by (simp add: k(3) nth_append)
  next
    case False
    then have "holders ts a = 0" by (intro holders_new [OF g(2)]) simp
    with False that k(3,4) show ?thesis by (simp add: nth_append in_i64_def)
  qed
  ultimately show ?case using k(1) by (simp add: fine_ok_def)
qed

lemma fine_reach_ok: "fine_reach lib s \<Longrightarrow> fine_ok s"
proof (induction rule: fine_reach.induct)
  case (fine_new cfg auth tr g)
  with NewGateway_keeps show ?case by (fastforce simp: fine_ok_def holders_def in_i64_def)
next
  case (fine_next s s')
  then show ?case by (blast intro: fine_ok_step)
qed

subsection \<open>The steps refine the handler\<close>

lemma steps_then:
  assumes "(f ^^ n) x = y" and "(f ^^ m) y = z"
  shows "(f ^^ (m + n)) x = z"
  using assms by (simp add: funpow_add)

text \<open>
  The two models agree: a request that takes its steps with nobody in between, at most thirteen of
  them, ends, and leaves the backends and its route exactly as \<open>serveProxy\<close> leaves them.
\<close>

lemma steps_alone_are_serveProxy:
  assumes "ra < length (gw_heap (wd_gw wd))"
    and "g' = wd_gw (fst (serveProxy lib ck upstream ra wd r w))"
  shows "\<exists>n \<le> 13. \<exists>up \<in> insert UpError (range (\<lambda>(a, out). upstream a out)).
    (request_step lib ck r up ^^ n) (gw_store (wd_gw wd), gw_heap (wd_gw wd) ! ra, AtLimiter) =
      (gw_store g', gw_heap g' ! ra, Ended)"
proof -
  let ?g = "wd_gw wd"
  obtain st rt start where b: "serve_begin lib ck r (gw_store ?g) (gw_heap ?g ! ra) = (st, rt, start)"
    by (metis prod_cases3)
  show ?thesis
  proof (cases "\<exists>a out. start = StartForward a out")
    case True
    then obtain a out where s: "start = StartForward a out" by blast
    let ?up = "case out of None \<Rightarrow> UpError | Some o' \<Rightarrow> upstream a o'"
    obtain st2 rt2 rest where e: "serve_end ck a ?up st rt w = (st2, rt2, rest)" by (metis prod_cases3)
    have g': "gw_store g' = st2" "gw_heap g' ! ra = rt2"
      using assms(1) e by (simp_all add: assms(2) serveProxy_def b s set_route_def Let_def case_prod_beta)
    obtain n where n: "n \<le> 6" "(request_step lib ck r ?up ^^ n) (gw_store ?g, gw_heap ?g ! ra, AtLimiter) = (st, rt, AtBackend a)"
      using steps_begin [OF b] s by auto
    obtain m where m: "m \<le> 7" "(request_step lib ck r ?up ^^ m) (st, rt, AtBackend a) = (st2, rt2, Ended)"
      using steps_end [OF e] by blast
    have "?up \<in> insert UpError (range (\<lambda>(a, out). upstream a out))" by (auto split: option.splits)
    with n(1) m(1) steps_then [OF n(2) m(2)] g' show ?thesis by (intro exI [of _ "m + n"] conjI bexI [of _ ?up]) simp_all
  next
    case False
    then have "begun start = Ended" by (cases start) auto
    with steps_begin [OF b] obtain n where
      n: "n \<le> 6" "(request_step lib ck r UpError ^^ n) (gw_store ?g, gw_heap ?g ! ra, AtLimiter) = (st, rt, Ended)" by metis
    have "gw_store g' = st" "gw_heap g' ! ra = rt"
      using assms(1) False by (cases start; simp add: assms(2) serveProxy_def b set_route_def Let_def)+
    with n show ?thesis by (intro exI [of _ n] conjI bexI [of _ UpError]) simp_all
  qed
qed

text \<open>A run of a request's steps is a run of the system.\<close>

lemma set_route_again [simp]: "set_route ra st rt (set_route ra st' rt' g) = set_route ra st rt g"
  by (simp add: set_route_def)

lemma set_route_same: "set_route ra (gw_store g) (gw_heap g ! ra) g = g"
  by (simp add: set_route_def)

lemma steps_fine:
  assumes "(request_step lib ck r up ^^ n) (gw_store g, gw_heap g ! ra, c) = (st, rt, c')"
    and "ra < length (gw_heap g)" and "i < length ts" and "ts ! i = (ra, r, c)"
  shows "(fine_step lib)\<^sup>*\<^sup>* (g, ts) (set_route ra st rt g, ts[i := (ra, r, c')])"
  using assms
proof (induction n arbitrary: g ts c)
  case 0
  then have "st = gw_store g" "rt = gw_heap g ! ra" "ts[i := (ra, r, c')] = ts" by (auto simp: list_update_same_conv)
  then show ?case by (simp add: set_route_same)
next
  case (Suc n)
  obtain st1 rt1 c1 where s: "request_step lib ck r up (gw_store g, gw_heap g ! ra, c) = (st1, rt1, c1)" by (metis prod_cases3)
  let ?g = "set_route ra st1 rt1 g" and ?ts = "ts[i := (ra, r, c1)]"
  have "fine_step lib (g, ts) (?g, ?ts)" by (rule advance [OF Suc.prems(3,4) s])
  moreover have "(request_step lib ck r up ^^ n) (gw_store ?g, gw_heap ?g ! ra, c1) = (st, rt, c')"
    using Suc.prems(1,2) s by (simp add: funpow_Suc_right del: funpow.simps)
  then have "(fine_step lib)\<^sup>*\<^sup>* (?g, ?ts) (set_route ra st rt ?g, ?ts[i := (ra, r, c')])"
    using Suc.prems by (intro Suc.IH) simp_all
  ultimately show ?case by (simp add: converse_rtranclp_into_rtranclp)
qed

text \<open>
  The states of \<open>Interleaving\<close> as states of the finer system: every request is over or at the
  backend it is in flight to.
\<close>

fun flight :: "nat \<times> request \<times> pc \<Rightarrow> (nat \<times> addr) option" where
  "flight (ra, r, AtBackend a) = Some (ra, a)"
| "flight t = None"

definition refines :: "(nat \<times> addr) list \<Rightarrow> (nat \<times> request \<times> pc) list \<Rightarrow> bool" where
  "refines fl ts \<longleftrightarrow> mset fl = mset (List.map_filter flight ts) \<and>
     (\<forall>(ra, r, c) \<in> set ts. c = Ended \<or> (\<exists>a. c = AtBackend a))"

lemma map_filter_parts:
  "List.map_filter f (xs @ ys) = List.map_filter f xs @ List.map_filter f ys"
  "List.map_filter f (x # xs) = (case f x of None \<Rightarrow> [] | Some y \<Rightarrow> [y]) @ List.map_filter f xs"
  "List.map_filter f [] = []"
  by (simp_all add: map_filter_def split: option.splits)

lemma map_filter_member: "y \<in> set (List.map_filter f xs) \<Longrightarrow> \<exists>x \<in> set xs. f x = Some y"
  by (auto simp: map_filter_def)

lemma flight_cases: "flight t = Some (ra, a) \<Longrightarrow> \<exists>r. t = (ra, r, AtBackend a)"
  by (cases t rule: flight.cases) simp_all

lemma refines_update:
  assumes "refines fl ts" and "i < length ts" and "ts ! i = (ra, r, AtBackend a)"
  shows "refines (remove1 (ra, a) fl) (ts[i := (ra, r, Ended)])"
proof -
  have ts: "ts = take i ts @ (ra, r, AtBackend a) # drop (Suc i) ts" using assms(2,3) by (metis id_take_nth_drop)
  have up: "ts[i := (ra, r, Ended)] = take i ts @ (ra, r, Ended) # drop (Suc i) ts" using assms(2) by (rule upd_conv_take_nth_drop)
  have "mset fl = mset (List.map_filter flight (take i ts @ (ra, r, AtBackend a) # drop (Suc i) ts))"
    using assms(1) ts by (simp add: refines_def)
  moreover have "set ts = set (take i ts @ (ra, r, AtBackend a) # drop (Suc i) ts)" using ts by simp
  ultimately show ?thesis using assms(1) unfolding refines_def up by (auto simp: map_filter_parts)
qed

lemma refines_flight:
  assumes "refines fl ts" and "(ra, a) \<in> set fl"
  obtains i r where "i < length ts" "ts ! i = (ra, r, AtBackend a)"
proof -
  have "(ra, a) \<in> set (List.map_filter flight ts)" 
    using assms mset_eq_setD by (auto simp: refines_def)
  from map_filter_member [OF this] obtain t where t: "t \<in> set ts" "flight t = Some (ra, a)" by (elim bexE)
  from flight_cases [OF t(2)] obtain r where "t = (ra, r, AtBackend a)" by (elim exE)
  with t(1) have "(ra, r, AtBackend a) \<in> set ts" by simp
  then obtain i where "i < length ts" "ts ! i = (ra, r, AtBackend a)" by (metis in_set_conv_nth)
  then show thesis by (rule that)
qed

lemma probes_fine:
  assumes "i < length (gw_checkers g)" and "hc_running (gw_checkers g ! i)" and "set as \<subseteq> set (hc_backends (gw_checkers g ! i))"
  shows "(fine_step lib)\<^sup>*\<^sup>* (g, ts) (g\<lparr>gw_store := checkAll get as (gw_store g)\<rparr>, ts)"
  using assms
proof (induction as arbitrary: g)
  case (Cons a as)
  let ?g = "g\<lparr>gw_store := checkOne get a (gw_store g)\<rparr>"
  have "fine_step lib (g, ts) (?g, ts)" using Cons.prems by (intro probe) auto
  moreover have "(fine_step lib)\<^sup>*\<^sup>* (?g, ts) (?g\<lparr>gw_store := checkAll get as (gw_store ?g)\<rparr>, ts)"
    using Cons.prems by (intro Cons.IH) simp_all
  ultimately show ?case by (simp add: checkAll_def converse_rtranclp_into_rtranclp)
qed (simp add: checkAll_def)

lemma begin_fine:
  assumes "ra < length (gw_heap g)" and "serve_begin lib ck r (gw_store g) (gw_heap g ! ra) = (st, rt, start)"
  shows "(fine_step lib)\<^sup>*\<^sup>* (g, ts) (set_route ra st rt g, (ra, r, begun start) # ts)"
proof -
  obtain n where "(request_step lib ck r UpError ^^ n) (gw_store g, gw_heap g ! ra, AtLimiter) = (st, rt, begun start)"
    using steps_begin [OF assms(2)] by blast
  from steps_fine [OF this assms(1), where i = 0 and ts = "(ra, r, AtLimiter) # ts"]
  have "(fine_step lib)\<^sup>*\<^sup>* (g, (ra, r, AtLimiter) # ts) (set_route ra st rt g, (ra, r, begun start) # ts)" by simp
  with arrive [OF assms(1), of lib ts r] show ?thesis by (rule converse_rtranclp_into_rtranclp)
qed

text \<open>Every transition of \<open>Interleaving\<close> is a run of the finer steps.\<close>

lemma gw_step_fine:
  assumes "gw_step lib ev (g, fl) (g', fl')" and "refines fl ts" and "flights_ok g fl"
  shows "\<exists>ts'. (fine_step lib)\<^sup>*\<^sup>* (g, ts) (g', ts') \<and> refines fl' ts'"
  using assms(1)
proof (cases rule: gw_step.cases)
  case (begin_forward ra ck r st rt a out)
  have "refines ((ra, a) # fl) ((ra, r, AtBackend a) # ts)" using assms(2) by (auto simp: refines_def map_filter_parts)
  with begin_fine [OF begin_forward(4,5)] begin_forward(2,3) show ?thesis by auto
next
  case (begin_refuse ra ck r st rt start)
  then have "begun start = Ended" by (cases start) auto
  moreover have "refines fl ((ra, r, Ended) # ts)" using assms(2) by (auto simp: refines_def map_filter_parts)
  ultimately show ?thesis using begin_fine [OF begin_refuse(4,5), of ts] begin_refuse(2,3) by auto
next
  case (finish ra a ck up w st rt rest)
  obtain i r where i: "i < length ts" "ts ! i = (ra, r, AtBackend a)" using refines_flight [OF assms(2) finish(4)] by blast
  have ra: "ra < length (gw_heap g)" using assms(3) finish(4) by (auto simp: flights_ok_def)
  obtain n where "(request_step lib ck r up ^^ n) (gw_store g, gw_heap g ! ra, AtBackend a) = (st, rt, Ended)"
    using steps_end [OF finish(5)] by blast
  from steps_fine [OF this ra i] refines_update [OF assms(2) i] finish(2,3) show ?thesis by auto
next
  case (health i ev' c st)
  show ?thesis
  proof (cases ev')
    case (HCheck get finished)
    with health(5) have c: "hc_running (gw_checkers g ! i)" "mset finished = mset (hc_backends (gw_checkers g ! i))"
        "c = (gw_checkers g ! i)\<lparr>hc_checked := True\<rparr>" "st = checkAll get finished (gw_store g)"
      by (auto elim: health_checkE)
    let ?g = "g\<lparr>gw_store := st\<rparr>"
    have "(fine_step lib)\<^sup>*\<^sup>* (g, ts) (?g, ts)"
      using probes_fine [OF health(4) c(1)] c(2,4) mset_eq_setD [OF c(2)] by simp
    moreover have "fine_step lib (?g, ts) (g', ts)"
      using round_done [of i ?g lib ts] health(2,4) c(1,3) by simp
    ultimately show ?thesis using assms(2) health(3) by (metis rtranclp.rtrancl_into_rtrancl)
  next
    case HDone
    with health(5) have "health_step HDone (gw_checkers g ! i, gw_store g) (c, gw_store g)" "st = gw_store g"
      by (auto elim!: health_step.cases intro: health_step.intros)
    from checker_done [OF health(4) this(1), of lib ts] this(2) health(2,3) assms(2) show ?thesis
      by (intro exI [of _ ts]) auto
  qed
next
  case (reload cfg fs e)
  with fine_reload assms(2) show ?thesis by blast
qed

lemma fine_reach_run: "(fine_step lib)\<^sup>*\<^sup>* s s' \<Longrightarrow> fine_reach lib s \<Longrightarrow> fine_reach lib s'"
  by (induction rule: rtranclp_induct) (blast intro: fine_next)+

text \<open>
  Every state that the transitions of \<open>Interleaving\<close> reach is reached by the finer steps too, with
  each request in flight at the backend it was sent to and every other one over.
\<close>

lemma reach_fine: "gw_reach lib s \<Longrightarrow> \<exists>ts. fine_reach lib (fst s, ts) \<and> refines (snd s) ts"
proof (induction rule: gw_reach.induct)
  case (reach_new cfg auth tr g)
  with fine_new [OF reach_new] show ?case by (auto simp: refines_def map_filter_parts intro!: exI [of _ "[]"])
next
  case (reach_step s ev s')
  then obtain ts where ts: "fine_reach lib (fst s, ts)" "refines (snd s) ts" by blast
  have "gw_step lib ev (fst s, snd s) (fst s', snd s')" "flights_ok (fst s) (snd s)"
    using reach_step.hyps reach_ok [of lib s] by (simp_all add: sys_ok_def)
  from gw_step_fine [OF this(1) ts(2) this(2)] obtain ts' where
    "(fine_step lib)\<^sup>*\<^sup>* (fst s, ts) (fst s', ts')" "refines (snd s') ts'" by blast
  with fine_reach_run [OF this(1) ts(1)] show ?case by blast
qed

subsection \<open>Picking and counting are two steps\<close>

lemma untouched_route:
  assumes "rt_rl rt = NoopLimiter" and "rt_lb rt = LeastConn lc" and "rt_breaker rt (be_URL (st ! a)) = None"
    and "lc_Next st r lc = (lc, Inr a)"
  shows "(request_step lib ck r up ^^ 3) (st, rt, AtLimiter) = (st, rt, AtInc a)"
proof -
  have "put_breaker url None rt = rt" if "rt_breaker rt url = None" for url
    using that by (auto simp: put_breaker_def rt_breaker_def fun_upd_idem split: option.splits)
  with assms(3) have same: "put_breaker (be_URL (st ! a)) None rt = rt" by blast
  have put: "rt\<lparr>rt_rl := NoopLimiter, rt_lb := LeastConn lc\<rparr> = rt" using assms(1,2) by simp
  show ?thesis
    using assms by (simp add: put same numeral_3_eq_3 funpow_Suc_right Let_def del: funpow.simps(2))
qed

lemma count_and_go:
  assumes "ra < length (gw_heap g)" and "i < length ts" and "ts ! i = (ra, r, AtInc a)"
    and "gl_parseURL lib (be_URL (gw_store g ! a)) \<noteq> None"
  shows "(fine_step lib)\<^sup>*\<^sup>* (g, ts) (g\<lparr>gw_store := be_Inc (gw_store g) a\<rparr>, ts[i := (ra, r, AtBackend a)])"
proof -
  have "(request_step lib ck r up ^^ 2) (gw_store g, gw_heap g ! ra, AtInc a) = (be_Inc (gw_store g) a, gw_heap g ! ra, AtBackend a)" for ck up
    using assms(4) by (simp add: numeral_2_eq_2)
  from steps_fine [OF this assms(1-3)] show ?thesis by (simp add: set_route_def)
qed

text \<open>
  C35. Under \<open>least_conn\<close> any number of requests can meet at one backend while others are idle:
  choosing a backend and counting the request there are two steps, so every request that chooses
  before the first is counted chooses the same one.
\<close>

theorem least_conn_herd:
  assumes "ra < length (gw_heap g)" and "rt_rl (gw_heap g ! ra) = NoopLimiter" and "rt_lb (gw_heap g ! ra) = LeastConn lc"
    and "lc_Next (gw_store g) r lc = (lc, Inr a)" and "rt_breaker (gw_heap g ! ra) (be_URL (gw_store g ! a)) = None"
    and "gl_parseURL lib (be_URL (gw_store g ! a)) \<noteq> None"
  shows "(fine_step lib)\<^sup>*\<^sup>* (g, [])
    (g\<lparr>gw_store := ((\<lambda>st. be_Inc st a) ^^ n) (gw_store g)\<rparr>, replicate n (ra, r, AtBackend a))"
proof -
  have pick: "(fine_step lib)\<^sup>*\<^sup>* (g, []) (g, replicate k (ra, r, AtInc a))" for k
  proof (induction k)
    case (Suc k)
    let ?ts = "replicate k (ra, r, AtInc a)"
    have "fine_step lib (g, ?ts) (g, (ra, r, AtLimiter) # ?ts)" by (rule arrive [OF assms(1)])
    moreover from steps_fine [OF untouched_route [OF assms(2,3,5,4)] assms(1), where i = 0 and ts = "(ra, r, AtLimiter) # ?ts"]
    have "(fine_step lib)\<^sup>*\<^sup>* (g, (ra, r, AtLimiter) # ?ts) (g, replicate (Suc k) (ra, r, AtInc a))"
      by (simp add: set_route_same)
    ultimately have "(fine_step lib)\<^sup>*\<^sup>* (g, ?ts) (g, replicate (Suc k) (ra, r, AtInc a))"
      by (rule converse_rtranclp_into_rtranclp)
    with Suc.IH show ?case by (rule rtranclp_trans)
  qed simp
  let ?st = "\<lambda>k. ((\<lambda>st. be_Inc st a) ^^ k) (gw_store g)"
  have url: "be_URL (?st k ! a) = be_URL (gw_store g ! a)" for k by (induction k) simp_all
  have go: "k \<le> n \<Longrightarrow> (fine_step lib)\<^sup>*\<^sup>* (g, replicate n (ra, r, AtInc a))
      (g\<lparr>gw_store := ?st k\<rparr>, replicate k (ra, r, AtBackend a) @ replicate (n - k) (ra, r, AtInc a))" for k
  proof (induction k)
    case (Suc k)
    let ?ts = "replicate k (ra, r, AtBackend a) @ replicate (n - k) (ra, r, AtInc a)"
    have rest: "replicate (n - k) (ra, r, AtInc a) = (ra, r, AtInc a) # replicate (n - Suc k) (ra, r, AtInc a)"
      using Suc.prems by (simp add: Suc_diff_Suc flip: replicate_Suc)
    then have "k < length ?ts" "?ts ! k = (ra, r, AtInc a)"
      "?ts[k := (ra, r, AtBackend a)] = replicate (Suc k) (ra, r, AtBackend a) @ replicate (n - Suc k) (ra, r, AtInc a)"
      by (simp_all add: nth_append list_update_append replicate_append_same)
    with count_and_go [of ra "g\<lparr>gw_store := ?st k\<rparr>" k ?ts r a lib] assms(1,6) url
    have "(fine_step lib)\<^sup>*\<^sup>* (g\<lparr>gw_store := ?st k\<rparr>, ?ts)
      (g\<lparr>gw_store := ?st (Suc k)\<rparr>, replicate (Suc k) (ra, r, AtBackend a) @ replicate (n - Suc k) (ra, r, AtInc a))" by simp
    moreover from Suc have "(fine_step lib)\<^sup>*\<^sup>* (g, replicate n (ra, r, AtInc a)) (g\<lparr>gw_store := ?st k\<rparr>, ?ts)" by simp
    ultimately show ?case by (rule rtranclp_trans [rotated])
  qed simp
  from rtranclp_trans [OF pick go [OF order_refl]] show ?thesis by simp
qed

subsection \<open>Counters step by step\<close>

text \<open>
  C2. However the steps of requests, probes and reloads interleave, the in-flight counter of a
  backend is the number of requests that are between counting themselves in and out, in every
  reachable state, and no request refers to a route or backend that is not there.
\<close>

theorem inflight_exact_stepwise:
  assumes "fine_reach lib (g, ts)" and "length ts < 2 ^ 63" and "a < length (gw_store g)"
  shows "be_Inflight (gw_store g) a = int (holders ts a) \<and> gw_ok g \<and> list_all (thread_ok g) ts"
proof -
  have f: "fine_ok (g, ts)" by (rule fine_reach_ok [OF assms(1)])
  have "holders ts a \<le> length ts" unfolding holders_def using count_le_length by (metis length_map)
  then have "in_i64 (int (holders ts a))" using assms(2) by (simp add: in_i64_def)
  with f assms(3) show ?thesis by (simp add: fine_ok_def be_Inflight_def)
qed

subsection \<open>Witnesses\<close>

theorem inflight_exact_stepwise_witness:
  "\<exists>(g :: nat gateway) ts. holders ts 0 = 1 \<and> be_Inflight (gw_store g) 0 = 1 \<and> gw_ok g"
proof -
  let ?r = "get_request ''/api/x''"
  obtain rt out where b: "serve_begin example_lib (example_clocks 5) ?r (gw_store started) (gw_heap started ! 0) =
     (be_Inc (gw_store started) 0, rt, StartForward 0 out)" using started_forward by blast
  let ?g = "set_route 0 (be_Inc (gw_store started) 0) rt started"
  have "0 < length (gw_heap started)" by (simp add: started_def)
  from fine_reach_run [OF begin_fine [OF this b, of "[]"] fine_new [OF loaded_in_range started_New]]
  have "fine_reach example_lib (?g, [(0, ?r, AtBackend 0)])" by simp
  from inflight_exact_stepwise [OF this, of 0] show ?thesis
    by (intro exI [of _ ?g] exI [of _ "[(0, ?r, AtBackend 0)]"]) (simp add: holders_def started_def)
qed

definition idle_pair :: "nat gateway" where
  "idle_pair = started\<lparr>gw_store := [\<lparr>be_URL = ''http://a'', be_Weight = 1, be_alive = True, be_inflight = 0\<rparr>,
      \<lparr>be_URL = ''http://b'', be_Weight = 1, be_alive = True, be_inflight = 0\<rparr>],
    gw_heap := [(gw_heap started ! 0)\<lparr>rt_lb := LeastConn \<lparr>lc_backends = [0, 1]\<rparr>\<rparr>]\<rparr>"

theorem least_conn_herd_witness:
  "\<exists>g'. (fine_step example_lib)\<^sup>*\<^sup>* (idle_pair, []) (g', replicate 5 (0, get_request ''/api/x'', AtBackend 0)) \<and>
    be_Inflight (gw_store g') 0 = 5 \<and> be_Inflight (gw_store g') 1 = 0"
proof -
  let ?r = "get_request ''/api/x''" and ?st = "gw_store idle_pair"
  have pre: "0 < length (gw_heap idle_pair)" "rt_rl (gw_heap idle_pair ! 0) = NoopLimiter"
    "rt_lb (gw_heap idle_pair ! 0) = LeastConn \<lparr>lc_backends = [0, 1]\<rparr>"
    "lc_Next ?st ?r \<lparr>lc_backends = [0, 1]\<rparr> = (\<lparr>lc_backends = [0, 1]\<rparr>, Inr 0)"
    "rt_breaker (gw_heap idle_pair ! 0) (be_URL (?st ! 0)) = None" "gl_parseURL example_lib (be_URL (?st ! 0)) \<noteq> None"
    by (simp_all add: idle_pair_def started_def lc_Next_def healthy_def be_IsAlive_def be_Inflight_def rt_breaker_def example_lib_def)
  let ?st5 = "((\<lambda>st. be_Inc st 0) ^^ 5) ?st"
  have "be_Inflight ?st5 0 = 5" "be_Inflight ?st5 1 = 0"
    by (simp_all add: numeral_eq_Suc be_Inc_def be_Inflight_def idle_pair_def in_i64_def)
  with least_conn_herd [OF pre, of 5] show ?thesis
    by (intro exI [of _ "idle_pair\<lparr>gw_store := ?st5\<rparr>"]) simp
qed

end
