(* ===== verification/Deployment.thy ===== *)
theory Deployment
  imports Interleaving
begin

section \<open>Configurations in force\<close>

text \<open>
  How the gateway's routes follow the configurations it is given, over the transition system of
  \<open>Interleaving\<close>: an abstract gateway is nothing but the configuration that was applied last, and
  the concrete one implements it in every reachable state. Then, what a reload does to health
  checkers and backends, which no configuration asks for.
\<close>

subsection \<open>The configuration a gateway implements\<close>

text \<open>
  What a limiter, a balancer and a breaker keep of their configuration: the limiter without its
  buckets, the balancer without its counters, the breaker's settings.
\<close>

fun limiter_setup :: "limiter \<Rightarrow> limiter" where
  "limiter_setup (TokenBucket l) = TokenBucket (l\<lparr>tl_buckets := Map.empty\<rparr>)"
| "limiter_setup (SlidingWindow l) = SlidingWindow (l\<lparr>sl_buckets := Map.empty\<rparr>)"
| "limiter_setup l = l"

fun balancer_setup :: "balancer \<Rightarrow> balancer" where
  "balancer_setup (RoundRobin x) = RoundRobin (x\<lparr>rr_counter := 0\<rparr>)"
| "balancer_setup (Weighted x) = Weighted (newWeighted (w_Backends x))"
| "balancer_setup b = b"

definition breaker_setup :: "'k route \<Rightarrow> string \<Rightarrow> CircuitBreakerConfig option option" where
  "breaker_setup rt url = map_option (map_option cb_cfg) (rt_breakers rt url)"

text \<open>The balancer the configuration asks for, over the given backends.\<close>

definition balancer_for :: "string \<Rightarrow> addr list \<Rightarrow> balancer" where
  "balancer_for alg bs =
     (if alg = ''least_conn'' then LeastConn \<lparr>lc_backends = bs\<rparr>
      else if alg = ''weighted'' then Weighted (newWeighted bs)
      else if alg = ''ip_hash'' then IpHash \<lparr>ih_backends = bs\<rparr>
      else RoundRobin \<lparr>rr_backends = bs, rr_counter = 0\<rparr>)"

text \<open>
  A route implements its section of the configuration: prefix, stripping and timeout, the backends
  with their URLs and weights in order, the strategy over them, the limiter, and a breaker with the
  section's settings for each backend's URL and no other.
\<close>

definition implements :: "'k gwlib \<Rightarrow> store \<Rightarrow> 'k route \<Rightarrow> RouteConfig \<Rightarrow> bool" where
  "implements lib st rt rc \<longleftrightarrow> rt_prefix rt = rc_PathPrefix rc \<and> rt_strip rt = rc_StripPrefix rc \<and>
     rt_timeout rt = secondsToDuration (rc_TimeoutSeconds rc) \<and>
     map (\<lambda>a. (be_URL (st ! a), be_Weight (st ! a))) (lb_Backends (rt_lb rt)) =
       map (\<lambda>b. (bc_URL b, bc_Weight b)) (rc_Backends rc) \<and>
     balancer_setup (rt_lb rt) = balancer_for (rc_LBAlgorithm rc) (lb_Backends (rt_lb rt)) \<and>
     rl_New (gl_parseRedis lib) (rc_RateLimit rc) = Inr (limiter_setup (rt_rl rt)) \<and>
     (\<forall>u. breaker_setup rt u =
        (if u \<in> bc_URL ` set (rc_Backends rc) then Some (map_option cb_defaults (rc_CircuitBreaker rc)) else None))"

definition in_force :: "'k gwlib \<Rightarrow> Config \<Rightarrow> 'k gateway \<Rightarrow> bool" where
  "in_force lib cfg g \<longleftrightarrow> list_all2 (\<lambda>ra rc. implements lib (gw_store g) (gw_heap g ! ra) rc) (gw_routes g) (cfg_Routes cfg)"

lemma implements_prefix: "implements lib st rt rc \<Longrightarrow> rt_prefix rt = rc_PathPrefix rc"
  by (simp add: implements_def)

lemma implements_urls:
  assumes "implements lib st rt rc"
  shows "map (\<lambda>a. be_URL (st ! a)) (lb_Backends (rt_lb rt)) = map bc_URL (rc_Backends rc)"
proof -
  have "map fst (map (\<lambda>a. (be_URL (st ! a), be_Weight (st ! a))) (lb_Backends (rt_lb rt))) =
      map fst (map (\<lambda>b. (bc_URL b, bc_Weight b)) (rc_Backends rc))"
    using assms by (simp only: implements_def)
  then show ?thesis by (simp add: o_def)
qed

lemma in_force_keyfile [simp]: "in_force (lib\<lparr>gl_readFile := fs\<rparr>) = in_force lib"
  by (intro ext) (simp add: in_force_def implements_def)

text \<open>The abstract gateway: a reload that succeeds replaces the configuration, nothing else does.\<close>

fun applied :: "gw_event \<Rightarrow> Config \<Rightarrow> Config" where
  "applied (Reloading cfg' None) cfg = cfg'"
| "applied ev cfg = cfg"

inductive deployed :: "'k gwlib \<Rightarrow> Config \<Rightarrow> 'k gateway \<times> (nat \<times> addr) list \<Rightarrow> bool" for lib where
  deployed_new: "in_range cfg \<Longrightarrow> NewGateway lib cfg auth traced = Inr g \<Longrightarrow> deployed lib cfg (g, [])"
| deployed_step: "deployed lib cfg s \<Longrightarrow> gw_step lib ev s s' \<Longrightarrow> deployed lib (applied ev cfg) s'"

lemma deployed_reach: "deployed lib cfg s \<Longrightarrow> gw_reach lib s"
  by (induction rule: deployed.induct) (auto intro: reach_new reach_step)

subsection \<open>Serving and checking keep it\<close>

definition same_config :: "'k route \<Rightarrow> 'k route \<Rightarrow> bool" where
  "same_config rt rt' \<longleftrightarrow> rt_prefix rt' = rt_prefix rt \<and> rt_strip rt' = rt_strip rt \<and> rt_timeout rt' = rt_timeout rt \<and>
     lb_Backends (rt_lb rt') = lb_Backends (rt_lb rt) \<and> balancer_setup (rt_lb rt') = balancer_setup (rt_lb rt) \<and>
     limiter_setup (rt_rl rt') = limiter_setup (rt_rl rt) \<and> breaker_setup rt' = breaker_setup rt \<and>
     rt_auth rt' = rt_auth rt \<and> rt_traced rt' = rt_traced rt"

definition same_backends :: "store \<Rightarrow> store \<Rightarrow> bool" where
  "same_backends st st' \<longleftrightarrow> (\<forall>a. be_URL (st' ! a) = be_URL (st ! a) \<and> be_Weight (st' ! a) = be_Weight (st ! a))"

lemma implements_same:
  "implements lib st rt rc \<Longrightarrow> same_config rt rt' \<Longrightarrow> same_backends st st' \<Longrightarrow> implements lib st' rt' rc"
  by (simp add: implements_def same_config_def same_backends_def)

lemma same_refl [simp]: "same_config rt rt" "same_backends st st"
  by (simp_all add: same_config_def same_backends_def)

lemma same_trans: "same_config rt rt1 \<Longrightarrow> same_config rt1 rt2 \<Longrightarrow> same_config rt rt2"
  by (simp add: same_config_def)

lemma limiter_setup_Allow: "limiter_setup (fst (rl_Allow run t0 now r l)) = limiter_setup l"
  by (cases l)
    (auto simp: tl_Allow_def tl_getOrCreate_def sl_Allow_def sl_getOrCreate_def Let_def case_prod_beta split: option.splits)

lemma balancer_setup_Next: "balancer_setup (fst (lb_Next st r b)) = balancer_setup b"
  by (cases b)
    (auto simp: rr_Next_def lc_Next_def ih_Next_def w_Backends_Next Let_def case_prod_beta split: list.splits)

lemma breaker_setup_put:
  "map_option cb_cfg b = map_option cb_cfg (rt_breaker rt url) \<Longrightarrow> breaker_setup (put_breaker url b rt) = breaker_setup rt"
  by (rule ext) (auto simp: breaker_setup_def put_breaker_def rt_breaker_def split: option.splits)

lemma failure_some: "cb_RecordFailure t t' (Some x) = Inr b \<Longrightarrow> \<exists>y. b = Some y"
  by (cases "cb_maybeTrip t' (cb_record t False x)") (auto split: cb_state.splits)

lemma breaker_cfg_kept:
  "map_option cb_cfg (fst (cb_Allow t b)) = map_option cb_cfg b"
  "map_option cb_cfg (cb_RecordSuccess t b) = map_option cb_cfg b"
  "cb_RecordFailure t t' b = Inr b' \<Longrightarrow> map_option cb_cfg b' = map_option cb_cfg b"
proof -
  show "map_option cb_cfg (fst (cb_Allow t b)) = map_option cb_cfg b"
    using cb_step_cfg [of _ "EvAllow t"] by (cases b) (auto split: cb_state.splits)
  show "map_option cb_cfg (cb_RecordSuccess t b) = map_option cb_cfg b"
    using cb_step_cfg [of _ "EvSuccess t"] by (cases b) (auto split: cb_state.splits)
  assume f: "cb_RecordFailure t t' b = Inr b'"
  show "map_option cb_cfg b' = map_option cb_cfg b"
  proof (cases b)
    case (Some x)
    with f failure_some obtain y where "b' = Some y" by blast
    with f Some cb_step_cfg [of x "EvFailure t t'" y] show ?thesis by (simp del: cb_RecordFailure.simps)
  qed (use f in simp)
qed

lemma same_put:
  "map_option cb_cfg b = map_option cb_cfg (rt_breaker rt url) \<Longrightarrow> same_config rt (put_breaker url b rt)"
  by (simp add: same_config_def breaker_setup_put) (simp add: put_breaker_def)

lemma weight_flags [simp]:
  "be_Weight (be_SetAlive st a v ! b) = be_Weight (st ! b)" "be_Weight (be_Dec st a ! b) = be_Weight (st ! b)"
  "be_Weight (be_Inc st a ! b) = be_Weight (st ! b)"
  unfolding be_SetAlive_def be_Dec_def be_Inc_def by (rule nth_update_field; simp)+

lemma same_backends_be [simp]:
  "same_backends st (be_Inc st' a) = same_backends st st'" "same_backends st (be_Dec st' a) = same_backends st st'"
  "same_backends st (be_SetAlive st' a v) = same_backends st st'"
  by (simp_all add: same_backends_def)

lemma begin_same:
  assumes "serve_begin lib ck r st rt = (st', rt', start)"
  shows "same_config rt rt' \<and> same_backends st st'"
proof -
  let ?rl = "fst (rl_Allow (gl_redis lib) (ck_fill ck) (ck_limit ck) r (rt_rl rt))"
  let ?lb = "fst (lb_Next st r (rt_lb rt))"
  have one: "same_config rt (rt\<lparr>rt_rl := ?rl\<rparr>)"
    by (simp add: same_config_def limiter_setup_Allow) (simp add: breaker_setup_def fun_eq_iff)
  have two: "same_config rt (rt\<lparr>rt_rl := ?rl, rt_lb := ?lb\<rparr>)"
    using lb.pick_list [of st r "rt_lb rt"]
    by (simp add: same_config_def limiter_setup_Allow balancer_setup_Next) (simp add: breaker_setup_def fun_eq_iff)
  have "same_config rt (put_breaker url (fst (cb_Allow t (rt_breaker rt url))) (rt\<lparr>rt_rl := ?rl, rt_lb := ?lb\<rparr>))" for url t
    by (rule same_trans [OF two same_put]) (simp add: breaker_cfg_kept)
  with one two assms show ?thesis
    by (auto simp: serve_begin_def Let_def case_prod_beta split: sum.splits rl_result.splits option.splits)
qed

lemma report_same:
  "same_config rt (snd (report_success ck a st rt)) \<and> same_backends st (fst (report_success ck a st rt))"
  "report_failure ck a st rt = Inr (st', rt') \<Longrightarrow> same_config rt rt' \<and> same_backends st st'"
  by (auto simp: report_success_def report_failure_def Let_def same_put breaker_cfg_kept split: sum.splits)

lemma same_backends_trans: "same_backends st st1 \<Longrightarrow> same_backends st1 st2 \<Longrightarrow> same_backends st st2"
  by (simp add: same_backends_def)

lemma bad_gateway_same:
  assumes "bad_gateway ck a st rt w = (st', rt', rest)"
  shows "same_config rt rt' \<and> same_backends st st'"
  using assms report_same(2) [of ck a st rt] by (auto simp: bad_gateway_def Let_def split: sum.splits)

lemma end_same:
  assumes "serve_end ck a up st rt w = (st', rt', rest)"
  shows "same_config rt rt' \<and> same_backends st st'"
proof (cases up)
  case UpError
  obtain st1 rest1 where b: "bad_gateway ck a st rt w = (st1, rt', rest1)" and "st' = be_Dec st1 a"
    using assms by (auto simp: UpError serve_end_def split: prod.splits)
  with bad_gateway_same [OF b] show ?thesis by simp
next
  case (UpResponse code h body broken)
  show ?thesis
  proof (cases "500 \<le> code")
    case True
    with UpResponse assms report_same(2) [of ck a st rt] show ?thesis
      by (auto simp: serve_end_def serve_response_def Let_def split: prod.splits sum.splits if_splits)
  next
    case False
    obtain st1 rt1 where s: "report_success ck a st rt = (st1, rt1)" by (cases "report_success ck a st rt")
    then have ok: "same_config rt rt1" "same_backends st st1" using report_same(1) [of rt ck a st] by simp_all
    have "same_config rt rt2 \<and> same_backends st st2" if "bad_gateway ck a st1 rt1 w = (st2, rt2, rest2)" for st2 rt2 rest2
      using bad_gateway_same [OF that] ok same_trans same_backends_trans by blast
    with False UpResponse assms s ok show ?thesis
      by (auto simp: serve_end_def serve_response_def Let_def split: prod.splits if_splits)
  qed
qed

lemma health_same:
  assumes "health_step ev (c, st) (c', st')"
  shows "same_backends st st'"
proof -
  have "same_backends st (checkAll get as st)" for get as
    unfolding checkAll_def by (induction as arbitrary: st) (simp_all add: checkOne_eq same_backends_def)
  with assms show ?thesis by (cases rule: health_step.cases) simp_all
qed

lemma in_force_route:
  assumes "in_force lib cfg g" and "same_config (gw_heap g ! ra) rt" and "same_backends (gw_store g) st"
  shows "in_force lib cfg (set_route ra st rt g)"
proof -
  have "implements lib st ((gw_heap g)[ra := rt] ! rb) rc" if "implements lib (gw_store g) (gw_heap g ! rb) rc" for rb rc
    using implements_same [OF that _ assms(3)] assms(2)
    by (cases "rb = ra \<and> ra < length (gw_heap g)") (auto simp: list_update_beyond nth_list_update)
  with assms(1) show ?thesis unfolding in_force_def set_route_fields by (rule list_all2_mono)
qed

subsection \<open>Reloading replaces it\<close>

lemma implements_append:
  assumes "implements lib st rt rc" and "\<forall>a \<in> set (lb_Backends (rt_lb rt)). a < length st"
  shows "implements lib (st @ bs) rt rc"
proof -
  have "map (\<lambda>a. (be_URL ((st @ bs) ! a), be_Weight ((st @ bs) ! a))) (lb_Backends (rt_lb rt)) =
      map (\<lambda>a. (be_URL (st ! a), be_Weight (st ! a))) (lb_Backends (rt_lb rt))"
    using assms(2) by (simp add: nth_append)
  with assms(1) show ?thesis by (simp add: implements_def)
qed

definition built_new :: "'k gateway \<Rightarrow> 'k gateway \<Rightarrow> nat \<Rightarrow> bool" where
  "built_new g g' ra \<longleftrightarrow> ra < length (gw_heap g') \<and>
     (\<forall>a \<in> set (lb_Backends (rt_lb (gw_heap g' ! ra))). length (gw_store g) \<le> a \<and> a < length (gw_store g'))"

lemma built_new_mono: "built_new g1 g' ra \<Longrightarrow> length (gw_store g) \<le> length (gw_store g1) \<Longrightarrow> built_new g g' ra"
  unfolding built_new_def by (meson order_trans)

lemma buildRoutes_fresh:
  assumes "buildRoutes lib i cs g = (g', Inr ras)"
  shows "(\<exists>bs. gw_store g' = gw_store g @ map fresh_backend bs) \<and> (\<exists>rs. gw_heap g' = gw_heap g @ rs) \<and>
    (\<exists>ks. gw_checkers g' = gw_checkers g @ ks \<and> (\<forall>k \<in> set ks. \<not> hc_cancelled k) \<and> length ks = length cs) \<and>
    gw_routes g' = gw_routes g \<and> length ras = length cs \<and> (\<forall>ra \<in> set ras. built_new g g' ra) \<and>
    map (\<lambda>ra. rt_prefix (gw_heap g' ! ra)) ras = map rc_PathPrefix cs"
  using assms
proof (induction cs arbitrary: i g g' ras)
  case Nil
  then show ?case by (auto intro: exI [of _ "[]"])
next
  case (Cons c cs)
  obtain g1 r1 where b1: "buildRoute lib c g = (g1, r1)" by (cases "buildRoute lib c g")
  from Cons.prems b1 obtain ra where r1: "r1 = Inr ra" by (cases r1) auto
  then obtain ras' where b2: "buildRoutes lib (Suc i) cs g1 = (g', Inr ras')" "ras = ra # ras'"
    using Cons.prems b1 by (cases "buildRoutes lib (Suc i) cs g1"; cases "snd (buildRoutes lib (Suc i) cs g1)") auto
  note IH = Cons.IH [OF b2(1)]
  show ?case
  proof (cases rule: buildRoute_cases [where lib = lib and cfg = c and g = g])
    case (built k rt)
    with b1 r1 have g1: "gw_store g1 = gw_store g @ map fresh_backend (rc_Backends c)" "gw_checkers g1 = gw_checkers g @ [k]"
        "gw_heap g1 = gw_heap g @ [rt]" "ra = length (gw_heap g)" "gw_routes g1 = gw_routes g" by auto
    from IH obtain bs rs ks where e: "gw_store g' = gw_store g1 @ map fresh_backend bs" "gw_heap g' = gw_heap g1 @ rs"
        "gw_checkers g' = gw_checkers g1 @ ks" "\<forall>k \<in> set ks. \<not> hc_cancelled k" "length ks = length cs" by blast
    have rt: "gw_heap g' ! ra = rt" by (simp add: e(2) g1(3,4) nth_append)
    have "built_new g g' ra" using built(5) by (simp add: built_new_def rt, simp add: e(1,2) g1(1,3,4))
    moreover have "\<forall>x \<in> set ras'. built_new g g' x" using IH by (auto simp: g1(1) intro: built_new_mono)
    moreover have "gw_store g' = gw_store g @ map fresh_backend (rc_Backends c @ bs)" by (simp add: e(1) g1(1))
    moreover have "gw_checkers g' = gw_checkers g @ (k # ks)" "\<forall>x \<in> set (k # ks). \<not> hc_cancelled x"
      using built(2) e(4) by (simp_all add: e(3) g1(2) health_New_def)
    moreover have "gw_heap g' = gw_heap g @ (rt # rs)" by (simp add: e(2) g1(3))
    moreover have "map (\<lambda>ra. rt_prefix (gw_heap g' ! ra)) ras' = map rc_PathPrefix cs" "gw_routes g' = gw_routes g1"
      "length ras' = length cs" using IH by blast+
    moreover have "length (k # ks) = length (c # cs)" using e(5) by simp
    ultimately show ?thesis
      using rt built(3) g1(5) unfolding b2(2) by fastforce
  qed (use b1 r1 in auto)
qed

lemma urls_of_new:
  "map (\<lambda>a. (be_URL ((st @ map fresh_backend cs) ! a), be_Weight ((st @ map fresh_backend cs) ! a))) [length st..<length st + length cs] =
     map (\<lambda>b. (bc_URL b, bc_Weight b)) cs"
  by (rule nth_equalityI) (simp_all add: nth_append fresh_backend_def)

lemma lb_New_setup: "balancer_setup (snd (lb_New st alg cs)) = balancer_for alg (lb_Backends (snd (lb_New st alg cs)))"
  by (simp add: lb_New_def balancer_for_def newWeighted_def w_Backends_def o_def case_prod_beta)

lemma rl_New_setup: "rl_New parse cfg = Inr l \<Longrightarrow> limiter_setup l = l"
  by (auto simp: rl_New_def newRedisLimiter_def Let_def split: option.splits if_splits)

lemma buildBreakers_setup:
  "map_option (map_option cb_cfg) (buildBreakers cfg bs m u) =
     (if u \<in> bc_URL ` set bs then Some (map_option cb_defaults cfg) else map_option (map_option cb_cfg) (m u))"
proof (induction bs arbitrary: cfg m)
  case (Cons b bs)
  obtain cfg' cb where New: "cb_New cfg = (cfg', cb)" by (cases "cb_New cfg")
  then have "cfg' = map_option cb_defaults cfg" "map_option cb_cfg cb = map_option cb_defaults cfg"
    by (auto simp: cb_New_def Let_def split: option.splits)
  moreover have "map_option cb_defaults (map_option cb_defaults cfg) = map_option cb_defaults cfg"
    by (cases cfg) (simp_all add: defaults_idem)
  ultimately show ?case using Cons.IH New by auto
qed simp

lemma buildRoutes_implement:
  assumes "buildRoutes lib i cs g = (g', Inr ras)"
  shows "list_all2 (\<lambda>ra rc. implements lib (gw_store g') (gw_heap g' ! ra) rc) ras cs"
  using assms
proof (induction cs arbitrary: i g ras)
  case Nil
  then show ?case by simp
next
  case (Cons c cs)
  obtain g1 r1 where b1: "buildRoute lib c g = (g1, r1)" by (cases "buildRoute lib c g")
  from Cons.prems b1 obtain ra where r1: "r1 = Inr ra" by (cases r1) auto
  then obtain ras' where b2: "buildRoutes lib (Suc i) cs g1 = (g', Inr ras')" "ras = ra # ras'"
    using Cons.prems b1 by (cases "buildRoutes lib (Suc i) cs g1"; cases "snd (buildRoutes lib (Suc i) cs g1)") auto
  note fresh = buildRoutes_fresh [OF b2(1)]
  show ?case
  proof (cases rule: buildRoute_cases [where lib = lib and cfg = c and g = g])
    case (built k rt)
    with b1 r1 have g1: "gw_store g1 = gw_store g @ map fresh_backend (rc_Backends c)"
        "gw_heap g1 = gw_heap g @ [rt]" "ra = length (gw_heap g)" by auto
    from fresh obtain bs rs where e: "gw_store g' = gw_store g1 @ map fresh_backend bs" "gw_heap g' = gw_heap g1 @ rs" by blast
    have "gw_heap g' ! ra = rt" by (simp add: e(2) g1(2,3) nth_append)
    have "balancer_setup (rt_lb rt) = balancer_for (rc_LBAlgorithm c) (lb_Backends (rt_lb rt))"
      unfolding built(12) by (rule lb_New_setup)
    moreover have "rl_New (gl_parseRedis lib) (rc_RateLimit c) = Inr (limiter_setup (rt_rl rt))"
      using built(11) rl_New_setup [OF built(11)] by simp
    moreover have "breaker_setup rt u =
        (if u \<in> bc_URL ` set (rc_Backends c) then Some (map_option cb_defaults (rc_CircuitBreaker c)) else None)" for u
      by (simp add: breaker_setup_def built(6) buildBreakers_setup)
    ultimately have "implements lib (gw_store g1) rt c"
      using built(3,5,7,8) urls_of_new [of "gw_store g" "rc_Backends c"] unfolding implements_def g1(1) by simp
    then have "implements lib (gw_store g') rt c"
      unfolding e(1) by (rule implements_append) (simp add: built(5) g1(1))
    with \<open>gw_heap g' ! ra = rt\<close> show ?thesis using Cons.IH [OF b2(1)] by (simp add: b2(2))
  qed (use b1 r1 in auto)
qed

lemma in_force_grows:
  assumes "in_force lib cfg g" and "gw_ok g" and "extends g g'"
  shows "in_force lib cfg g'"
proof -
  from assms(3) obtain bs rs where e: "gw_store g' = gw_store g @ bs" "gw_heap g' = gw_heap g @ rs" "gw_routes g' = gw_routes g"
    by (auto simp: extends_def)
  have "implements lib (gw_store g') (gw_heap g' ! ra) rc"
    if "ra \<in> set (gw_routes g)" "implements lib (gw_store g) (gw_heap g ! ra) rc" for ra rc
  proof -
    have ra: "ra < length (gw_heap g)" using that(1) assms(2) by (simp add: gw_ok_def)
    with gw_ok_route [OF assms(2) ra] that(2) show ?thesis
      by (simp add: e nth_append route_ok_def implements_append)
  qed
  with assms(1) show ?thesis unfolding in_force_def e(3) by (auto intro: list.rel_mono_strong)
qed

lemma Reload_in_force:
  assumes "Reload lib cfg' g = (g', e)" and "in_range cfg'" and "gw_ok g" and "in_force lib cfg g"
  shows "in_force lib (applied (Reloading cfg' e) cfg) g'"
proof -
  obtain g1 res where b: "buildRoutes lib 0 (cfg_Routes cfg') g = (g1, res)" by (metis prod.collapse)
  show ?thesis
  proof (cases res)
    case (Inl x)
    then have "g' = g1" "e = Some x" using b assms(1) by (simp_all add: Reload_def)
    with in_force_grows [OF assms(4,3)] buildRoutes_keeps [OF b assms(2) [unfolded in_range_iff] assms(3)]
    show ?thesis by simp
  next
    case (Inr ras)
    then have "e = None" "gw_routes g' = ras" "gw_store g' = gw_store g1" "gw_heap g' = gw_heap g1"
      using b assms(1) by (auto simp: Reload_def Let_def)
    with buildRoutes_implement [OF b [unfolded Inr]] show ?thesis by (simp add: in_force_def)
  qed
qed

lemma NewGateway_in_force:
  assumes "NewGateway lib cfg auth traced = Inr g"
  shows "in_force lib cfg g"
proof -
  let ?g0 = "\<lparr>gw_store = [], gw_checkers = [], gw_heap = [], gw_routes = [], gw_authConfig = auth, gw_traced = traced\<rparr>"
  obtain g1 res where b: "buildRoutes lib 0 (cfg_Routes cfg) ?g0 = (g1, res)" by (metis prod.collapse)
  with assms obtain ras where "res = Inr ras" "g = g1\<lparr>gw_routes := ras\<rparr>"
    by (auto simp: NewGateway_def split: sum.splits)
  with buildRoutes_implement [of lib 0 "cfg_Routes cfg" ?g0 g1 ras] b show ?thesis by (simp add: in_force_def)
qed

lemma in_force_step:
  "gw_step lib ev s s' \<Longrightarrow> sys_ok s \<Longrightarrow> in_force lib cfg (fst s) \<Longrightarrow> in_force lib (applied ev cfg) (fst s')"
proof (induction rule: gw_step.induct)
  case (begin_forward ra g ck r st rt a out fl)
  with begin_same [OF begin_forward.hyps(2)] show ?case by (simp add: in_force_route)
next
  case (begin_refuse ra g ck r st rt start fl)
  with begin_same [OF begin_refuse.hyps(2)] show ?case by (simp add: in_force_route)
next
  case (finish ra a fl ck up g w st rt rest)
  with end_same [OF finish.hyps(2)] show ?case by (simp add: in_force_route)
next
  case (health i g ev c st fl)
  from health_same [OF health.hyps(2)] have "implements lib st rt rc" if "implements lib (gw_store g) rt rc" for rt rc
    using implements_same [OF that same_refl(1)] by blast
  then show ?case using health.prems(2) unfolding in_force_def
    by (auto intro: list_all2_mono)
next
  case (reload cfg' fs g g' e fl)
  then show ?case using Reload_in_force [OF reload.hyps(2,1)] by (simp add: sys_ok_def)
qed

lemma deployed_in_force: "deployed lib cfg s \<Longrightarrow> in_force lib cfg (fst s)"
proof (induction rule: deployed.induct)
  case (deployed_new cfg auth traced g)
  then show ?case by (simp add: NewGateway_in_force)
next
  case (deployed_step cfg s ev s')
  then show ?case using in_force_step reach_ok [OF deployed_reach] by blast
qed

lemma list_all2_partner: "list_all2 P xs ys \<Longrightarrow> x \<in> set xs \<Longrightarrow> \<exists>y \<in> set ys. P x y"
  by (induction rule: list_all2_induct) auto

lemma list_all2_origin: "list_all2 P xs ys \<Longrightarrow> y \<in> set ys \<Longrightarrow> \<exists>x \<in> set xs. P x y"
  by (induction rule: list_all2_induct) auto

text \<open>The route a request matches implements a section whose prefix is the longest that fits.\<close>

lemma matched_section:
  assumes "in_force lib cfg g" and "match_route (gw_heap g) path (gw_routes g) None = Some ra"
  shows "ra \<in> set (gw_routes g) \<and> (\<exists>rc \<in> set (cfg_Routes cfg). implements lib (gw_store g) (gw_heap g ! ra) rc \<and>
    HasPrefix path (rc_PathPrefix rc) \<and>
    (\<forall>rc' \<in> set (cfg_Routes cfg). HasPrefix path (rc_PathPrefix rc') \<longrightarrow> length (rc_PathPrefix rc') \<le> length (rc_PathPrefix rc)))"
proof -
  from match_route_spec [OF assms(2)] have ra: "ra \<in> set (gw_routes g)" "HasPrefix path (rt_prefix (gw_heap g ! ra))"
    and longest: "\<forall>ra' \<in> set (gw_routes g). HasPrefix path (rt_prefix (gw_heap g ! ra')) \<longrightarrow>
      length (rt_prefix (gw_heap g ! ra')) \<le> length (rt_prefix (gw_heap g ! ra))" by simp_all
  obtain rc where rc: "rc \<in> set (cfg_Routes cfg)" "implements lib (gw_store g) (gw_heap g ! ra) rc"
    using list_all2_partner [OF assms(1) [unfolded in_force_def] ra(1)] by blast
  have "length (rc_PathPrefix rc') \<le> length (rc_PathPrefix rc)"
    if "rc' \<in> set (cfg_Routes cfg)" "HasPrefix path (rc_PathPrefix rc')" for rc'
  proof -
    have "\<exists>ra' \<in> set (gw_routes g). implements lib (gw_store g) (gw_heap g ! ra') rc'"
      using list_all2_origin [OF assms(1) [unfolded in_force_def] that(1)] .
    with longest that(2) implements_prefix implements_prefix [OF rc(2)] show ?thesis by metis
  qed
  with ra rc implements_prefix [OF rc(2)] show ?thesis by auto
qed

text \<open>
  C5. The gateway implements the configuration applied last, whatever requests, checks and failed
  reloads did since: in every reachable state its routes are that configuration's, in order, each
  with the section's prefix, timeout, backends and weights, strategy, limiter and breakers. And a
  request that passes the gates of the route it matched goes to a live backend whose URL the
  configuration lists in the section with the longest prefix of the request's path.
\<close>

theorem forwards_as_configured:
  assumes "deployed lib cfg (g, fl)"
  shows "in_force lib cfg g \<and>
    (\<forall>ck r ra st rt a out. match_route (gw_heap g) (r_Path r) (gw_routes g) None = Some ra \<longrightarrow>
      serve_begin lib ck r (gw_store g) (gw_heap g ! ra) = (st, rt, StartForward a out) \<longrightarrow>
      be_IsAlive (gw_store g) a \<and>
      (\<exists>rc \<in> set (cfg_Routes cfg). HasPrefix (r_Path r) (rc_PathPrefix rc) \<and>
        (\<forall>rc' \<in> set (cfg_Routes cfg). HasPrefix (r_Path r) (rc_PathPrefix rc') \<longrightarrow>
          length (rc_PathPrefix rc') \<le> length (rc_PathPrefix rc)) \<and>
        be_URL (gw_store g ! a) \<in> set (map bc_URL (rc_Backends rc))))"
proof (intro conjI allI impI)
  show f: "in_force lib cfg g" using deployed_in_force [OF assms] by simp
  fix ck ra st rt a out and r :: request
  assume "match_route (gw_heap g) (r_Path r) (gw_routes g) None = Some ra"
  note m = matched_section [OF f this]
  assume "serve_begin lib ck r (gw_store g) (gw_heap g ! ra) = (st, rt, StartForward a out)"
  moreover have "gw_ok g" using reach_ok [OF deployed_reach [OF assms]] by (simp add: sys_ok_def)
  then have "lb_ok (rt_lb (gw_heap g ! ra))" using m gw_ok_route by (fastforce simp: gw_ok_def route_ok_def)
  ultimately have "a \<in> set (healthy (gw_store g) (lb_Backends (rt_lb (gw_heap g ! ra))))"
    using serve_begin_gates [of "gw_heap g ! ra"] by (fastforce simp: gates_def Let_def)
  then have a: "a \<in> set (lb_Backends (rt_lb (gw_heap g ! ra)))" "be_IsAlive (gw_store g) a" by simp_all
  show "be_IsAlive (gw_store g) a" by (rule a(2))
  have "be_URL (gw_store g ! a) \<in> set (map (\<lambda>a. be_URL (gw_store g ! a)) (lb_Backends (rt_lb (gw_heap g ! ra))))"
    using a(1) by simp
  with m implements_urls show "\<exists>rc \<in> set (cfg_Routes cfg). HasPrefix (r_Path r) (rc_PathPrefix rc) \<and>
      (\<forall>rc' \<in> set (cfg_Routes cfg). HasPrefix (r_Path r) (rc_PathPrefix rc') \<longrightarrow>
        length (rc_PathPrefix rc') \<le> length (rc_PathPrefix rc)) \<and>
      be_URL (gw_store g ! a) \<in> set (map bc_URL (rc_Backends rc))" by metis
qed

lemma started_deployed: "deployed example_lib loaded_config (started, [])"
  by (rule deployed_new [OF loaded_in_range started_New])

theorem forwards_as_configured_witness:
  "in_force example_lib loaded_config started \<and> be_URL (gw_store started ! 0) = ''http://a'' \<and>
   (\<exists>rc \<in> set (cfg_Routes loaded_config). HasPrefix ''/api/x'' (rc_PathPrefix rc))"
proof -
  obtain rt out where b: "serve_begin example_lib (example_clocks 5) (get_request ''/api/x'') (gw_store started) (gw_heap started ! 0) =
     (be_Inc (gw_store started) 0, rt, StartForward 0 out)" using started_forward by blast
  have m: "match_route (gw_heap started) (r_Path (get_request ''/api/x'')) (gw_routes started) None = Some 0"
    by (simp add: started_def get_request_def)
  from forwards_as_configured [OF started_deployed] m b have "in_force example_lib loaded_config started"
    "\<exists>rc \<in> set (cfg_Routes loaded_config). HasPrefix (r_Path (get_request ''/api/x'')) (rc_PathPrefix rc)" by blast+
  then show ?thesis by (auto simp: get_request_def, simp add: started_def)
qed

subsection \<open>What no configuration changes\<close>

text \<open>
  Authentication and tracing are those of the start: \<open>Reload\<close> builds its routes with what
  \<open>NewGateway\<close> was given. \<open>auth_settings\<close> is what a route's authentication keeps of its section;
  the key file is read again for every route.
\<close>

definition auth_settings :: "AuthConfig option \<Rightarrow> MwAuthConfig option" where
  "auth_settings auth =
     (case auth of
        None \<Rightarrow> None
      | Some a \<Rightarrow>
          if au_Enabled a
          then Some \<lparr>ma_Enabled = True, ma_PublicKeyPath = au_PublicKeyPath a, ma_SkipPaths = au_SkipPaths a\<rparr>
          else None)"

definition settings :: "AuthConfig option \<Rightarrow> bool \<Rightarrow> 'k gateway \<Rightarrow> bool" where
  "settings auth traced g \<longleftrightarrow> gw_authConfig g = auth \<and> gw_traced g = traced \<and>
     list_all (\<lambda>rt. rt_traced rt = traced \<and> map_option snd (rt_auth rt) = auth_settings auth) (gw_heap g)"

lemma route_auth_settings: "route_auth lib auth = Inr x \<Longrightarrow> map_option snd x = auth_settings auth"
  by (cases x)
    (auto simp: route_auth_def auth_settings_def NewAuthMiddleware_def map_sum_def Let_def
      split: option.splits if_splits sum.splits)

lemma buildRoute_settings:
  assumes "settings auth traced g"
  shows "settings auth traced (fst (buildRoute lib c g))"
proof (cases rule: buildRoute_cases [where lib = lib and cfg = c and g = g])
  case (built k rt)
  with assms route_auth_settings [OF built(10)] show ?thesis by (simp add: settings_def)
qed (use assms in \<open>simp_all add: settings_def\<close>)

lemma buildRoutes_settings: "settings auth traced g \<Longrightarrow> settings auth traced (fst (buildRoutes lib i cs g))"
proof (induction cs arbitrary: i g)
  case (Cons c cs)
  obtain g1 r where b: "buildRoute lib c g = (g1, r)" by (cases "buildRoute lib c g")
  with buildRoute_settings [OF Cons.prems, of lib c] have "settings auth traced g1" by simp
  with b Cons.IH show ?case by (cases r) simp_all
qed simp

lemma settings_fields: "settings auth traced (g\<lparr>gw_routes := ras, gw_checkers := cs\<rparr>) = settings auth traced g"
  "settings auth traced (g\<lparr>gw_routes := ras\<rparr>) = settings auth traced g"
  "settings auth traced (g\<lparr>gw_store := st, gw_checkers := cs\<rparr>) = settings auth traced g"
  by (simp_all add: settings_def)

lemma settings_route:
  assumes "settings auth traced g" and "same_config (gw_heap g ! ra) rt"
  shows "settings auth traced (set_route ra st rt g)"
proof (cases "ra < length (gw_heap g)")
  case True
  with assms have "rt_traced rt = traced \<and> map_option snd (rt_auth rt) = auth_settings auth"
    by (simp add: settings_def same_config_def list_all_length)
  with assms(1) show ?thesis by (simp add: settings_def set_route_def list_all_put)
next
  case False
  with assms(1) show ?thesis by (simp add: settings_def set_route_def list_update_beyond)
qed

lemma settings_step: "gw_step lib ev s s' \<Longrightarrow> settings auth traced (fst s) \<Longrightarrow> settings auth traced (fst s')"
proof (induction rule: gw_step.induct)
  case (begin_forward ra g ck r st rt a out fl)
  with begin_same [OF begin_forward.hyps(2)] show ?case by (simp add: settings_route)
next
  case (begin_refuse ra g ck r st rt start fl)
  with begin_same [OF begin_refuse.hyps(2)] show ?case by (simp add: settings_route)
next
  case (finish ra a fl ck up g w st rt rest)
  with end_same [OF finish.hyps(2)] show ?case by (simp add: settings_route)
next
  case (health i g ev c st fl)
  then show ?case by (simp add: settings_fields)
next
  case (reload cfg fs g g' e fl)
  from buildRoutes_settings [of auth traced g "lib\<lparr>gl_readFile := fs\<rparr>" 0 "cfg_Routes cfg"] reload show ?case
    by (auto simp: Reload_def Let_def settings_fields split: prod.splits sum.splits)
qed

lemma NewGateway_settings:
  assumes "NewGateway lib cfg auth traced = Inr g"
  shows "settings auth traced g"
proof -
  let ?g0 = "\<lparr>gw_store = [], gw_checkers = [], gw_heap = [], gw_routes = [], gw_authConfig = auth, gw_traced = traced\<rparr>"
  have "settings auth traced ?g0" by (simp add: settings_def)
  from buildRoutes_settings [OF this, of lib 0 "cfg_Routes cfg"] assms show ?thesis
    by (auto simp: NewGateway_def settings_fields split: prod.splits sum.splits)
qed

subsection \<open>What a reload does to checkers and backends\<close>

definition running :: "'k gateway \<Rightarrow> nat" where
  "running g = length (filter (\<lambda>c. \<not> hc_cancelled c) (gw_checkers g))"

definition current_prefixes :: "'k gateway \<Rightarrow> string set" where
  "current_prefixes g = (\<lambda>ra. rt_prefix (gw_heap g ! ra)) ` set (gw_routes g)"

definition all_alive :: "'k gateway \<Rightarrow> bool" where
  "all_alive g = list_all (\<lambda>ra. list_all (be_IsAlive (gw_store g)) (lb_Backends (rt_lb (gw_heap g ! ra)))) (gw_routes g)"

lemma stopRemoved_none: "\<forall>ra \<in> set ras. rt_prefix (heap ! ra) \<in> P \<Longrightarrow> stopRemoved P heap ras cs = cs"
  by (induction ras arbitrary: cs) auto

text \<open>The backends of new routes are new, and new backends are alive.\<close>

text \<open>
  C21. A reload leaks and forgets. The health checkers of routes that stay are not stopped (nor
  kept for the new routes, which start their own), so every reload of an unchanged file adds as
  many running checkers as there are routes. And all backends are new: whatever was known to be
  down is taken to be alive again until it is probed.
\<close>

theorem reload_leaks_checkers:
  assumes "Reload lib cfg g = (g', None)" and "\<forall>ra \<in> set (gw_routes g). ra < length (gw_heap g)"
    and "current_prefixes g \<subseteq> set (map rc_PathPrefix (cfg_Routes cfg))"
  shows "running g' = running g + length (cfg_Routes cfg) \<and> length (gw_routes g') = length (cfg_Routes cfg) \<and> all_alive g'"
proof -
  obtain g1 ras where b: "buildRoutes lib 0 (cfg_Routes cfg) g = (g1, Inr ras)"
    and g': "g' = g1\<lparr>gw_routes := ras, gw_checkers := stopRemoved (set (map (\<lambda>ra. rt_prefix (gw_heap g1 ! ra)) ras))
      (gw_heap g1) (gw_routes g1) (gw_checkers g1)\<rparr>"
    using assms(1) by (auto simp: Reload_def Let_def split: prod.splits sum.splits)
  note f = buildRoutes_fresh [OF b]
  have prefixes: "set (map (\<lambda>ra. rt_prefix (gw_heap g1 ! ra)) ras) = set (map rc_PathPrefix (cfg_Routes cfg))"
    using f by metis
  obtain rs where heap: "gw_heap g1 = gw_heap g @ rs" using f by blast
  have "\<forall>ra \<in> set (gw_routes g1). rt_prefix (gw_heap g1 ! ra) \<in> set (map rc_PathPrefix (cfg_Routes cfg))"
    using assms(2,3) f by (auto simp: heap nth_append current_prefixes_def)
  then have same: "gw_checkers g' = gw_checkers g1" by (simp add: g' prefixes [unfolded set_map] stopRemoved_none)
  obtain ks where ks: "gw_checkers g1 = gw_checkers g @ ks" "\<forall>k \<in> set ks. \<not> hc_cancelled k" "length ks = length (cfg_Routes cfg)"
    using f by blast
  then have "running g' = running g + length (cfg_Routes cfg)" by (simp add: running_def same)
  moreover have "all_alive g'"
  proof -
    obtain bs where bs: "gw_store g1 = gw_store g @ map fresh_backend bs" using f by blast
    have "be_IsAlive (gw_store g1) a" if "length (gw_store g) \<le> a" "a < length (gw_store g1)" for a
      using that by (simp add: bs be_IsAlive_def nth_append fresh_backend_def)
    with f show ?thesis by (auto simp: g' all_alive_def built_new_def list_all_iff)
  qed
  ultimately show ?thesis using f by (simp add: g')
qed

lemma started_Reload: "\<exists>g. Reload example_lib loaded_config started = (g, None)"
  by (simp add: Reload_def loaded_routes buildRoute_def lb_New_def newBackend_def rl_New_def cb_New_def
      route_auth_def started_def secondsToDuration_def time_Second_def in_i64_def Let_def)

theorem reload_leaks_checkers_witness:
  "\<exists>g. Reload example_lib loaded_config started = (g, None) \<and> running started = 1 \<and> running g = 2 \<and> length (gw_routes g) = 1"
proof -
  obtain g where g: "Reload example_lib loaded_config started = (g, None)" using started_Reload by blast
  with reload_leaks_checkers [OF g] show ?thesis
    by (simp add: loaded_routes, simp add: started_def running_def current_prefixes_def health_New_def)
qed

end
