(* ===== verification/SelfHealing.thy ===== *)
theory SelfHealing
  imports Deployment
begin

section \<open>Routes recover\<close>

text \<open>
  Every route in force has a health checker of its own that runs, is not cancelled and watches
  exactly the route's backends, which no other checker touches, in every reachable state of
  \<open>Interleaving\<close>; so a backend that was marked dead, by a probe or by a single failed request,
  comes back with the next good round.
\<close>

subsection \<open>Checkers of current routes\<close>

definition tends :: "'k gateway \<Rightarrow> Checker \<Rightarrow> 'k route \<Rightarrow> bool" where
  "tends g c rt \<longleftrightarrow> hc_running c \<and> \<not> hc_cancelled c \<and> hc_backends c = lb_Backends (rt_lb rt)"

definition tended :: "'k gateway \<Rightarrow> nat \<Rightarrow> bool" where
  "tended g ra \<longleftrightarrow> ra < length (gw_heap g) \<and> rt_checker (gw_heap g ! ra) < length (gw_checkers g) \<and>
     tends g (gw_checkers g ! rt_checker (gw_heap g ! ra)) (gw_heap g ! ra)"

definition all_tended :: "'k gateway \<Rightarrow> bool" where
  "all_tended g \<longleftrightarrow> (\<forall>ra \<in> set (gw_routes g). tended g ra)"

lemma tended_route:
  assumes "tended g rb" and "lb_Backends (rt_lb rt) = lb_Backends (rt_lb (gw_heap g ! ra))"
    and "rt_checker rt = rt_checker (gw_heap g ! ra)"
  shows "tended (set_route ra st rt g) rb"
  using assms by (cases "rb = ra") (auto simp: tended_def tends_def)

lemma all_tended_route:
  "all_tended g \<Longrightarrow> same_config (gw_heap g ! ra) rt \<Longrightarrow> rt_checker rt = rt_checker (gw_heap g ! ra) \<Longrightarrow>
   all_tended (set_route ra st rt g)"
  by (simp add: all_tended_def tended_route same_config_def)

lemma end_checker:
  assumes "serve_end ck a up st rt w = (st', rt', rest)"
  shows "rt_checker rt' = rt_checker rt"
  using assms
  by (cases up)
    (auto simp: serve_end_def serve_response_def bad_gateway_def report_failure_def report_success_def Let_def
      split: prod.splits sum.splits if_splits)

lemma health_tends:
  assumes "health_step ev (c, st) (c', st')" and "tends g c rt"
  shows "tends g' c' rt"
  using assms by (cases rule: health_step.cases) (simp_all add: tends_def)

lemma tended_extends:
  assumes "extends g g'" and "tended g ra"
  shows "tended g' ra"
  using assms by (auto simp: extends_def tended_def tends_def nth_append)

lemma stopRemoved_other:
  "i \<notin> (\<lambda>ra. rt_checker (heap ! ra)) ` set ras \<Longrightarrow> stopRemoved P heap ras cs ! i = cs ! i"
  by (induction ras arbitrary: cs) simp_all

text \<open>The routes that are built get new checkers.\<close>

lemma buildRoutes_tended:
  assumes "buildRoutes lib i cs g = (g', Inr ras)" and "ra \<in> set ras"
  shows "tended g' ra \<and> length (gw_checkers g) \<le> rt_checker (gw_heap g' ! ra)"
  using assms
proof (induction cs arbitrary: i g ras)
  case (Cons c cs)
  obtain g1 r1 where b1: "buildRoute lib c g = (g1, r1)" by (cases "buildRoute lib c g")
  from Cons.prems b1 obtain rb where r1: "r1 = Inr rb" by (cases r1) auto
  then obtain ras' where b2: "buildRoutes lib (Suc i) cs g1 = (g', Inr ras')" "ras = rb # ras'"
    using Cons.prems b1 by (cases "buildRoutes lib (Suc i) cs g1"; cases "snd (buildRoutes lib (Suc i) cs g1)") auto
  from buildRoutes_fresh [OF b2(1)] obtain rs ks where e: "gw_heap g' = gw_heap g1 @ rs" "gw_checkers g' = gw_checkers g1 @ ks"
    by blast
  show ?case
  proof (cases rule: buildRoute_cases [where lib = lib and cfg = c and g = g])
    case (built k rt)
    with b1 r1 have g1: "gw_checkers g1 = gw_checkers g @ [k]" "gw_heap g1 = gw_heap g @ [rt]" "rb = length (gw_heap g)" by auto
    show ?thesis
    proof (cases "ra \<in> set ras'")
      case True
      with Cons.IH [OF b2(1)] show ?thesis by (simp add: g1(1))
    next
      case False
      then have "ra = rb" using Cons.prems(2) by (simp add: b2(2))
      with built show ?thesis by (simp add: tended_def tends_def e g1 nth_append health_New_def)
    qed
  qed (use b1 r1 in auto)
qed simp

lemma Reload_tended:
  assumes "Reload lib cfg g = (g', e)" and "in_range cfg" and "gw_ok g" and "all_tended g"
  shows "all_tended g'"
proof -
  obtain g1 res where b: "buildRoutes lib 0 (cfg_Routes cfg) g = (g1, res)" by (metis prod.collapse)
  note k = buildRoutes_keeps [OF b assms(2) [unfolded in_range_iff] assms(3)]
  then have x: "extends g g1" "gw_routes g1 = gw_routes g" by (simp_all add: extends_def)
  show ?thesis
  proof (cases res)
    case (Inl err)
    with b assms(1) have "g' = g1" by (simp add: Reload_def)
    with assms(4) x show ?thesis by (simp add: all_tended_def tended_extends)
  next
    case (Inr ras)
    let ?P = "set (map (\<lambda>ra. rt_prefix (gw_heap g1 ! ra)) ras)"
    have g': "g' = g1\<lparr>gw_routes := ras, gw_checkers := stopRemoved ?P (gw_heap g1) (gw_routes g1) (gw_checkers g1)\<rparr>"
      using b Inr assms(1) by (simp add: Reload_def Let_def)
    have old: "rt_checker (gw_heap g1 ! rb) < length (gw_checkers g)" if "rb \<in> set (gw_routes g)" for rb
    proof -
      have "tended g rb" using that assms(4) by (simp add: all_tended_def)
      with x(1) show ?thesis by (auto simp: tended_def extends_def nth_append)
    qed
    have "tended g' ra" if "ra \<in> set ras" for ra
    proof -
      from buildRoutes_tended [OF b [unfolded Inr] that]
      have t: "tended g1 ra" "length (gw_checkers g) \<le> rt_checker (gw_heap g1 ! ra)" by simp_all
      then have "rt_checker (gw_heap g1 ! ra) \<notin> (\<lambda>rb. rt_checker (gw_heap g1 ! rb)) ` set (gw_routes g1)"
        using old x(2) by fastforce
      from stopRemoved_other [OF this] t(1) stopRemoved_frame [of ?P "gw_heap g1" "gw_routes g1" "gw_checkers g1"]
      show ?thesis by (simp add: tended_def tends_def g')
    qed
    then show ?thesis by (simp add: all_tended_def g')
  qed
qed

lemma NewGateway_tended:
  assumes "NewGateway lib cfg auth traced = Inr g"
  shows "all_tended g"
proof -
  let ?g0 = "\<lparr>gw_store = [], gw_checkers = [], gw_heap = [], gw_routes = [], gw_authConfig = auth, gw_traced = traced\<rparr>"
  obtain g1 res where b: "buildRoutes lib 0 (cfg_Routes cfg) ?g0 = (g1, res)" by (metis prod.collapse)
  with assms obtain ras where "res = Inr ras" "g = g1\<lparr>gw_routes := ras\<rparr>"
    by (auto simp: NewGateway_def split: sum.splits)
  with b buildRoutes_tended [of lib 0 "cfg_Routes cfg" ?g0 g1 ras] show ?thesis
    by (simp add: all_tended_def tended_def tends_def)
qed

lemma all_tended_step: "gw_step lib ev s s' \<Longrightarrow> sys_ok s \<Longrightarrow> all_tended (fst s) \<Longrightarrow> all_tended (fst s')"
proof (induction rule: gw_step.induct)
  case (begin_forward ra g ck r st rt a out fl)
  have "\<forall>u. breaker_ok (rt_breaker (gw_heap g ! ra) u)"
    using begin_forward gw_ok_route [of g ra] by (simp add: sys_ok_def route_ok_def)
  with begin_same [OF begin_forward.hyps(2)] serve_begin_breakers [OF begin_forward.hyps(2)] begin_forward.prems
  show ?case by (simp add: all_tended_route)
next
  case (begin_refuse ra g ck r st rt start fl)
  have "\<forall>u. breaker_ok (rt_breaker (gw_heap g ! ra) u)"
    using begin_refuse gw_ok_route [of g ra] by (simp add: sys_ok_def route_ok_def)
  with begin_same [OF begin_refuse.hyps(2)] serve_begin_breakers [OF begin_refuse.hyps(2)] begin_refuse.prems
  show ?case by (simp add: all_tended_route)
next
  case (finish ra a fl ck up g w st rt rest)
  with end_same [OF finish.hyps(2)] end_checker [OF finish.hyps(2)] show ?case by (simp add: all_tended_route)
next
  case (health i g ev c st fl)
  from health_tends [OF health.hyps(2)] health.prems(2) health.hyps(1) show ?case
    by (auto simp: all_tended_def tended_def nth_list_update tends_def)
next
  case (reload cfg fs g g' e fl)
  with Reload_tended [OF reload.hyps(2,1)] show ?case by (simp add: sys_ok_def)
qed

lemma reach_tended: "gw_reach lib s \<Longrightarrow> all_tended (fst s)"
proof (induction rule: gw_reach.induct)
  case (reach_new cfg auth tr g)
  then show ?case by (simp add: NewGateway_tended)
next
  case (reach_step s ev s')
  then show ?case using all_tended_step reach_ok by blast
qed

subsection \<open>Recovery\<close>

lemma no_backend_needs_dead:
  assumes "route_ok n m rt" and "a \<in> set (lb_Backends (rt_lb rt))" and "be_IsAlive st a"
  shows "snd (snd (serve_begin lib ck r st rt)) \<noteq> StartNoBackend"
proof
  assume n: "snd (snd (serve_begin lib ck r st rt)) = StartNoBackend"
  obtain st' rt' start where b: "serve_begin lib ck r st rt = (st', rt', start)" by (metis prod_cases3)
  have "lb_ok (rt_lb rt)" using assms(1) by (simp add: route_ok_def)
  from serve_begin_gates [OF this b] n b have "healthy st (lb_Backends (rt_lb rt)) = []" by (simp add: gates_def Let_def)
  with assms(2,3) show False by (simp add: healthy_empty_iff)
qed

lemma checked_nth:
  assumes "health_step (HCheck get finished) (c, st) (c', st')" and "\<forall>a \<in> set (hc_backends c). a < length st"
  shows "st' ! b = (if b \<in> set (hc_backends c)
      then (st ! b)\<lparr>be_alive := probe_ok (get (be_URL (st ! b) @ defaultHealthPath))\<rparr> else st ! b)"
proof -
  from assms(1) have s: "mset finished = mset (hc_backends c)" "st' = checkAll get finished st" by (auto elim: health_checkE)
  then have "set finished = set (hc_backends c)" by (metis mset_eq_setD)
  with checkAll_nth [of finished st get b] assms(2) s show ?thesis by simp
qed

subsection \<open>One checker for each backend\<close>

text \<open>Checkers are made with backends of their own, so no two ever probe the same one.\<close>

definition probed :: "'k gateway \<Rightarrow> addr list" where
  "probed g = concat (map hc_backends (gw_checkers g))"

lemma probed_known: "gw_ok g \<Longrightarrow> a \<in> set (probed g) \<Longrightarrow> a < length (gw_store g)"
  by (auto simp: probed_def gw_ok_def list_all_iff checker_ok_def)

lemma buildRoute_probed:
  assumes "gw_ok g" and "distinct (probed g)"
  shows "distinct (probed (fst (buildRoute lib c g)))"
proof -
  have "distinct (probed g @ [length (gw_store g)..<length (gw_store g) + length (rc_Backends c)])"
    using assms(2) probed_known [OF assms(1)] by fastforce
  then show ?thesis
    by (cases rule: buildRoute_cases [where lib = lib and cfg = c and g = g])
      (use assms(2) in \<open>simp_all add: probed_def health_New_def\<close>)
qed

lemma buildRoutes_probed:
  assumes "\<forall>rc \<in> set cs. rc_in_range rc" and "gw_ok g" and "distinct (probed g)"
  shows "distinct (probed (fst (buildRoutes lib i cs g)))"
  using assms
proof (induction cs arbitrary: i g)
  case (Cons c cs)
  obtain g1 r where b: "buildRoute lib c g = (g1, r)" by (cases "buildRoute lib c g")
  with buildRoute_probed [OF Cons.prems(2,3), of lib c] have d: "distinct (probed g1)" by simp
  have "gw_ok g1" using buildRoute_keeps(2) [OF b] Cons.prems by simp
  with Cons.IH [of g1] b d Cons.prems(1) show ?case by (cases r) (simp_all add: case_prod_beta)
qed simp

lemma stopRemoved_probed: "map hc_backends (stopRemoved P heap ras cs) = map hc_backends cs"
  using stopRemoved_frame [of P heap ras cs] by (simp add: list_eq_iff_nth_eq)

lemma probed_route [simp]: "probed (set_route ra st rt g) = probed g"
  by (simp add: probed_def)

lemma probed_step: "gw_step lib ev s s' \<Longrightarrow> sys_ok s \<Longrightarrow> distinct (probed (fst s)) \<Longrightarrow> distinct (probed (fst s'))"
proof (induction rule: gw_step.induct)
  case (health i g ev c st fl)
  from health_step_frame [OF health.hyps(2)] have "hc_backends c = hc_backends (gw_checkers g ! i)" by simp
  then have "map hc_backends ((gw_checkers g)[i := c]) = map hc_backends (gw_checkers g)"
    by (simp add: map_update list_update_same_conv health.hyps(1))
  with health.prems(2) show ?case by (simp add: probed_def)
next
  case (reload cfg fs g g' e fl)
  obtain g1 res where b: "buildRoutes (lib\<lparr>gl_readFile := fs\<rparr>) 0 (cfg_Routes cfg) g = (g1, res)" by (metis prod.collapse)
  with buildRoutes_probed [OF reload.hyps(1) [unfolded in_range_iff], of g "lib\<lparr>gl_readFile := fs\<rparr>" 0] reload.prems
  have "distinct (probed g1)" by (simp add: sys_ok_def)
  moreover have "map hc_backends (gw_checkers g') = map hc_backends (gw_checkers g1)"
    using b reload.hyps(2) by (cases res) (auto simp: Reload_def Let_def stopRemoved_probed)
  ultimately show ?case by (simp add: probed_def)
qed simp_all

lemma reach_probed: "gw_reach lib s \<Longrightarrow> distinct (probed (fst s))"
proof (induction rule: gw_reach.induct)
  case (reach_new cfg auth tr g)
  let ?g0 = "\<lparr>gw_store = [], gw_checkers = [], gw_heap = [], gw_routes = [], gw_authConfig = auth, gw_traced = tr\<rparr>"
  obtain g1 res where b: "buildRoutes lib 0 (cfg_Routes cfg) ?g0 = (g1, res)" by (metis prod.collapse)
  with reach_new(2) have "gw_checkers g = gw_checkers g1"
    by (auto simp: NewGateway_def split: sum.splits)
  with buildRoutes_probed [OF reach_new(1) [unfolded in_range_iff] gw_ok_empty [of auth tr], of lib 0] b show ?case
    by (simp add: probed_def)
next
  case (reach_step s ev s')
  then show ?case using probed_step reach_ok by blast
qed

lemma concat_distinct_nth:
  "distinct (concat xss) \<Longrightarrow> i < length xss \<Longrightarrow> j < length xss \<Longrightarrow> i \<noteq> j \<Longrightarrow> set (xss ! i) \<inter> set (xss ! j) = {}"
proof (induction xss arbitrary: i j)
  case (Cons xs xss)
  have "set (xss ! k) \<inter> set xs = {}" if "k < length xss" for k
  proof -
    have "set (xss ! k) \<subseteq> set (concat xss)" unfolding set_concat using nth_mem [OF that] by (rule UN_upper)
    then show ?thesis using Cons.prems(1) by (fastforce simp del: set_concat)
  qed
  with Cons show ?case by (cases i; cases j) (simp_all add: Int_commute)
qed simp

text \<open>
  C12. The gateway heals: whatever failed, was checked and was reloaded before, the health checker of
  every route in force runs, is not cancelled and has exactly that route's backends, which no other
  checker has. It can always do a round, and however the probes of the round come out and in
  whatever order they finish, afterwards each backend of the route is alive exactly if its probe
  answered below 500; if one did, no request to the route is refused for want of a backend.
\<close>

theorem route_recovers:
  assumes "gw_reach lib (g, fl)" and "ra \<in> set (gw_routes g)" and "rt = gw_heap g ! ra"
    and "c = gw_checkers g ! rt_checker rt" and "bs = lb_Backends (rt_lb rt)"
  shows "hc_running c \<and> \<not> hc_cancelled c \<and> hc_backends c = bs \<and>
    (\<forall>j < length (gw_checkers g). j \<noteq> rt_checker rt \<longrightarrow> set (hc_backends (gw_checkers g ! j)) \<inter> set bs = {}) \<and>
    (\<forall>get. \<exists>g'. gw_step lib Checking (g, fl) (g', fl) \<and>
      health_step (HCheck get bs) (c, gw_store g) (gw_checkers g' ! rt_checker rt, gw_store g')) \<and>
    (\<forall>get finished c' st'. health_step (HCheck get finished) (c, gw_store g) (c', st') \<longrightarrow>
      (\<forall>a \<in> set bs. be_IsAlive st' a = probe_ok (get (be_URL (gw_store g ! a) @ defaultHealthPath))) \<and>
      ((\<exists>a \<in> set bs. probe_ok (get (be_URL (gw_store g ! a) @ defaultHealthPath))) \<longrightarrow>
        (\<forall>ck r. snd (snd (serve_begin lib ck r st' rt)) \<noteq> StartNoBackend)))"
proof -
  let ?i = "rt_checker rt"
  have "tended g ra" using reach_tended [OF assms(1)] assms(2) by (simp add: all_tended_def)
  then have i: "?i < length (gw_checkers g)" "hc_running c" "\<not> hc_cancelled c" "hc_backends c = bs"
    and ra: "ra < length (gw_heap g)" by (simp_all add: tended_def tends_def assms(3-5))
  have "gw_ok g" using reach_ok [OF assms(1)] by (simp add: sys_ok_def)
  from gw_ok_route [OF this ra] have ok: "route_ok (length (gw_store g)) (length (gw_checkers g)) rt" by (simp add: assms(3))
  then have known: "\<forall>a \<in> set (hc_backends c). a < length (gw_store g)" by (simp add: i(4) assms(5) route_ok_def)
  have alone: "set (hc_backends (gw_checkers g ! j)) \<inter> set bs = {}" if "j < length (gw_checkers g)" "j \<noteq> ?i" for j
    using concat_distinct_nth [of "map hc_backends (gw_checkers g)" j ?i] reach_probed [OF assms(1)] that i(1,4)
    by (simp add: probed_def assms(4))
  have can: "\<exists>g'. gw_step lib Checking (g, fl) (g', fl) \<and>
      health_step (HCheck get bs) (c, gw_store g) (gw_checkers g' ! ?i, gw_store g')" for get
  proof -
    have h: "health_step (HCheck get bs) (c, gw_store g) (c\<lparr>hc_checked := True\<rparr>, checkAll get bs (gw_store g))"
      by (rule step_check [OF i(2)]) (simp add: i(4))
    from gw_step.health [OF i(1) h [unfolded assms(4)], of lib fl] h i(1) show ?thesis
      by (intro exI conjI) (assumption, simp add: assms(4))
  qed
  have alive: "be_IsAlive st' a = probe_ok (get (be_URL (gw_store g ! a) @ defaultHealthPath))"
    if "health_step (HCheck get finished) (c, gw_store g) (c', st')" "a \<in> set bs" for get finished c' st' a
    using checked_nth [OF that(1) known, of a] that(2) i(4) by (simp add: be_IsAlive_def)
  have serves: "snd (snd (serve_begin lib ck r st' rt)) \<noteq> StartNoBackend"
    if h: "health_step (HCheck get finished) (c, gw_store g) (c', st')" and a: "a \<in> set bs"
      "probe_ok (get (be_URL (gw_store g ! a) @ defaultHealthPath))" for get finished c' st' ck r a
    using no_backend_needs_dead [OF ok a(1) [unfolded assms(5)]] alive [OF h a(1)] a(2) by simp
  show ?thesis
    by (intro conjI allI impI) (use i alone can alive serves in blast)+
qed

theorem route_recovers_witness:
  "\<exists>st'. health_step (HCheck (\<lambda>u. ProbeStatus 200) [0]) (health_New [0], gw_store started) ((health_New [0])\<lparr>hc_checked := True\<rparr>, st') \<and>
     be_IsAlive st' 0 \<and> snd (snd (serve_begin example_lib (example_clocks 5) (get_request ''/api'') st' (gw_heap started ! 0))) \<noteq> StartNoBackend"
proof -
  have in_table: "0 \<in> set (gw_routes started)" by (simp add: started_def)
  have f: "gw_checkers started ! rt_checker (gw_heap started ! 0) = health_New [0]"
    "lb_Backends (rt_lb (gw_heap started ! 0)) = [0]" by (simp_all add: started_def)
  have h: "health_step (HCheck (\<lambda>u. ProbeStatus 200) [0]) (health_New [0], gw_store started)
      ((health_New [0])\<lparr>hc_checked := True\<rparr>, checkAll (\<lambda>u. ProbeStatus 200) [0] (gw_store started))"
    by (rule step_check) (simp_all add: health_New_def)
  from route_recovers [OF started_reach in_table refl refl refl] h show ?thesis
    unfolding f by (intro exI [of _ "checkAll (\<lambda>u. ProbeStatus 200) [0] (gw_store started)"]) auto
qed

subsection \<open>Probes during a reload\<close>

text \<open>
  \<open>health.New\<close> starts its goroutine before the routes of a reload are published, so a new checker may
  probe while later routes are still being built. Building only ever adds: a step of any checker in
  between is the same step of that checker after the routes are built, so nothing is lost by taking a
  reload as one transition.
\<close>

lemma fields_swap:
  "g\<lparr>gw_store := st, gw_checkers := cs, gw_heap := rts\<rparr> = g\<lparr>gw_heap := rts, gw_store := st, gw_checkers := cs\<rparr>"
  by simp

lemma buildRoute_frame:
  "\<exists>bs ks rs r. \<forall>st cs. length st = length (gw_store g) \<longrightarrow> length cs = length (gw_checkers g) \<longrightarrow>
     buildRoute lib rc (g\<lparr>gw_store := st, gw_checkers := cs\<rparr>) =
       (g\<lparr>gw_store := st @ bs, gw_checkers := cs @ ks, gw_heap := gw_heap g @ rs\<rparr>, r)"
proof (cases "rl_New (gl_parseRedis lib) (rc_RateLimit rc)")
  case (Inl e)
  then show ?thesis
    by (intro exI [of _ "map fresh_backend (rc_Backends rc)"] exI [of _ "[]"] exI [of _ "Inl (LimiterError e)"])
      (simp add: buildRoute_def lb_New_def buildBackends_eq)
next
  case (Inr rl)
  show ?thesis
  proof (cases "route_auth lib (gw_authConfig g)")
    case (Inl e)
    with Inr show ?thesis
      by (intro exI [of _ "map fresh_backend (rc_Backends rc)"] exI [of _ "[]"] exI [of _ "[health_New [length (gw_store g)..<length (gw_store g) + length (rc_Backends rc)]]"]
          exI [of _ "[]"] exI [of _ "Inl (AuthError e)"])
        (simp add: buildRoute_def lb_New_def buildBackends_eq newWeighted_def w_Backends_def o_def Let_def)
  next
    case (Inr a)
    let ?rt = "\<lparr>rt_prefix = rc_PathPrefix rc, rt_strip = rc_StripPrefix rc, rt_timeout = secondsToDuration (rc_TimeoutSeconds rc),
      rt_lb = snd (lb_New (gw_store g) (rc_LBAlgorithm rc) (rc_Backends rc)), rt_rl = rl,
      rt_breakers = buildBreakers (rc_CircuitBreaker rc) (rc_Backends rc) Map.empty, rt_checker = length (gw_checkers g),
      rt_traced = gw_traced g, rt_auth = a\<rparr>"
    from Inr \<open>rl_New _ _ = Inr rl\<close> show ?thesis
      by (intro exI [of _ "map fresh_backend (rc_Backends rc)"] exI [of _ "[health_New [length (gw_store g)..<length (gw_store g) + length (rc_Backends rc)]]"]
          exI [of _ "[?rt]"] exI [of _ "Inr (length (gw_heap g))"])
        (simp add: buildRoute_def lb_New_def buildBackends_eq newWeighted_def w_Backends_def o_def Let_def)
  qed
qed

lemma buildRoutes_frame:
  "\<exists>bs ks rs r. \<forall>st cs. length st = length (gw_store g) \<longrightarrow> length cs = length (gw_checkers g) \<longrightarrow>
     buildRoutes lib i rcs (g\<lparr>gw_store := st, gw_checkers := cs\<rparr>) =
       (g\<lparr>gw_store := st @ bs, gw_checkers := cs @ ks, gw_heap := gw_heap g @ rs\<rparr>, r)"
proof (induction rcs arbitrary: i g)
  case Nil
  show ?case by (intro exI [of _ "[]"] exI [of _ "Inr []"]) simp
next
  case (Cons rc rcs)
  obtain bs ks rs r where one: "\<And>st cs. length st = length (gw_store g) \<Longrightarrow> length cs = length (gw_checkers g) \<Longrightarrow>
     buildRoute lib rc (g\<lparr>gw_store := st, gw_checkers := cs\<rparr>) =
       (g\<lparr>gw_store := st @ bs, gw_checkers := cs @ ks, gw_heap := gw_heap g @ rs\<rparr>, r)"
    using buildRoute_frame [of g lib rc] by blast
  show ?case
  proof (cases r)
    case (Inl e)
    with one show ?thesis by (intro exI [of _ bs] exI [of _ ks] exI [of _ rs] exI [of _ "Inl (i, rc_PathPrefix rc, e)"]) simp
  next
    case (Inr ra)
    let ?g = "g\<lparr>gw_store := gw_store g @ bs, gw_checkers := gw_checkers g @ ks, gw_heap := gw_heap g @ rs\<rparr>"
    obtain bs' ks' rs' r' where rest: "\<And>st cs. length st = length (gw_store ?g) \<Longrightarrow> length cs = length (gw_checkers ?g) \<Longrightarrow>
       buildRoutes lib (Suc i) rcs (?g\<lparr>gw_store := st, gw_checkers := cs\<rparr>) =
         (?g\<lparr>gw_store := st @ bs', gw_checkers := cs @ ks', gw_heap := gw_heap ?g @ rs'\<rparr>, r')"
      using Cons.IH [of ?g "Suc i"] by blast
    have "buildRoutes lib (Suc i) rcs (g\<lparr>gw_store := st @ bs, gw_checkers := cs @ ks, gw_heap := gw_heap g @ rs\<rparr>) =
        (g\<lparr>gw_store := st @ bs @ bs', gw_checkers := cs @ ks @ ks', gw_heap := gw_heap g @ rs @ rs'\<rparr>, r')"
      if "length st = length (gw_store g)" "length cs = length (gw_checkers g)" for st cs
      using rest [of "st @ bs" "cs @ ks"] that by (simp add: fields_swap)
    with one Inr show ?thesis
      by (intro exI [of _ "bs @ bs'"] exI [of _ "ks @ ks'"] exI [of _ "rs @ rs'"] exI [of _ "map_sum id (\<lambda>ras. ra # ras) r'"])
        simp
  qed
qed

lemma checkAll_append:
  "\<forall>a \<in> set as. a < length st \<Longrightarrow> checkAll get as (st @ bs) = checkAll get as st @ bs"
  unfolding checkAll_def
  by (induction as arbitrary: st) (simp_all add: checkOne_eq be_SetAlive_def nth_append list_update_append1)

lemma early_probe:
  assumes "gw_ok g" and "k < length (gw_checkers g)" and "health_step ev (gw_checkers g ! k, gw_store g) (c, st)"
    and "buildRoutes lib i rcs g = (g', r)"
  shows "\<exists>st'. health_step ev (gw_checkers g' ! k, gw_store g') (c, st') \<and>
    buildRoutes lib i rcs (g\<lparr>gw_store := st, gw_checkers := (gw_checkers g)[k := c]\<rparr>) =
      (g'\<lparr>gw_store := st', gw_checkers := (gw_checkers g')[k := c]\<rparr>, r)"
proof -
  obtain bs ks rs r' where f: "\<And>st cs. length st = length (gw_store g) \<Longrightarrow> length cs = length (gw_checkers g) \<Longrightarrow>
     buildRoutes lib i rcs (g\<lparr>gw_store := st, gw_checkers := cs\<rparr>) =
       (g\<lparr>gw_store := st @ bs, gw_checkers := cs @ ks, gw_heap := gw_heap g @ rs\<rparr>, r')"
    using buildRoutes_frame [of g lib i rcs] by blast
  from f [of "gw_store g" "gw_checkers g"] assms(4) have g':
    "g' = g\<lparr>gw_store := gw_store g @ bs, gw_checkers := gw_checkers g @ ks, gw_heap := gw_heap g @ rs\<rparr>" "r' = r" by simp_all
  have len: "length st = length (gw_store g)" using health_step_frame [OF assms(3)] by simp
  have known: "\<forall>a \<in> set (hc_backends (gw_checkers g ! k)). a < length (gw_store g)"
    using assms(1,2) by (simp add: gw_ok_def list_all_length checker_ok_def)
  from assms(3) have "health_step ev (gw_checkers g ! k, gw_store g @ bs) (c, st @ bs)"
  proof (cases rule: health_step.cases)
    case (step_check finished get)
    then have "set finished = set (hc_backends (gw_checkers g ! k))" by (metis mset_eq_setD)
    with known step_check health_step.step_check [of "gw_checkers g ! k" finished get "gw_store g @ bs"] show ?thesis
      by (simp add: checkAll_append)
  qed (auto intro: health_step.intros)
  with f [of st "(gw_checkers g)[k := c]"] len assms(2) show ?thesis
    by (intro exI [of _ "st @ bs"]) (simp add: g' nth_append list_update_append1)
qed

end
