(* ===== verification/ConfigWatch.thy ===== *)
theory ConfigWatch
  imports Config
begin

section \<open>Package config: the file watcher\<close>

text \<open>
  \<open>LoadAndWatch\<close> starts a goroutine that loops over a \<open>select\<close>. Its state is the debounce
  timer (the instant it fires, if one is set), the channel of updates with room for one
  configuration, the closed flags of \<open>done\<close> and of fsnotify's channels, and whether the loop
  still runs. One step is one ready case of the \<open>select\<close>, or an action of the other side:
  the consumer's receive, or \<open>Close\<close>. Which ready case is taken is open, hence a relation.
\<close>

record Watcher =
  w_updates :: "Config option"
  w_done :: bool
  w_fsClosed :: bool
  w_debounce :: "time option"
  w_running :: bool

datatype w_event =
    WDone
  | WEvent bool
  | WEventsClosed
  | WError
  | WErrorsClosed
  | WTimer "string \<Rightarrow> string option"
  | WReceive Config
  | WClose

text \<open>\<open>WEvent b\<close>: a file event, \<open>b\<close> if it is a write or a creation. \<open>WTimer\<close> carries the
  file system as it is when the debounce timer fires.\<close>

definition debounceTime :: duration where
  "debounceTime = 200 * 1000000"

definition watcher_New :: Watcher where
  "watcher_New = \<lparr>w_updates = None, w_done = False, w_fsClosed = False, w_debounce = None, w_running = True\<rparr>"

datatype watch_error =
    LoadFailed load_error
  | CreateWatcher
  | WatchFile string

text \<open>\<open>created\<close> and \<open>added\<close>: whether fsnotify's watcher is made and takes the path.\<close>

definition LoadAndWatch :: "load_error + Config \<Rightarrow> bool \<Rightarrow> bool \<Rightarrow> string \<Rightarrow> watch_error + Config \<times> Watcher" where
  "LoadAndWatch loaded created added path =
     (case loaded of
        Inl e \<Rightarrow> Inl (LoadFailed e)
      | Inr cfg \<Rightarrow>
          if \<not> created then Inl CreateWatcher
          else if \<not> added then Inl (WatchFile path)
          else Inr (cfg, watcher_New))"

definition watcher_Close :: "Watcher \<Rightarrow> Watcher" where
  "watcher_Close w = (if w_done w then w else w\<lparr>w_done := True, w_fsClosed := True\<rparr>)"

text \<open>The case of the debounce timer: load, and send without blocking.\<close>

definition watcher_reload :: "load_error + Config \<Rightarrow> Watcher \<Rightarrow> Watcher" where
  "watcher_reload loaded w =
     (let w1 = w\<lparr>w_debounce := None\<rparr>
      in case loaded of
           Inl e \<Rightarrow> w1
         | Inr c \<Rightarrow> (case w_updates w1 of None \<Rightarrow> w1\<lparr>w_updates := Some c\<rparr> | Some c0 \<Rightarrow> w1))"

inductive watch_step :: "((string \<Rightarrow> string option) \<Rightarrow> load_error + Config) \<Rightarrow> time \<Rightarrow> w_event \<Rightarrow> Watcher \<Rightarrow> Watcher \<Rightarrow> bool"
  for loader where
  step_done: "w_running w \<Longrightarrow> w_done w \<Longrightarrow> watch_step loader now WDone w (w\<lparr>w_running := False\<rparr>)"
| step_event: "w_running w \<Longrightarrow>
    watch_step loader now (WEvent changed) w
      (if changed then w\<lparr>w_debounce := Some (now + debounceTime)\<rparr> else w)"
| step_eventsClosed: "w_running w \<Longrightarrow> w_fsClosed w \<Longrightarrow>
    watch_step loader now WEventsClosed w (w\<lparr>w_running := False\<rparr>)"
| step_error: "w_running w \<Longrightarrow> watch_step loader now WError w w"
| step_errorsClosed: "w_running w \<Longrightarrow> w_fsClosed w \<Longrightarrow>
    watch_step loader now WErrorsClosed w (w\<lparr>w_running := False\<rparr>)"
| step_timer: "w_running w \<Longrightarrow> w_debounce w = Some t \<Longrightarrow> t \<le> now \<Longrightarrow>
    watch_step loader now (WTimer fs) w (watcher_reload (loader fs) w)"
| step_receive: "w_updates w = Some c \<Longrightarrow> watch_step loader now (WReceive c) w (w\<lparr>w_updates := None\<rparr>)"
| step_close: "watch_step loader now WClose w (watcher_Close w)"

inductive_cases watch_step_timerE: "watch_step loader now (WTimer fs) w w'"

inductive watch_run :: "((string \<Rightarrow> string option) \<Rightarrow> load_error + Config) \<Rightarrow> Watcher \<Rightarrow> (time \<times> w_event) list \<Rightarrow> Watcher \<Rightarrow> bool"
  for loader where
  run_nil: "watch_run loader w [] w"
| run_cons: "watch_step loader now e w w' \<Longrightarrow> watch_run loader w' es w'' \<Longrightarrow> watch_run loader w ((now, e) # es) w''"

inductive_cases watch_run_consE: "watch_run loader w (e # es) w'"
inductive_cases watch_run_nilE: "watch_run loader w [] w'"

lemma watch_run_append:
  "watch_run loader w (es @ fs) w'' \<longleftrightarrow> (\<exists>w'. watch_run loader w es w' \<and> watch_run loader w' fs w'')"
proof (induction es arbitrary: w)
  case Nil
  then show ?case by (auto elim: watch_run_nilE intro: run_nil)
next
  case (Cons e es)
  then show ?case by (cases e) (auto elim!: watch_run_consE intro: run_cons, blast intro: run_cons)
qed

fun received :: "(time \<times> w_event) list \<Rightarrow> Config list" where
  "received [] = []"
| "received ((now, WReceive c) # es) = c # received es"
| "received (e # es) = received es"

lemma step_updates:
  assumes "watch_step loader now e w w'" and "\<forall>c. w_updates w = Some c \<longrightarrow> P c" and "\<forall>fs c. loader fs = Inr c \<longrightarrow> P c"
  shows "(\<forall>c. w_updates w' = Some c \<longrightarrow> P c) \<and> (\<forall>c. e = WReceive c \<longrightarrow> P c)"
  using assms
  by (induction rule: watch_step.induct) (auto simp: watcher_reload_def watcher_Close_def Let_def split: sum.splits option.splits)

text \<open>
  The watcher only ever delivers configurations that passed validation: a broken file never
  reaches the gateway, whatever the order of file events, timer, errors, receives and \<open>Close\<close>.
\<close>

theorem watcher_delivers_valid:
  assumes "watch_run (\<lambda>fs. load fs getenv unmarshal path) watcher_New es w"
  shows "list_all config_normal (received es)"
proof -
  have "list_all config_normal (received es)"
    if "watch_run (\<lambda>fs. load fs getenv unmarshal path) w0 es w" "\<forall>c. w_updates w0 = Some c \<longrightarrow> config_normal c" for w0
    using that
  proof (induction rule: watch_run.induct)
    case (run_nil w)
    then show ?case by simp
  next
    case (run_cons now e w w' es w'')
    have "\<forall>fs c. load fs getenv unmarshal path = Inr c \<longrightarrow> config_normal c" using load_normal_cfg by blast
    with step_updates [OF run_cons.hyps(1) run_cons.prems] run_cons.IH show ?case
      by (cases e) auto
  qed
  from this [OF assms] show ?thesis by (simp add: watcher_New_def)
qed

definition file_of :: "string \<Rightarrow> string \<Rightarrow> string option" where
  "file_of s p = Some s"

definition parse_example :: "string \<Rightarrow> Config option" where
  "parse_example s = (if s = ''bad'' then None
     else Some (example_config\<lparr>cfg_Server := \<lparr>sc_Addr = s, sc_ReadTimeoutSeconds = 1, sc_WriteTimeoutSeconds = 1\<rparr>\<rparr>))"

definition loaded_example :: "string \<Rightarrow> Config" where
  "loaded_example s = fst (validate (the (parse_example s)))"

lemma load_example:
  "load (file_of ''bad'') (\<lambda>v. []) parse_example p = Inl ParseConfig"
  "load (file_of '':1'') (\<lambda>v. []) parse_example p = Inr (loaded_example '':1'')"
  "load (file_of '':2'') (\<lambda>v. []) parse_example p = Inr (loaded_example '':2'')"
  by (simp_all add: load_def file_of_def parse_example_def loaded_example_def validate_def example_config_def
      serverDefaults_def Let_def)

theorem watcher_delivers_valid_witness:
  "list_all config_normal (received [(0, WEvent True), (debounceTime, WTimer (file_of '':1'')), (debounceTime, WReceive (loaded_example '':1''))])"
  by (rule watcher_delivers_valid [where getenv = "\<lambda>v. []" and unmarshal = parse_example and path = "''p''"])
    (rule watch_run.intros watch_step.intros
      | simp add: watcher_New_def debounceTime_def watcher_reload_def load_example)+

text \<open>The instant of the last write or creation that no timer has answered yet.\<close>

fun pending_from :: "time option \<Rightarrow> (time \<times> w_event) list \<Rightarrow> time option" where
  "pending_from p [] = p"
| "pending_from p ((now, WEvent True) # es) = pending_from (Some now) es"
| "pending_from p ((now, WTimer fs) # es) = pending_from None es"
| "pending_from p (e # es) = pending_from p es"

lemma debounce_pending:
  assumes "watch_run loader w es w'" and "w_debounce w = map_option (\<lambda>t. t + debounceTime) p"
  shows "w_debounce w' = map_option (\<lambda>t. t + debounceTime) (pending_from p es)"
  using assms
proof (induction arbitrary: p rule: watch_run.induct)
  case (run_nil w)
  then show ?case by simp
next
  case (run_cons now e w w' es w'')
  have "w_debounce w' = map_option (\<lambda>t. t + debounceTime) (pending_from p [(now, e)])"
    using run_cons.hyps(1) run_cons.prems
    by (cases rule: watch_step.cases) (auto simp: watcher_reload_def watcher_Close_def Let_def split: sum.splits option.splits)
  moreover have "pending_from p ((now, e) # es) = pending_from (pending_from p [(now, e)]) es"
    by (cases e) (simp_all, case_tac x2, simp_all)
  ultimately show ?case using run_cons.IH by simp
qed

text \<open>
  C38. Rapid saves cause one reload: the file is only loaded when there was a write since the last
  load and the latest write is at least 200 milliseconds old.
\<close>

theorem reload_debounced:
  assumes "watch_run loader watcher_New (es @ [(now, WTimer fs)]) w"
  shows "\<exists>t. pending_from None es = Some t \<and> t + debounceTime \<le> now"
proof -
  from assms obtain w1 where r: "watch_run loader watcher_New es w1" "watch_run loader w1 [(now, WTimer fs)] w"
    by (auto simp: watch_run_append)
  then obtain w2 where "watch_step loader now (WTimer fs) w1 w2" by (auto elim: watch_run_consE)
  then obtain t where "w_debounce w1 = Some t" "t \<le> now" by (auto elim: watch_step_timerE)
  with debounce_pending [OF r(1), of None] show ?thesis
    by (cases "pending_from None es") (simp_all add: watcher_New_def)
qed

theorem reload_debounced_witness:
  "\<exists>t. pending_from None [(0, WEvent True), (5, WEvent True)] = Some t \<and> t + debounceTime \<le> 200000005"
proof -
  have "watch_run (\<lambda>fs. load fs (\<lambda>v. []) parse_example ''p'') watcher_New
      ([(0, WEvent True), (5, WEvent True)] @ [(200000005, WTimer (file_of ''bad''))])
      (watcher_New\<lparr>w_debounce := None\<rparr>)"
    by (simp, rule run_cons, rule step_event, simp add: watcher_New_def, rule run_cons, rule step_event,
        simp add: watcher_New_def, rule run_cons, rule step_timer [where t = 200000005])
      (simp_all add: watcher_New_def debounceTime_def watcher_reload_def load_example run_nil)
  from reload_debounced [OF this] show ?thesis .
qed

text \<open>
  C36. The newest configuration can be lost for good: while an update waits in the channel, a
  further change of the file is loaded and dropped, and without another write of the file the
  consumer never receives anything but the stale update.
\<close>

theorem watcher_keeps_stale:
  assumes "w_updates w = Some c0" and "watch_step loader now (WTimer fs) w w1" and "watch_run loader w1 es w2"
    and "list_all (\<lambda>(t, e). e \<noteq> WEvent True) es"
  shows "received es \<in> {[], [c0]}"
proof -
  have w1: "w_debounce w1 = None" "w_updates w1 = Some c0"
    using assms(1,2) by (auto elim!: watch_step_timerE simp: watcher_reload_def Let_def split: sum.splits)
  have none: "received es = []"
    if "watch_run loader w es w'" "w_debounce w = None" "w_updates w = None" "list_all (\<lambda>(t, e). e \<noteq> WEvent True) es" for w w' es
    using that
  proof (induction rule: watch_run.induct)
    case (run_cons now e w w' es w'')
    from run_cons.hyps(1) run_cons.prems have "w_debounce w' = None \<and> w_updates w' = None \<and> (\<forall>c. e \<noteq> WReceive c)"
      by (cases rule: watch_step.cases) (auto simp: watcher_Close_def)
    with run_cons.IH run_cons.prems show ?case by (cases e) auto
  qed simp
  show ?thesis
    using assms(3) w1 assms(4)
  proof (induction rule: watch_run.induct)
    case (run_cons now e w w' es w'')
    show ?case
    proof (cases "\<exists>c. e = WReceive c")
      case True
      with run_cons.hyps(1) run_cons.prems have "e = WReceive c0" "w_debounce w' = None" "w_updates w' = None"
        by (cases rule: watch_step.cases; auto)+
      with none [OF run_cons.hyps(2)] run_cons.prems show ?thesis by simp
    next
      case False
      from run_cons.hyps(1) run_cons.prems False have "w_debounce w' = None \<and> w_updates w' = Some c0"
        by (cases rule: watch_step.cases) (auto simp: watcher_Close_def)
      with run_cons.IH run_cons.prems False show ?thesis by (cases e) auto
    qed
  qed simp
qed

theorem watcher_keeps_stale_witness:
  "received [(9, WReceive (loaded_example '':1''))] \<in> {[], [loaded_example '':1'']}"
proof -
  define w where "w = watcher_New\<lparr>w_updates := Some (loaded_example '':1''), w_debounce := Some 5\<rparr>"
  have "watch_step (\<lambda>fs. load fs (\<lambda>v. []) parse_example ''p'') 6 (WTimer (file_of '':2'')) w
      (w\<lparr>w_debounce := None\<rparr>)"
    using step_timer [of w 5 6 "\<lambda>fs. load fs (\<lambda>v. []) parse_example ''p''" "file_of '':2''"]
    by (simp add: w_def watcher_New_def watcher_reload_def load_example)
  moreover have "watch_run (\<lambda>fs. load fs (\<lambda>v. []) parse_example ''p'') (w\<lparr>w_debounce := None\<rparr>)
      [(9, WReceive (loaded_example '':1''))] (w\<lparr>w_debounce := None, w_updates := None\<rparr>)"
    by (rule run_cons, rule step_receive) (simp_all add: w_def watcher_New_def run_nil)
  ultimately show ?thesis by (rule watcher_keeps_stale [rotated]) (simp_all add: w_def)
qed

end
