(* ===== verification/Admin.thy ===== *)
theory Admin
  imports Observability
begin

section \<open>The admin server\<close>

text \<open>
  \<open>internal/admin/traces.go\<close> and the handlers that \<open>main\<close> and \<open>Gateway.RegisterAdminHandlers\<close>
  mount on the admin mux. The mux itself, the Prometheus handler and the JSON encoder are
  libraries: the last two are arguments. \<open>span.Timings\<close> is a Go map, whose list here stands for
  the order in which one iteration meets its entries.
\<close>

subsection \<open>The traces\<close>

record MiddlewareTiming =
  mt_Name :: string
  mt_Duration :: float64

record TraceResponse =
  tr_TraceID :: string
  tr_Path :: string
  tr_Method :: string
  tr_StatusCode :: int
  tr_Duration :: float64
  tr_StartTime :: time
  tr_Timings :: "MiddlewareTiming list"

text \<open>\<open>float64(d.Nanoseconds()) / 1e6\<close>.\<close>

definition duration_ms :: "duration \<Rightarrow> float64" where
  "duration_ms d = f_div (f_of_int d) (f_of_int (10 ^ 6))"

definition trace_response :: "TraceSpan \<Rightarrow> TraceResponse" where
  "trace_response s =
     \<lparr>tr_TraceID = sp_TraceID s, tr_Path = sp_Path s, tr_Method = sp_Method s,
      tr_StatusCode = sp_StatusCode s, tr_Duration = duration_ms (sp_Duration s),
      tr_StartTime = sp_StartTime s,
      tr_Timings = map (\<lambda>(name, d). \<lparr>mt_Name = name, mt_Duration = duration_ms d\<rparr>) (sp_Timings s)\<rparr>"

text \<open>\<open>Encode\<close> writes the whole document at once, or nothing when it fails.\<close>

definition tracesHandler :: "(TraceResponse list \<Rightarrow> string option) \<Rightarrow> TraceStore \<Rightarrow> 'g handler" where
  "tracesHandler encode store wd r w =
     (let spans = ts_GetAll store;
          responses = map trace_response spans;
          w1 = w_SetHeader ''Content-Type'' ''application/json'' w
      in case encode responses of
           Some doc \<Rightarrow> (wd, r, w_Write doc w1, None)
         | None \<Rightarrow> (wd, r, http_Error ''failed to encode response'' 500 w1, None))"

subsection \<open>What is mounted\<close>

definition RegisterAdminHandlers :: "'k gwlib \<Rightarrow> 'k gateway handler \<Rightarrow> (string \<times> 'k gateway handler) list" where
  "RegisterAdminHandlers lib prometheus =
     [(''/metrics'', prometheus), (''/healthz'', healthz), (''/readyz'', readyz), (''/backends'', backendsHandler lib)]"

definition RegisterTraceHandlers :: "(TraceResponse list \<Rightarrow> string option) \<Rightarrow> TraceStore \<Rightarrow> (string \<times> 'k gateway handler) list" where
  "RegisterTraceHandlers encode store = [(''/traces'', tracesHandler encode store)]"

text \<open>\<open>main\<close>: a store of 100 traces exists exactly when tracing is enabled.\<close>

definition main_traceStore :: "Config \<Rightarrow> TraceStore option" where
  "main_traceStore cfg = (if tc_Enabled (cfg_Tracing cfg) then Some (NewTraceStore 100) else None)"

definition admin_mux :: "'k gwlib \<Rightarrow> 'k gateway handler \<Rightarrow> (TraceResponse list \<Rightarrow> string option) \<Rightarrow> 'k gateway world \<Rightarrow>
    (string \<times> 'k gateway handler) list" where
  "admin_mux lib prometheus encode wd =
     RegisterAdminHandlers lib prometheus @
     (case wd_traces wd of None \<Rightarrow> [] | Some store \<Rightarrow> RegisterTraceHandlers encode store)"

subsection \<open>What the operator sees\<close>

lemma duration_ms_Fin:
  assumes "0 \<le> d" and "d \<le> 2 ^ 53"
  shows "duration_ms d = Fin (rnd (of_int d / 10 ^ 6))"
proof -
  have "(of_int d :: rat) \<le> 2 ^ 53" using assms(2) by (metis of_int_le_iff of_int_numeral of_int_power)
  then have "\<bar>of_int d / 10 ^ 6\<bar> \<le> (2 :: rat) ^ 53" using assms(1) by (simp add: field_simps)
  then have "\<bar>of_int d / 10 ^ 6\<bar> \<le> (2 :: rat) ^ 1000" by (rule small_abs) simp
  then show ?thesis using assms by (simp add: duration_ms_def f_round_Fin)
qed

text \<open>
  The readiness probe reports the gateway ready exactly when some backend of some current
  route is alive: one healthy route hides any number of routes that answer nothing but 503.
\<close>

theorem readyz_any_backend:
  assumes "w_sent w = None"
  shows "\<exists>w'. readyz wd r w = (wd, r, w', None) \<and>
    status_of w' =
      (if \<exists>ra \<in> set (gw_routes (wd_gw wd)). \<exists>a \<in> set (lb_Backends (rt_lb (gw_heap (wd_gw wd) ! ra))).
            be_IsAlive (gw_store (wd_gw wd)) a
       then 200 else 503)"
proof -
  let ?alive = "list_ex (\<lambda>ra. list_ex (be_IsAlive (gw_store (wd_gw wd))) (lb_Backends (rt_lb (gw_heap (wd_gw wd) ! ra))))
    (gw_routes (wd_gw wd))"
  have "?alive \<longleftrightarrow> (\<exists>ra \<in> set (gw_routes (wd_gw wd)). \<exists>a \<in> set (lb_Backends (rt_lb (gw_heap (wd_gw wd) ! ra))).
            be_IsAlive (gw_store (wd_gw wd)) a)" by (simp add: list_ex_iff)
  moreover have "\<exists>w'. readyz wd r w = (wd, r, w', None) \<and> status_of w' = (if ?alive then 200 else 503)"
    using assms by (simp add: readyz_def Let_def Error_status informational_def) (simp add: status_of_def informational_def)
  ultimately show ?thesis by simp
qed

theorem readyz_any_backend_witness:
  "\<exists>w'. readyz down_world (get_request ''/readyz'') new_writer = (down_world, get_request ''/readyz'', w', None) \<and>
     status_of w' = 503"
  using readyz_any_backend [of new_writer down_world "get_request ''/readyz''"]
  by (simp add: new_writer_def down_world_def example_world_def example_gateway_def example_route_def
      example_backends_def be_IsAlive_def be_SetAlive_def)

text \<open>
  What a traced request did is what the operator reads: after it, the last entry of \<open>/traces\<close> is
  the span of the status the client got, with its duration in milliseconds, correctly rounded.
\<close>

theorem trace_visible:
  assumes "\<And>a o'. final_answer (upstream a o')" and "rt_traced rt" and "w_sent w = None"
    and "route_handler lib env upstream ra rt wd r w = (wd', r', w', None)" and "wd_traces wd = Some store"
    and "0 \<le> time_Sub (snd (en_trace env)) (fst (en_trace env))"
    and "time_Sub (snd (en_trace env)) (fst (en_trace env)) \<le> 2 ^ 53"
  shows "\<exists>store' code hd. wd_traces wd' = Some store' \<and> w_sent w' = Some (code, hd) \<and>
    tr_StatusCode (last (map trace_response (ts_GetAll store'))) = code \<and>
    tr_Path (last (map trace_response (ts_GetAll store'))) = r_Path r \<and>
    tr_Duration (last (map trace_response (ts_GetAll store'))) =
      Fin (rnd (of_int (time_Sub (snd (en_trace env)) (fst (en_trace env))) / 10 ^ 6))"
proof -
  from route_handler_observed [where upstream = upstream, OF assms(1,4,3)] obtain code hd where
    o: "w_sent w' = Some (code, hd)" "observed env rt r code wd wd'" by blast
  then have t: "wd_traces wd' = Some (ts_Add (traced env r code) store)"
    using assms(2,5) by (simp add: observed_def)
  have "last (map trace_response (ts_GetAll (ts_Add (traced env r code) store))) = trace_response (traced env r code)"
    by (simp add: ts_GetAll_def ts_Add_def Let_def)
  with o(1) t duration_ms_Fin [OF assms(6,7)] show ?thesis
    by (simp add: trace_response_def traced_def Let_def)
qed

theorem trace_visible_witness:
  "\<exists>wd r w store. route_handler example_lib example_env (\<lambda>a r. UpError) 0 (example_route\<lparr>rt_traced := True\<rparr>)
     (down_world\<lparr>wd_traces := Some (NewTraceStore 100)\<rparr>) (get_request ''/api'') new_writer = (wd, r, w, None) \<and>
     wd_traces wd = Some store \<and> tr_Path (last (map trace_response (ts_GetAll store))) = ''/api''"
proof -
  obtain wd r w where e: "route_handler example_lib example_env (\<lambda>a r. UpError) 0 (example_route\<lparr>rt_traced := True\<rparr>)
     (down_world\<lparr>wd_traces := Some (NewTraceStore 100)\<rparr>) (get_request ''/api'') new_writer = (wd, r, w, None)"
    using down_returns [of "example_route\<lparr>rt_traced := True\<rparr>" "Some (NewTraceStore 100)"] by (auto simp: example_route_def)
  have t: "time_Sub (snd (en_trace example_env)) (fst (en_trace example_env)) = 1"
    by (simp add: example_env_def time_Sub_def sat64_def)
  obtain store where "wd_traces wd = Some store" "tr_Path (last (map trace_response (ts_GetAll store))) = ''/api''"
    using trace_visible [OF _ _ _ e, of "NewTraceStore 100"] t by (auto simp: new_writer_def get_request_def)
  with e show ?thesis by blast
qed

end
