(* ===== verification/Process.thy ===== *)
theory Process
  imports Deployment ConfigWatch Admin
begin

section \<open>The process\<close>

text \<open>
  \<open>cmd/gateway/main.go\<close>: how the process starts, what its goroutines do while it runs, and how it
  stops. The state puts together the watcher, the configuration its consumer has taken from the
  channel and not yet applied, the gateway with its requests in flight, the requests the admin
  server works on, the time, and how far the main goroutine is. Listeners, signals and the passing of
  time are steps that may happen; \<open>log.Fatalw\<close> ends the process on the spot.
\<close>

subsection \<open>Starting\<close>

record http_server =
  hs_Addr :: string
  hs_ReadTimeout :: duration
  hs_WriteTimeout :: duration
  hs_IdleTimeout :: duration

definition adminSrv :: "Config \<Rightarrow> http_server" where
  "adminSrv cfg = \<lparr>hs_Addr = ac_Addr (cfg_Admin cfg), hs_ReadTimeout = 5 * time_Second,
     hs_WriteTimeout = 10 * time_Second, hs_IdleTimeout = 0\<rparr>"

definition mainSrv :: "Config \<Rightarrow> http_server" where
  "mainSrv cfg = \<lparr>hs_Addr = sc_Addr (cfg_Server cfg),
     hs_ReadTimeout = secondsToDuration (sc_ReadTimeoutSeconds (cfg_Server cfg)),
     hs_WriteTimeout = secondsToDuration (sc_WriteTimeoutSeconds (cfg_Server cfg)),
     hs_IdleTimeout = 120 * time_Second\<rparr>"

text \<open>
  The main goroutine waits for a signal, then shuts down the admin server and then the proxy
  server under one deadline, and returns; \<open>Returned ok\<close> tells whether the second shutdown found
  the server idle in time.
\<close>

datatype phase =
    AwaitSignal
  | StoppingAdmin time
  | StoppingMain time
  | Returned bool
  | Died

record 'k process =
  pr_watcher :: Watcher
  pr_inbox :: "Config option"
  pr_sys :: "'k gateway \<times> (nat \<times> addr) list"
  pr_admin :: http_server
  pr_main :: http_server
  pr_adminBusy :: nat
  pr_now :: time
  pr_phase :: phase

datatype not_started =
    VersionShown
  | LoadFatal watch_error
  | BuildFatal "nat \<times> string \<times> route_error"

definition main_start :: "'k gwlib \<Rightarrow> bool \<Rightarrow> load_error + Config \<Rightarrow> bool \<Rightarrow> bool \<Rightarrow> string \<Rightarrow> time \<Rightarrow> not_started + 'k process" where
  "main_start lib showVersion loaded created added path t0 =
     (if showVersion then Inl VersionShown
      else case LoadAndWatch loaded created added path of
        Inl e \<Rightarrow> Inl (LoadFatal e)
      | Inr (cfg, watcher) \<Rightarrow>
          (case main_gateway lib cfg of
             Inl e \<Rightarrow> Inl (BuildFatal e)
           | Inr gw \<Rightarrow>
               Inr \<lparr>pr_watcher = watcher, pr_inbox = None, pr_sys = (gw, []),
                 pr_admin = adminSrv cfg, pr_main = mainSrv cfg, pr_adminBusy = 0, pr_now = t0,
                 pr_phase = AwaitSignal\<rparr>))"

subsection \<open>Running and stopping\<close>

fun live :: "phase \<Rightarrow> bool" where
  "live (Returned ok) = False"
| "live Died = False"
| "live ph = True"

definition shutdownTimeout :: duration where
  "shutdownTimeout = 30 * time_Second"

text \<open>What the goroutine over \<open>watcher.Updates()\<close> does with an update: a reload that fails is only logged.\<close>

definition apply_update :: "'k gwlib \<Rightarrow> Config \<Rightarrow> 'k process \<Rightarrow> 'k process" where
  "apply_update lib c p =
     (let (g, err) = Reload lib c (fst (pr_sys p))
      in p\<lparr>pr_inbox := None, pr_sys := (g, snd (pr_sys p))\<rparr>)"

text \<open>
  The consumer takes an update only when it has applied the one before; the key file is read again
  then, and \<open>disk\<close> tells what the file system may hold at such a moment. While the servers shut
  down, everything else goes on, requests on connections that were already accepted included.
  \<open>Shutdown\<close> of a server returns without error when it finds no request being served, and with the
  context's error from the deadline on; the admin server's result is ignored. Time may pass between
  any two steps. The deferred \<open>watcher.Close()\<close> runs when \<open>main\<close> returns.
\<close>

inductive proc_step :: "'k gwlib \<Rightarrow> ((string \<Rightarrow> string option) \<Rightarrow> bool) \<Rightarrow>
    ((string \<Rightarrow> string option) \<Rightarrow> load_error + Config) \<Rightarrow> 'k process \<Rightarrow> 'k process \<Rightarrow> bool"
  for lib disk loader where
  passing: "live (pr_phase p) \<Longrightarrow> pr_now p \<le> t \<Longrightarrow> proc_step lib disk loader p (p\<lparr>pr_now := t\<rparr>)"
| watching: "live (pr_phase p) \<Longrightarrow> watch_step loader (pr_now p) ev (pr_watcher p) w \<Longrightarrow>
    (\<forall>c. ev \<noteq> WReceive c) \<Longrightarrow> ev \<noteq> WClose \<Longrightarrow> proc_step lib disk loader p (p\<lparr>pr_watcher := w\<rparr>)"
| receiving: "live (pr_phase p) \<Longrightarrow> pr_inbox p = None \<Longrightarrow> watch_step loader (pr_now p) (WReceive c) (pr_watcher p) w \<Longrightarrow>
    proc_step lib disk loader p (p\<lparr>pr_watcher := w, pr_inbox := Some c\<rparr>)"
| applying: "live (pr_phase p) \<Longrightarrow> pr_inbox p = Some c \<Longrightarrow> disk fs \<Longrightarrow>
    proc_step lib disk loader p (apply_update (lib\<lparr>gl_readFile := fs\<rparr>) c p)"
| working: "live (pr_phase p) \<Longrightarrow> ev \<in> {Beginning, Finishing, Checking} \<Longrightarrow> gw_step lib ev (pr_sys p) s \<Longrightarrow>
    proc_step lib disk loader p (p\<lparr>pr_sys := s\<rparr>)"
| admin_begins: "live (pr_phase p) \<Longrightarrow> proc_step lib disk loader p (p\<lparr>pr_adminBusy := Suc (pr_adminBusy p)\<rparr>)"
| admin_answers: "live (pr_phase p) \<Longrightarrow> pr_adminBusy p = Suc n \<Longrightarrow> proc_step lib disk loader p (p\<lparr>pr_adminBusy := n\<rparr>)"
| signalled: "pr_phase p = AwaitSignal \<Longrightarrow>
    proc_step lib disk loader p (p\<lparr>pr_phase := StoppingAdmin (pr_now p + shutdownTimeout)\<rparr>)"
| admin_down: "pr_phase p = StoppingAdmin d \<Longrightarrow> pr_adminBusy p = 0 \<or> d \<le> pr_now p \<Longrightarrow>
    proc_step lib disk loader p (p\<lparr>pr_phase := StoppingMain d\<rparr>)"
| main_down: "pr_phase p = StoppingMain d \<Longrightarrow> (if ok then snd (pr_sys p) = [] else d \<le> pr_now p) \<Longrightarrow>
    proc_step lib disk loader p (p\<lparr>pr_phase := Returned ok, pr_watcher := watcher_Close (pr_watcher p)\<rparr>)"
| listen_failed: "live (pr_phase p) \<Longrightarrow> proc_step lib disk loader p (p\<lparr>pr_phase := Died\<rparr>)"

definition proc_run :: "'k gwlib \<Rightarrow> ((string \<Rightarrow> string option) \<Rightarrow> bool) \<Rightarrow>
    ((string \<Rightarrow> string option) \<Rightarrow> load_error + Config) \<Rightarrow> 'k process \<Rightarrow> 'k process \<Rightarrow> bool" where
  "proc_run lib disk loader = (proc_step lib disk loader)\<^sup>*\<^sup>*"

subsection \<open>The invariant of a process\<close>

text \<open>
  What waits in the channel or with the consumer came from \<open>load\<close>, and the gateway is deployed
  with a configuration that did; authentication and tracing are those of the start.
\<close>

definition proc_inv :: "'k gwlib \<Rightarrow> (Config \<Rightarrow> bool) \<Rightarrow> AuthConfig option \<Rightarrow> bool \<Rightarrow> 'k process \<Rightarrow> bool" where
  "proc_inv lib loaded auth tr p \<longleftrightarrow>
     (\<forall>c. w_updates (pr_watcher p) = Some c \<longrightarrow> loaded c) \<and> (\<forall>c. pr_inbox p = Some c \<longrightarrow> loaded c) \<and>
     (\<exists>cfg. loaded cfg \<and> deployed lib cfg (pr_sys p)) \<and> settings auth tr (fst (pr_sys p))"

lemma close_updates [simp]: "w_updates (watcher_Close w) = w_updates w"
  by (simp add: watcher_Close_def)

lemma proc_inv_step:
  assumes "proc_step lib disk loader p p'" and "proc_inv lib loaded auth tr p"
    and "\<forall>fs c. loader fs = Inr c \<longrightarrow> loaded c" and "\<forall>c. loaded c \<longrightarrow> in_range c"
  shows "proc_inv lib loaded auth tr p'"
  using assms(1,2)
proof (induction rule: proc_step.induct)
  case (watching p ev w)
  then have "\<forall>c. w_updates (pr_watcher p) = Some c \<longrightarrow> loaded c" by (simp add: proc_inv_def)
  from step_updates [OF watching.hyps(2) this assms(3)] watching.prems show ?case by (simp add: proc_inv_def)
next
  case (receiving p c w)
  then have "\<forall>c. w_updates (pr_watcher p) = Some c \<longrightarrow> loaded c" by (simp add: proc_inv_def)
  from step_updates [OF receiving.hyps(3) this assms(3)] receiving.prems show ?case by (simp add: proc_inv_def)
next
  case (applying p c fs)
  from applying have c: "loaded c" by (simp add: proc_inv_def)
  obtain g0 fl where s: "pr_sys p = (g0, fl)" by (cases "pr_sys p")
  obtain g e where reloaded: "Reload (lib\<lparr>gl_readFile := fs\<rparr>) c g0 = (g, e)" by (cases "Reload (lib\<lparr>gl_readFile := fs\<rparr>) c g0")
  from c assms(4) reloaded have r: "gw_step lib (Reloading c e) (g0, fl) (g, fl)"
    by (intro gw_step.reload) simp_all
  from applying.prems obtain cfg where cfg: "loaded cfg" "deployed lib cfg (g0, fl)" by (auto simp: proc_inv_def s)
  have "loaded (applied (Reloading c e) cfg)" using c cfg(1) by (cases e) simp_all
  moreover have "settings auth tr g" using settings_step [OF r] applying.prems by (simp add: proc_inv_def s)
  ultimately show ?case using applying.prems deployed_step [OF cfg(2) r] applying.hyps(1)
    by (auto simp: proc_inv_def apply_update_def s reloaded)
next
  case (working p ev s)
  from working.prems obtain cfg where cfg: "loaded cfg" "deployed lib cfg (pr_sys p)" by (auto simp: proc_inv_def)
  have "applied ev cfg = cfg" using working.hyps(2) by auto
  with deployed_step [OF cfg(2) working.hyps(3)] cfg(1) working settings_step [OF working.hyps(3)]
  show ?case by (auto simp: proc_inv_def)
qed (auto simp: proc_inv_def)

lemma proc_inv_run:
  assumes "proc_run lib disk loader p p'" and "proc_inv lib loaded auth tr p"
    and "\<forall>fs c. loader fs = Inr c \<longrightarrow> loaded c" and "\<forall>c. loaded c \<longrightarrow> in_range c"
  shows "proc_inv lib loaded auth tr p'"
  using assms(1) unfolding proc_run_def
  by (induction rule: rtranclp_induct) (use assms(2-) proc_inv_step in blast)+

lemma load_in_range:
  assumes "load readFile getenv unmarshal path = Inr cfg" and "\<forall>s c. unmarshal s = Some c \<longrightarrow> in_range c"
  shows "in_range cfg"
proof -
  obtain cfg0 where v: "in_range cfg0" "validate cfg0 = (cfg, None)"
    using assms by (auto simp: load_def split: option.splits prod.splits)
  then have "cfg_Routes cfg = map routeDefaults (cfg_Routes cfg0)" by (simp add: validate_Some)
  moreover have "length (rc_Backends (routeDefaults rc)) = length (rc_Backends rc)"
    "rc_CircuitBreaker (routeDefaults rc) = rc_CircuitBreaker rc" for rc
    by (simp_all add: routeDefaults_def Let_def)
  ultimately show ?thesis using v(1) by (simp add: in_range_def)
qed

text \<open>\<open>came_from\<close>: some content of the file and the environment made \<open>load\<close> return it.\<close>

definition came_from :: "(string \<Rightarrow> string) \<Rightarrow> (string \<Rightarrow> Config option) \<Rightarrow> string \<Rightarrow> Config \<Rightarrow> bool" where
  "came_from getenv unmarshal path cfg \<longleftrightarrow> (\<exists>fs. load fs getenv unmarshal path = Inr cfg)"

definition start_auth :: "Config \<Rightarrow> AuthConfig option" where
  "start_auth cfg = (if au_Enabled (cfg_Auth cfg) then Some (cfg_Auth cfg) else None)"

lemma main_start_inv:
  assumes "main_start lib False (Inr cfg) created added path t0 = Inr p" and "loaded cfg" and "in_range cfg"
  shows "proc_inv lib loaded (start_auth cfg) (tc_Enabled (cfg_Tracing cfg)) p"
proof -
  from assms(1) obtain g where g: "main_gateway lib cfg = Inr g" and
    p: "p = \<lparr>pr_watcher = watcher_New, pr_inbox = None, pr_sys = (g, []), pr_admin = adminSrv cfg,
      pr_main = mainSrv cfg, pr_adminBusy = 0, pr_now = t0, pr_phase = AwaitSignal\<rparr>"
    by (auto simp: main_start_def LoadAndWatch_def split: if_splits sum.splits)
  from g have "NewGateway lib cfg (start_auth cfg) (tc_Enabled (cfg_Tracing cfg)) = Inr g"
    by (simp add: main_gateway_def start_auth_def)
  with NewGateway_settings [OF this] deployed_new [OF assms(3) this] assms(2) show ?thesis
    by (auto simp: proc_inv_def p watcher_New_def)
qed

lemma proc_invariant:
  assumes "load fs getenv unmarshal path = Inr cfg" and "\<forall>s c. unmarshal s = Some c \<longrightarrow> in_range c"
    and "main_start lib False (Inr cfg) created added path t0 = Inr p"
    and "proc_run lib disk (\<lambda>fs. load fs getenv unmarshal path) p p'"
  shows "proc_inv lib (came_from getenv unmarshal path) (start_auth cfg) (tc_Enabled (cfg_Tracing cfg)) p'"
proof (rule proc_inv_run [OF assms(4)])
  have range: "in_range c" if "came_from getenv unmarshal path c" for c
    using that load_in_range [OF _ assms(2)] by (auto simp: came_from_def)
  then show "\<forall>c. came_from getenv unmarshal path c \<longrightarrow> in_range c" by blast
  have "came_from getenv unmarshal path cfg" using assms(1) by (auto simp: came_from_def)
  then show "proc_inv lib (came_from getenv unmarshal path) (start_auth cfg) (tc_Enabled (cfg_Tracing cfg)) p"
    using main_start_inv [OF assms(3)] range by blast
qed (auto simp: came_from_def)

subsection \<open>What holds of every process\<close>

text \<open>
  C11. Whatever happens to its file, its backends and its clients, a process that started serves a
  configuration that was loaded and validated: its current routes are that configuration's, each
  with a prefix and at least one backend, and nothing they refer to is missing.
\<close>

theorem process_serves_loaded_config:
  assumes "load fs getenv unmarshal path = Inr cfg0" and "\<forall>s c. unmarshal s = Some c \<longrightarrow> in_range c"
    and "main_start lib False (Inr cfg0) created added path t0 = Inr p0"
    and "proc_run lib disk (\<lambda>fs. load fs getenv unmarshal path) p0 p" and "pr_sys p = (g, fl)"
  shows "gw_ok g \<and> (\<exists>cfg. came_from getenv unmarshal path cfg \<and> config_normal cfg \<and> in_force lib cfg g) \<and>
    (\<forall>ra \<in> set (gw_routes g). rt_prefix (gw_heap g ! ra) \<noteq> [] \<and> lb_Backends (rt_lb (gw_heap g ! ra)) \<noteq> [])"
proof -
  from proc_invariant [OF assms(1-4)] obtain cfg where c: "came_from getenv unmarshal path cfg" "deployed lib cfg (g, fl)"
    by (auto simp: proc_inv_def assms(5))
  have normal: "config_normal cfg" using c(1) load_normal_cfg(1) by (auto simp: came_from_def)
  have ok: "gw_ok g" using reach_ok [OF deployed_reach [OF c(2)]] by (simp add: sys_ok_def)
  have f: "in_force lib cfg g" using deployed_in_force [OF c(2)] by simp
  have "rt_prefix (gw_heap g ! ra) \<noteq> [] \<and> lb_Backends (rt_lb (gw_heap g ! ra)) \<noteq> []" if ra: "ra \<in> set (gw_routes g)" for ra
  proof -
    obtain rc where rc: "rc \<in> set (cfg_Routes cfg)" "implements lib (gw_store g) (gw_heap g ! ra) rc"
      using list_all2_partner [OF f [unfolded in_force_def] ra] by blast
    then have "rc_PathPrefix rc \<noteq> []" "rc_Backends rc \<noteq> []"
      using normal by (auto simp: config_normal_def list_all_iff route_normal_def route_valid_def)
    with implements_prefix [OF rc(2)] implements_urls [OF rc(2)] show ?thesis by auto
  qed
  with ok normal f c(1) show ?thesis by blast
qed

subsection \<open>An example\<close>

lemma example_loads: "load (\<lambda>p. Some ''x'') (\<lambda>v. []) (\<lambda>s. Some example_config) ''gateway.yaml'' = Inr loaded_config"
  by (simp add: load_def validate_def loaded_config_def example_config_def serverDefaults_def Let_def)

lemma example_in_range: "in_range example_config"
  by (simp add: in_range_def example_config_def)

lemma example_starts: "\<exists>p. main_start example_lib False (Inr loaded_config) True True path t0 = Inr p \<and> pr_phase p = AwaitSignal \<and>
    snd (pr_sys p) = []"
proof -
  have "\<exists>g. NewGateway example_lib loaded_config auth tr = Inr g" if "auth = None" for auth tr
    by (simp add: that NewGateway_def loaded_routes buildRoute_def lb_New_def newBackend_def rl_New_def cb_New_def
        route_auth_def Let_def)
  moreover have "au_Enabled (cfg_Auth loaded_config) = False"
    by (simp add: loaded_config_def example_config_def validate_def serverDefaults_def Let_def)
  ultimately obtain g where "main_gateway example_lib loaded_config = Inr g" by (auto simp: main_gateway_def)
  then show ?thesis by (simp add: main_start_def LoadAndWatch_def)
qed

lemma run_refl: "proc_run lib disk loader p p"
  by (simp add: proc_run_def)

theorem process_serves_loaded_config_witness:
  "\<exists>p cfg. main_start example_lib False (Inr loaded_config) True True ''gateway.yaml'' 0 = Inr p \<and>
     config_normal cfg \<and> in_force example_lib cfg (fst (pr_sys p))"
proof -
  obtain p where p: "main_start example_lib False (Inr loaded_config) True True ''gateway.yaml'' 0 = Inr p"
    using example_starts by blast
  obtain g fl where s: "pr_sys p = (g, fl)" by (cases "pr_sys p")
  from process_serves_loaded_config [OF example_loads _ p run_refl s] example_in_range p s show ?thesis by auto
qed

text \<open>A request without a good token ends at the authentication of its route.\<close>

lemma bears_kept: "canonicalKey k \<noteq> ''Authorization'' \<Longrightarrow> bears (SetRequestHeader k v r) token = bears r token"
  by (auto simp: bears_def SetRequestHeader_def)

definition unauthenticated :: "'k gwlib \<Rightarrow> req_env \<Rightarrow> 'k \<Rightarrow> request \<Rightarrow> bool" where
  "unauthenticated lib env key r \<longleftrightarrow> (\<nexists>token claims. bears r token \<and> good_token (gl_token lib) key (en_auth env) token claims)"

lemma inner_refuses:
  assumes "rt_auth rt = Some (key, cfg)" and "\<not> isSkipped cfg (r_Path r)" and "unauthenticated lib env key r"
  shows "\<exists>e. inner lib env upstream ra rt wd r w = (wd, r, writeAuthError (gl_quoteError lib) 401 e w, None)"
  using authenticates [OF assms(2), of "gl_token lib" key "en_auth env" "gl_quoteError lib"
      "serveProxy lib (en_clocks env) upstream ra" wd w] assms(1,3)
  by (auto simp: inner_def unauthenticated_def)

lemma watched_gw:
  assumes "h wd r (cw_new (cw_new w)) = (wd, r, writeAuthError quoted 401 e (cw_new (cw_new w)), None)" and "w_sent w = None"
  shows "\<exists>wd' w'. watched env rt h wd r w = (wd', r, w', None) \<and> wd_gw wd' = wd_gw wd \<and> status_of w' = 401"
  using assms
  by (simp add: watched_def Logger_def Metrics_def)
    (simp add: writeAuthError_def status_of_def informational_def)

lemma route_refuses:
  assumes "rt_auth rt = Some (key, cfg)" and "\<not> isSkipped cfg (r_Path r)" and "unauthenticated lib env key r" and "w_sent w = None"
  shows "\<exists>wd' r' w'. route_handler lib env upstream ra rt wd r w = (wd', r', w', None) \<and> wd_gw wd' = wd_gw wd \<and> status_of w' = 401"
proof -
  let ?r = "SetRequestHeader ''X-Request-ID'' (request_id env r) r"
  have refuse: "\<exists>wd' w'. watched env rt (inner lib env upstream ra rt) wd r1 w1 = (wd', r1, w', None) \<and>
      wd_gw wd' = wd_gw wd \<and> status_of w' = 401"
    if r1: "r_Path r1 = r_Path r" "\<And>token. bears r1 token = bears r token" and "w_sent w1 = None" for r1 w1
  proof -
    have "\<not> isSkipped cfg (r_Path r1)" "unauthenticated lib env key r1"
      using assms(2,3) r1 by (simp_all add: unauthenticated_def)
    from inner_refuses [OF assms(1) this, of upstream ra wd "cw_new (cw_new w1)"]
    obtain e where "inner lib env upstream ra rt wd r1 (cw_new (cw_new w1)) =
        (wd, r1, writeAuthError (gl_quoteError lib) 401 e (cw_new (cw_new w1)), None)" by blast
    from watched_gw [where h = "inner lib env upstream ra rt" and w = w1, OF this that(3)] show ?thesis .
  qed
  show ?thesis
  proof (cases "rt_traced rt")
    case False
    have "r_Path ?r = r_Path r" "bears ?r token = bears r token" for token
      by (simp add: SetRequestHeader_def) (simp add: bears_kept)
    from refuse [OF this, of "w_SetHeader ''X-Request-ID'' (request_id env r) w"] assms(4) False show ?thesis
      by (auto simp: route_handler_eq RequestID_def request_id_def Let_def)
  next
    case True
    obtain tid sid par where ids: "extractOrGenerateIDs (en_hex32 env) (en_hex16 env) r = (tid, sid, par)"
      by (metis prod_cases3)
    let ?w = "cw_new (w_SetHeader ''X-Trace-ID'' tid (w_SetHeader ''X-Request-ID'' (request_id env r) w))"
    have "r_Path (injectIDs tid sid ?r) = r_Path r" "bears (injectIDs tid sid ?r) token = bears r token" for token
      by (simp add: SetRequestHeader_def) (simp add: injectIDs_def bears_kept)
    from refuse [OF this, of ?w] assms(4) obtain wd' w' where o: "watched env rt (inner lib env upstream ra rt) wd (injectIDs tid sid ?r) ?w =
        (wd', injectIDs tid sid ?r, w', None)" "wd_gw wd' = wd_gw wd" "status_of w' = 401" by auto
    then have "route_handler lib env upstream ra rt wd r w =
        (wd'\<lparr>wd_traces := map_option (ts_Add (trace_span tid (fst (en_trace env)) (snd (en_trace env)) (injectIDs tid sid ?r) w'))
          (wd_traces wd')\<rparr>, injectIDs tid sid ?r, cw_inner w', None)"
      using True ids by (simp add: route_handler_eq RequestID_def Tracing_def request_id_def Let_def)
    with o(2,3) show ?thesis by (simp add: status_of_def)
  qed
qed

lemma gateway_refuses:
  assumes "\<forall>ra \<in> set (gw_routes (wd_gw wd)). \<exists>key cfg. rt_auth (gw_heap (wd_gw wd) ! ra) = Some (key, cfg) \<and>
      \<not> isSkipped cfg (r_Path r) \<and> unauthenticated lib env key r" and "w_sent w = None"
  shows "\<exists>wd' r' w'. gateway_ServeHTTP lib env upstream wd r w = (wd', r', w', None) \<and> wd_gw wd' = wd_gw wd \<and>
    status_of w' \<in> {401, 404}"
proof (cases "match_route (gw_heap (wd_gw wd)) (r_Path r) (gw_routes (wd_gw wd)) None")
  case None
  with assms(2) show ?thesis by (simp add: gateway_ServeHTTP_def Let_def Error_status informational_def)
next
  case (Some ra)
  then have "ra \<in> set (gw_routes (wd_gw wd))" using match_route_spec [OF Some] by simp
  with assms(1) obtain key cfg where "rt_auth (gw_heap (wd_gw wd) ! ra) = Some (key, cfg)" "\<not> isSkipped cfg (r_Path r)"
      "unauthenticated lib env key r" by blast
  from route_refuses [OF this assms(2), of upstream ra wd] Some show ?thesis
    by (auto simp: gateway_ServeHTTP_def Let_def)
qed

subsection \<open>Where the keys come from\<close>

text \<open>
  Every route, of the first configuration or of a later one, got its authentication from the key file
  as some reading of it was: \<open>disk\<close> holds of the file systems that were read.
\<close>

definition keys_from :: "'k gwlib \<Rightarrow> ((string \<Rightarrow> string option) \<Rightarrow> bool) \<Rightarrow> AuthConfig option \<Rightarrow> 'k gateway \<Rightarrow> bool" where
  "keys_from lib disk auth g \<longleftrightarrow> gw_authConfig g = auth \<and>
     list_all (\<lambda>rt. \<exists>fs. disk fs \<and> route_auth (lib\<lparr>gl_readFile := fs\<rparr>) auth = Inr (rt_auth rt)) (gw_heap g)"

lemma keys_fields: "keys_from lib disk auth (g\<lparr>gw_routes := ras, gw_checkers := cs\<rparr>) = keys_from lib disk auth g"
  "keys_from lib disk auth (g\<lparr>gw_routes := ras\<rparr>) = keys_from lib disk auth g"
  "keys_from lib disk auth (g\<lparr>gw_store := st, gw_checkers := cs\<rparr>) = keys_from lib disk auth g"
  by (simp_all add: keys_from_def)

lemma keys_route:
  assumes "keys_from lib disk auth g" and "same_config (gw_heap g ! ra) rt"
  shows "keys_from lib disk auth (set_route ra st rt g)"
proof (cases "ra < length (gw_heap g)")
  case True
  with assms have "\<exists>fs. disk fs \<and> route_auth (lib\<lparr>gl_readFile := fs\<rparr>) auth = Inr (rt_auth rt)"
    by (simp add: keys_from_def same_config_def list_all_length)
  with assms(1) show ?thesis by (simp add: keys_from_def set_route_def list_all_put)
next
  case False
  with assms(1) show ?thesis by (simp add: keys_from_def set_route_def list_update_beyond)
qed

lemma keys_step:
  "gw_step lib ev s s' \<Longrightarrow> ev \<in> {Beginning, Finishing, Checking} \<Longrightarrow> keys_from lib' disk auth (fst s) \<Longrightarrow>
   keys_from lib' disk auth (fst s')"
proof (induction rule: gw_step.induct)
  case (begin_forward ra g ck r st rt a out fl)
  with begin_same [OF begin_forward.hyps(2)] show ?case by (simp add: keys_route)
next
  case (begin_refuse ra g ck r st rt start fl)
  with begin_same [OF begin_refuse.hyps(2)] show ?case by (simp add: keys_route)
next
  case (finish ra a fl ck up g w st rt rest)
  with end_same [OF finish.hyps(2)] show ?case by (simp add: keys_route)
qed (simp_all add: keys_fields)

lemma buildRoutes_keys:
  assumes "disk fs"
  shows "keys_from lib disk auth g \<Longrightarrow> keys_from lib disk auth (fst (buildRoutes (lib\<lparr>gl_readFile := fs\<rparr>) i cs g))"
proof (induction cs arbitrary: i g)
  case (Cons c cs)
  obtain g1 r where b: "buildRoute (lib\<lparr>gl_readFile := fs\<rparr>) c g = (g1, r)" by (cases "buildRoute (lib\<lparr>gl_readFile := fs\<rparr>) c g")
  have "keys_from lib disk auth g1"
  proof (cases rule: buildRoute_cases [where lib = "lib\<lparr>gl_readFile := fs\<rparr>" and cfg = c and g = g])
    case (built k rt)
    with Cons.prems b assms show ?thesis by (auto simp: keys_from_def)
  qed (use Cons.prems b in \<open>simp_all add: keys_from_def\<close>)
  with b Cons.IH show ?case by (cases r) (simp_all add: case_prod_beta)
qed simp

lemma Reload_keys:
  assumes "disk fs" and "keys_from lib disk auth g"
  shows "keys_from lib disk auth (fst (Reload (lib\<lparr>gl_readFile := fs\<rparr>) cfg g))"
  using buildRoutes_keys [OF assms, of 0 "cfg_Routes cfg"]
  by (auto simp: Reload_def Let_def keys_fields split: prod.splits sum.splits)

lemma proc_keys_step:
  "proc_step lib disk loader p p' \<Longrightarrow> keys_from lib disk auth (fst (pr_sys p)) \<Longrightarrow> keys_from lib disk auth (fst (pr_sys p'))"
proof (induction rule: proc_step.induct)
  case (applying p c fs)
  from Reload_keys [OF applying.hyps(3) applying.prems, of c] show ?case by (simp add: apply_update_def case_prod_beta Let_def)
next
  case (working p ev s)
  from keys_step [OF working.hyps(3,2) working.prems] show ?case by simp
qed simp_all

lemma proc_keys_run:
  "proc_run lib disk loader p p' \<Longrightarrow> keys_from lib disk auth (fst (pr_sys p)) \<Longrightarrow> keys_from lib disk auth (fst (pr_sys p'))"
  unfolding proc_run_def by (induction rule: rtranclp_induct) (blast intro: proc_keys_step)+

lemma main_start_keys:
  assumes "main_start lib False (Inr cfg) created added path t0 = Inr p" and "disk (gl_readFile lib)"
  shows "keys_from lib disk (start_auth cfg) (fst (pr_sys p))"
proof -
  from assms(1) obtain g where g: "main_gateway lib cfg = Inr g" and p: "fst (pr_sys p) = g"
    by (auto simp: main_start_def LoadAndWatch_def split: if_splits sum.splits)
  let ?g0 = "\<lparr>gw_store = [], gw_checkers = [], gw_heap = [], gw_routes = [], gw_authConfig = start_auth cfg,
    gw_traced = tc_Enabled (cfg_Tracing cfg)\<rparr>"
  have "keys_from lib disk (start_auth cfg) ?g0" by (simp add: keys_from_def)
  from buildRoutes_keys [OF assms(2) this, of 0 "cfg_Routes cfg"] g show ?thesis
    by (auto simp: p main_gateway_def start_auth_def NewGateway_def keys_fields split: prod.splits sum.splits if_splits)
qed

lemma route_auth_enabled:
  assumes "route_auth lib (Some a) = Inr x" and "au_Enabled a"
  shows "\<exists>key. loadPublicKey (gl_token lib) (gl_readFile lib) (au_PublicKeyPath a) = Inr key \<and>
    x = Some (key, \<lparr>ma_Enabled = True, ma_PublicKeyPath = au_PublicKeyPath a, ma_SkipPaths = au_SkipPaths a\<rparr>)"
  using assms
  by (cases "loadPublicKey (gl_token lib) (gl_readFile lib) (au_PublicKeyPath a)")
    (auto simp: route_auth_def NewAuthMiddleware_def Let_def)

text \<open>
  C3. Authentication is decided at the start for good: whatever configurations were loaded since, a
  process that started with authentication answers every request to a path its first configuration
  does not skip with 401 (or 404 where no route matches), and no limiter, balancer, breaker or
  backend has seen it, unless the request bears a token that is good under a key which the file its
  first configuration names has held: a token signed with any other key is as good as none. Turning
  authentication on or off in the file of a running gateway has no effect, and neither has a change
  of the skipped paths or of the key's path.
\<close>

theorem unauthenticated_never_forwarded:
  assumes "load fs getenv unmarshal path = Inr cfg0" and "\<forall>s c. unmarshal s = Some c \<longrightarrow> in_range c"
    and "main_start lib False (Inr cfg0) created added path t0 = Inr p0" and "disk (gl_readFile lib)"
    and "proc_run lib disk (\<lambda>fs. load fs getenv unmarshal path) p0 p"
    and "au_Enabled (cfg_Auth cfg0)" and "\<not> list_ex (HasPrefix (r_Path r)) (au_SkipPaths (cfg_Auth cfg0))"
    and "\<forall>files key. disk files \<longrightarrow> loadPublicKey (gl_token lib) files (au_PublicKeyPath (cfg_Auth cfg0)) = Inr key \<longrightarrow>
      unauthenticated lib env key r"
    and "wd_gw wd = fst (pr_sys p)" and "w_sent w = None"
  shows "\<exists>wd' r' w'. gateway_ServeHTTP lib env upstream wd r w = (wd', r', w', None) \<and> wd_gw wd' = wd_gw wd \<and>
    status_of w' \<in> {401, 404}"
proof (rule gateway_refuses [OF _ assms(10)])
  let ?g = "fst (pr_sys p)"
  have k: "keys_from lib disk (Some (cfg_Auth cfg0)) ?g"
    using proc_keys_run [OF assms(5) main_start_keys [where disk = disk, OF assms(3,4)]] assms(6) by (simp add: start_auth_def)
  from proc_invariant [OF assms(1-3,5)] obtain cfg where "deployed lib cfg (pr_sys p)" by (auto simp: proc_inv_def)
  from reach_ok [OF deployed_reach [OF this]] have ok: "gw_ok ?g" by (simp add: sys_ok_def)
  have "\<exists>key cfg. rt_auth (gw_heap ?g ! ra) = Some (key, cfg) \<and> \<not> isSkipped cfg (r_Path r) \<and> unauthenticated lib env key r"
    if "ra \<in> set (gw_routes ?g)" for ra
  proof -
    have "ra < length (gw_heap ?g)" using ok that by (simp add: gw_ok_def)
    with k obtain files where f: "disk files"
      "route_auth (lib\<lparr>gl_readFile := files\<rparr>) (Some (cfg_Auth cfg0)) = Inr (rt_auth (gw_heap ?g ! ra))"
      by (auto simp: keys_from_def list_all_length)
    from route_auth_enabled [OF f(2) assms(6)] f(1) assms(7,8) show ?thesis by (auto simp: isSkipped_def)
  qed
  with assms(9) show "\<forall>ra \<in> set (gw_routes (wd_gw wd)). \<exists>key cfg. rt_auth (gw_heap (wd_gw wd) ! ra) = Some (key, cfg) \<and>
      \<not> isSkipped cfg (r_Path r) \<and> unauthenticated lib env key r" by simp
qed

definition auth_config :: Config where
  "auth_config = example_config\<lparr>cfg_Auth := \<lparr>au_Enabled = True, au_JWKSURL = [], au_PublicKeyPath = ''pub.pem'',
     au_SkipPaths = [''/health'']\<rparr>\<rparr>"

definition auth_loaded :: Config where
  "auth_loaded = fst (validate auth_config)"

text \<open>The key file holds key 0; the signatures that verify are those of key 1.\<close>

definition auth_lib :: "nat gwlib" where
  "auth_lib = example_lib\<lparr>gl_readFile := (\<lambda>p. Some ''pem''),
     gl_token := toy_lib\<lparr>lib_PEM := (\<lambda>s. Some (''RSA PUBLIC KEY'', [])), lib_PKCS1 := (\<lambda>b. Some 0),
       lib_Verify := (\<lambda>k msg sig. k = 1 \<and> sig = ''s'')\<rparr>\<rparr>"

lemma auth_loads: "load (\<lambda>p. Some ''x'') (\<lambda>v. []) (\<lambda>s. Some auth_config) ''gateway.yaml'' = Inr auth_loaded"
  by (simp add: load_def validate_def auth_loaded_def auth_config_def example_config_def serverDefaults_def Let_def)

lemma auth_loaded_fields:
  "cfg_Routes auth_loaded = cfg_Routes loaded_config"
  "cfg_Auth auth_loaded = \<lparr>au_Enabled = True, au_JWKSURL = [], au_PublicKeyPath = ''pub.pem'', au_SkipPaths = [''/health'']\<rparr>"
  by (simp_all add: auth_loaded_def auth_config_def loaded_config_def example_config_def validate_def serverDefaults_def Let_def)

lemma auth_starts: "\<exists>p. main_start auth_lib False (Inr auth_loaded) True True path t0 = Inr p"
proof -
  have key: "loadPublicKey (gl_token auth_lib) (gl_readFile auth_lib) q = Inr 0" for q
    by (simp add: loadPublicKey_def auth_lib_def)
  have "\<exists>g. main_gateway auth_lib auth_loaded = Inr g"
    by (simp add: main_gateway_def NewGateway_def auth_loaded_fields loaded_routes buildRoute_def lb_New_def newBackend_def
        rl_New_def cb_New_def route_auth_def NewAuthMiddleware_def key Let_def)
  then show ?thesis by (auto simp: main_start_def LoadAndWatch_def)
qed

definition forged :: request where
  "forged = SetRequestHeader ''Authorization'' ''Bearer aA.Yw.cw'' (get_request ''/api'')"

text \<open>A request with a token that is good under key 1 is refused by a gateway whose file holds key 0.\<close>

theorem unauthenticated_never_forwarded_witness:
  "validateToken (gl_token auth_lib) 1 0 ''aA.Yw.cw'' = Inr \<lparr>jc_Sub = ''user-42'', jc_Exp = 1, jc_Iat = 0\<rparr> \<and>
   (\<exists>g wd' r' w'. gateway_ServeHTTP auth_lib example_env (\<lambda>a r. UpError) (example_world\<lparr>wd_gw := g\<rparr>) forged new_writer =
     (wd', r', w', None) \<and> status_of w' \<in> {401, 404})"
proof -
  obtain p where p: "main_start auth_lib False (Inr auth_loaded) True True ''gateway.yaml'' 0 = Inr p" using auth_starts by blast
  have range: "\<forall>s c. Some auth_config = Some c \<longrightarrow> in_range c"
    using example_in_range by (simp add: auth_config_def in_range_def)
  let ?disk = "\<lambda>files. files ''pub.pem'' = Some ''pem''"
  have disk: "?disk (gl_readFile auth_lib)" by (simp add: auth_lib_def)
  have on: "au_Enabled (cfg_Auth auth_loaded)" by (simp add: auth_loaded_fields)
  have path: "\<not> list_ex (HasPrefix (r_Path forged)) (au_SkipPaths (cfg_Auth auth_loaded))"
    by (simp add: auth_loaded_fields forged_def, simp add: get_request_def SetRequestHeader_def)
  have keys: "\<forall>files key. ?disk files \<longrightarrow> loadPublicKey (gl_token auth_lib) files (au_PublicKeyPath (cfg_Auth auth_loaded)) = Inr key \<longrightarrow>
      unauthenticated auth_lib example_env key forged"
    by (auto simp: auth_loaded_fields loadPublicKey_def auth_lib_def unauthenticated_def good_token_def)
  have gw: "wd_gw (example_world\<lparr>wd_gw := fst (pr_sys p)\<rparr>) = fst (pr_sys p)" "w_sent new_writer = None"
    by (simp_all add: new_writer_def)
  have "validateToken (gl_token auth_lib) 1 0 ''aA.Yw.cw'' = Inr \<lparr>jc_Sub = ''user-42'', jc_Exp = 1, jc_Iat = 0\<rparr>"
    by code_simp
  with unauthenticated_never_forwarded [where disk = ?disk, OF auth_loads range p disk run_refl on path keys gw,
      of "\<lambda>a r. UpError"] show ?thesis by blast
qed

text \<open>
  C30. A configuration that authenticates by \<open>jwks_url\<close> alone passes validation and never starts: the
  routes are built with the path of a public key, which is empty, and no such file can be read.
\<close>

theorem jwks_only_never_starts:
  assumes "load fs getenv unmarshal path = Inr cfg" and "au_Enabled (cfg_Auth cfg)" and "au_PublicKeyPath (cfg_Auth cfg) = []"
    and "cfg_Routes cfg \<noteq> []" and "gl_readFile lib [] = None"
  shows "au_JWKSURL (cfg_Auth cfg) \<noteq> [] \<and> (\<exists>e. main_start lib False (Inr cfg) True True path t0 = Inl (BuildFatal e))"
proof -
  have "au_JWKSURL (cfg_Auth cfg) \<noteq> []"
    using load_normal_cfg(1) [OF assms(1)] assms(2,3) by (simp add: config_normal_def auth_valid_def)
  moreover have "route_auth lib (Some (cfg_Auth cfg)) = Inl ReadKey"
    using assms(2,3,5) by (simp add: route_auth_def NewAuthMiddleware_def loadPublicKey_def Let_def)
  then have fails: "\<exists>g e. buildRoute lib c g0 = (g, Inl e)" if "gw_authConfig g0 = Some (cfg_Auth cfg)" for c g0
    using that by (cases rule: buildRoute_cases [where lib = lib and cfg = c and g = g0]) auto
  obtain c cs where "cfg_Routes cfg = c # cs" using assms(4) by (cases "cfg_Routes cfg") auto
  with fails [of "\<lparr>gw_store = [], gw_checkers = [], gw_heap = [], gw_routes = [], gw_authConfig = Some (cfg_Auth cfg),
      gw_traced = tc_Enabled (cfg_Tracing cfg)\<rparr>" c] assms(2)
  have "\<exists>e. main_gateway lib cfg = Inl e" by (auto simp: main_gateway_def NewGateway_def)
  then have "\<exists>e. main_start lib False (Inr cfg) True True path t0 = Inl (BuildFatal e)"
    by (auto simp: main_start_def LoadAndWatch_def)
  ultimately show ?thesis by blast
qed

theorem jwks_only_never_starts_witness:
  "\<exists>cfg e. load (\<lambda>p. Some ''x'') (\<lambda>v. []) (\<lambda>s. Some (auth_config\<lparr>cfg_Auth := \<lparr>au_Enabled = True, au_JWKSURL = ''https://idp/jwks'',
       au_PublicKeyPath = [], au_SkipPaths = []\<rparr>\<rparr>)) ''gateway.yaml'' = Inr cfg \<and>
     main_start example_lib False (Inr cfg) True True ''gateway.yaml'' 0 = Inl (BuildFatal e)"
proof -
  obtain cfg where c: "load (\<lambda>p. Some ''x'') (\<lambda>v. []) (\<lambda>s. Some (auth_config\<lparr>cfg_Auth := \<lparr>au_Enabled = True,
      au_JWKSURL = ''https://idp/jwks'', au_PublicKeyPath = [], au_SkipPaths = []\<rparr>\<rparr>)) ''gateway.yaml'' = Inr cfg"
    and f: "au_Enabled (cfg_Auth cfg)" "au_PublicKeyPath (cfg_Auth cfg) = []" "cfg_Routes cfg \<noteq> []"
    by (simp add: load_def auth_config_def validate_def example_config_def serverDefaults_def Let_def)
  from jwks_only_never_starts [OF c f, of example_lib 0] c show ?thesis by (auto simp: example_lib_def)
qed

subsection \<open>Shutting down\<close>

lemma run_step: "proc_run lib disk loader p p' \<Longrightarrow> proc_step lib disk loader p' p'' \<Longrightarrow> proc_run lib disk loader p p''"
  unfolding proc_run_def by (rule rtranclp.rtrancl_into_rtrancl)

lemma closed [simp]: "w_done (watcher_Close w)"
  by (simp add: watcher_Close_def)

text \<open>What holds from the signal on, when the deadline is \<open>d\<close>.\<close>

fun stopping :: "time \<Rightarrow> phase \<Rightarrow> 'k process \<Rightarrow> bool" where
  "stopping d AwaitSignal p = False"
| "stopping d (StoppingAdmin d') p = (d' = d)"
| "stopping d (StoppingMain d') p = (d' = d)"
| "stopping d (Returned ok) p = (w_done (pr_watcher p) \<and> (if ok then snd (pr_sys p) = [] else d \<le> pr_now p))"
| "stopping d Died p = True"

lemma apply_update_fields [simp]:
  "pr_phase (apply_update lib c p) = pr_phase p" "pr_now (apply_update lib c p) = pr_now p"
  by (simp_all add: apply_update_def case_prod_beta Let_def)

lemma stopping_live: "live ph \<Longrightarrow> stopping d ph p' \<longleftrightarrow> stopping d ph p"
  by (cases ph) simp_all

lemma stopping_step:
  assumes "proc_step lib disk loader p p'" and "stopping d (pr_phase p) p"
  shows "stopping d (pr_phase p') p'"
  using assms
proof (induction rule: proc_step.induct)
  case (main_down p d' ok)
  then show ?case by (auto split: if_splits)
qed (simp_all, (metis stopping_live)+)

lemma signal_step:
  assumes "proc_step lib disk loader p q" and "pr_phase p = AwaitSignal" and "pr_phase q = StoppingAdmin d"
  shows "d = pr_now p + shutdownTimeout"
  using assms by (cases rule: proc_step.cases) simp_all

lemma time_passes: "proc_step lib disk loader p p' \<Longrightarrow> pr_now p \<le> pr_now p'"
  by (induction rule: proc_step.induct) simp_all

subsection \<open>Runs of the main goroutine\<close>

text \<open>
  A run is an infinite sequence of states in which steps may be repeated; it is fair to the main
  goroutine if that does not wait forever in a \<open>Shutdown\<close> that could return.
\<close>

definition main_can :: "'k gwlib \<Rightarrow> ((string \<Rightarrow> string option) \<Rightarrow> bool) \<Rightarrow>
    ((string \<Rightarrow> string option) \<Rightarrow> load_error + Config) \<Rightarrow> 'k process \<Rightarrow> bool" where
  "main_can lib disk loader p \<longleftrightarrow>
     (\<exists>p'. proc_step lib disk loader p p' \<and> pr_phase p' \<noteq> pr_phase p \<and> pr_phase p' \<noteq> Died)"

definition proc_path :: "'k gwlib \<Rightarrow> ((string \<Rightarrow> string option) \<Rightarrow> bool) \<Rightarrow>
    ((string \<Rightarrow> string option) \<Rightarrow> load_error + Config) \<Rightarrow> (nat \<Rightarrow> 'k process) \<Rightarrow> bool" where
  "proc_path lib disk loader \<sigma> \<longleftrightarrow> (\<forall>i. \<sigma> (Suc i) = \<sigma> i \<or> proc_step lib disk loader (\<sigma> i) (\<sigma> (Suc i)))"

definition fair_main :: "'k gwlib \<Rightarrow> ((string \<Rightarrow> string option) \<Rightarrow> bool) \<Rightarrow>
    ((string \<Rightarrow> string option) \<Rightarrow> load_error + Config) \<Rightarrow> (nat \<Rightarrow> 'k process) \<Rightarrow> bool" where
  "fair_main lib disk loader \<sigma> \<longleftrightarrow>
     (\<forall>i. (\<forall>j \<ge> i. main_can lib disk loader (\<sigma> j)) \<longrightarrow> (\<exists>j \<ge> i. pr_phase (\<sigma> (Suc j)) \<noteq> pr_phase (\<sigma> j)))"

lemma path_mono:
  assumes "proc_path lib disk loader \<sigma>" and "i \<le> j"
  shows "pr_now (\<sigma> i) \<le> pr_now (\<sigma> j)"
  using assms(2)
proof (induction rule: dec_induct)
  case (step n)
  with assms(1) time_passes show ?case unfolding proc_path_def by (metis order_trans)
qed simp

lemma path_stopping:
  assumes "proc_path lib disk loader \<sigma>" and "stopping d (pr_phase (\<sigma> 0)) (\<sigma> 0)"
  shows "stopping d (pr_phase (\<sigma> i)) (\<sigma> i)"
proof (induction i)
  case (Suc i)
  with assms(1) stopping_step show ?case unfolding proc_path_def by metis
qed (rule assms(2))

lemma path_run: "proc_path lib disk loader \<sigma> \<Longrightarrow> proc_run lib disk loader p (\<sigma> 0) \<Longrightarrow> proc_run lib disk loader p (\<sigma> i)"
proof (induction i)
  case (Suc i)
  then show ?case unfolding proc_path_def using run_step by metis
qed

text \<open>Idle servers, or the deadline, let the main goroutine go on.\<close>

lemma main_goes_on:
  assumes "stopping d (pr_phase p) p" and "live (pr_phase p)"
    and "pr_adminBusy p = 0 \<and> snd (pr_sys p) = [] \<or> d \<le> pr_now p"
  shows "main_can lib disk loader p"
proof (cases "pr_phase p")
  case (StoppingAdmin d')
  with assms have "d' = d" "pr_adminBusy p = 0 \<or> d \<le> pr_now p" by auto
  with StoppingAdmin have "proc_step lib disk loader p (p\<lparr>pr_phase := StoppingMain d\<rparr>)" by (auto intro: admin_down)
  then show ?thesis using StoppingAdmin unfolding main_can_def by force
next
  case (StoppingMain d')
  with assms have d: "d' = d" "snd (pr_sys p) = [] \<or> d \<le> pr_now p" by auto
  let ?ok = "snd (pr_sys p) = []"
  have "if ?ok then snd (pr_sys p) = [] else d \<le> pr_now p" using d(2) by auto
  from main_down [OF StoppingMain [unfolded d(1)] this, of lib disk loader] show ?thesis
    using StoppingMain unfolding main_can_def by force
qed (use assms in auto)

text \<open>The main goroutine never goes back, and from each \<open>Shutdown\<close> it goes to the next or out.\<close>

fun rank :: "phase \<Rightarrow> nat" where
  "rank (StoppingAdmin d) = 2"
| "rank (StoppingMain d) = 1"
| "rank ph = 0"

lemma rank_step:
  "proc_step lib disk loader p p' \<Longrightarrow> stopping d (pr_phase p) p \<Longrightarrow>
   pr_phase p' = pr_phase p \<or> rank (pr_phase p') < rank (pr_phase p) \<or> \<not> live (pr_phase p')"
  by (induction rule: proc_step.induct) simp_all

lemma rank_zero: "live ph \<Longrightarrow> stopping d ph p \<Longrightarrow> 0 < rank ph"
  by (cases ph) simp_all

lemma fair_returns:
  assumes "proc_path lib disk loader \<sigma>" and "stopping d (pr_phase (\<sigma> 0)) (\<sigma> 0)" and "fair_main lib disk loader \<sigma>"
    and "d \<le> pr_now (\<sigma> i)"
  shows "\<exists>j. \<not> live (pr_phase (\<sigma> j))"
proof (rule ccontr)
  assume "\<nexists>j. \<not> live (pr_phase (\<sigma> j))"
  then have alive: "live (pr_phase (\<sigma> j))" for j by blast
  note s = path_stopping [OF assms(1,2)]
  have falls: "\<exists>k \<ge> j. rank (pr_phase (\<sigma> k)) < rank (pr_phase (\<sigma> j))" if "i \<le> j" for j
  proof -
    have keeps: "rank (pr_phase (\<sigma> m)) \<le> rank (pr_phase (\<sigma> j))" if "j \<le> m" for m
      using that
    proof (induction rule: dec_induct)
      case (step n)
      have "rank (pr_phase (\<sigma> (Suc n))) \<le> rank (pr_phase (\<sigma> n))"
        using assms(1) rank_step [OF _ s [of n]] alive [of "Suc n"] unfolding proc_path_def by (metis order_refl less_imp_le)
      with step.IH show ?case by (rule order_trans [rotated])
    qed simp
    have "main_can lib disk loader (\<sigma> m)" if "j \<le> m" for m
      using main_goes_on [OF s alive] path_mono [OF assms(1), of i m] assms(4) that \<open>i \<le> j\<close> by (meson order_trans)
    with assms(3) obtain m where m: "j \<le> m" "pr_phase (\<sigma> (Suc m)) \<noteq> pr_phase (\<sigma> m)" unfolding fair_main_def by blast
    then have "rank (pr_phase (\<sigma> (Suc m))) < rank (pr_phase (\<sigma> m))"
      using assms(1) rank_step [OF _ s [of m]] alive [of "Suc m"] unfolding proc_path_def by metis
    with keeps [OF m(1)] m(1) show ?thesis by (intro exI [of _ "Suc m"]) simp
  qed
  have "\<exists>k \<ge> i. rank (pr_phase (\<sigma> k)) + n \<le> rank (pr_phase (\<sigma> i))" for n
  proof (induction n)
    case (Suc n)
    then obtain k where k: "i \<le> k" "rank (pr_phase (\<sigma> k)) + n \<le> rank (pr_phase (\<sigma> i))" by blast
    with falls [OF k(1)] obtain k' where "k \<le> k'" "rank (pr_phase (\<sigma> k')) < rank (pr_phase (\<sigma> k))" by blast
    with k show ?case by (intro exI [of _ k']) simp
  qed auto
  from this [of "Suc (rank (pr_phase (\<sigma> i)))"] show False by simp
qed

text \<open>
  C26. A signal ends the process, and cuts no request short for 30 seconds. Whatever clients, backends,
  files and both servers do after the signal, \<open>main\<close> returns before 30 seconds have passed only if no
  request is in flight, and then every in-flight counter is zero; the watcher is closed when it does.
  Whenever both servers are idle or the 30 seconds have passed, the main goroutine can go on, and every
  run that is fair to it and in which the 30 seconds pass ends: it cannot be kept waiting by requests, probes
  or updates. Only the failure of a listener ends the process otherwise.
\<close>

theorem shutdown_returns:
  assumes "load fs getenv unmarshal path = Inr cfg0" and "\<forall>s c. unmarshal s = Some c \<longrightarrow> in_range c"
    and "main_start lib False (Inr cfg0) created added path t0 = Inr p0" and "loader = (\<lambda>fs. load fs getenv unmarshal path)"
    and "proc_run lib disk loader p0 p" and "pr_phase p = AwaitSignal"
    and "proc_step lib disk loader p (\<sigma> 0)" and "pr_phase (\<sigma> 0) = StoppingAdmin d" and "proc_path lib disk loader \<sigma>"
  shows "(\<forall>i ok. pr_phase (\<sigma> i) = Returned ok \<longrightarrow> w_done (pr_watcher (\<sigma> i)) \<and>
      (if ok then snd (pr_sys (\<sigma> i)) = [] \<and>
         (\<forall>a < length (gw_store (fst (pr_sys (\<sigma> i)))). be_Inflight (gw_store (fst (pr_sys (\<sigma> i)))) a = 0)
       else pr_now p + 30 * time_Second \<le> pr_now (\<sigma> i))) \<and>
    (\<forall>i. live (pr_phase (\<sigma> i)) \<longrightarrow>
      pr_adminBusy (\<sigma> i) = 0 \<and> snd (pr_sys (\<sigma> i)) = [] \<or> pr_now p + 30 * time_Second \<le> pr_now (\<sigma> i) \<longrightarrow>
      main_can lib disk loader (\<sigma> i)) \<and>
    (fair_main lib disk loader \<sigma> \<longrightarrow> (\<exists>i. pr_now p + 30 * time_Second \<le> pr_now (\<sigma> i)) \<longrightarrow>
      (\<exists>i. pr_phase (\<sigma> i) = Died \<or> (\<exists>ok. pr_phase (\<sigma> i) = Returned ok)))"
proof -
  let ?d = "pr_now p + 30 * time_Second"
  have s0: "stopping ?d (pr_phase (\<sigma> 0)) (\<sigma> 0)"
    using signal_step [OF assms(7,6,8)] assms(8) by (simp add: shutdownTimeout_def time_Second_def)
  note s = path_stopping [OF assms(9) s0]
  have returned: "w_done (pr_watcher (\<sigma> i)) \<and> (if ok then snd (pr_sys (\<sigma> i)) = [] else ?d \<le> pr_now (\<sigma> i))"
    if "pr_phase (\<sigma> i) = Returned ok" for i ok
    using s [of i] that by simp
  have zero: "be_Inflight (gw_store (fst (pr_sys (\<sigma> i)))) a = 0"
    if "snd (pr_sys (\<sigma> i)) = []" "a < length (gw_store (fst (pr_sys (\<sigma> i))))" for i a
  proof -
    from path_run [OF assms(9) run_step [OF assms(5,7)]] have "proc_run lib disk (\<lambda>fs. load fs getenv unmarshal path) p0 (\<sigma> i)"
      by (simp add: assms(4))
    from proc_invariant [OF assms(1-3) this] obtain cfg where "deployed lib cfg (pr_sys (\<sigma> i))"
      by (auto simp: proc_inv_def)
    from reach_ok [OF deployed_reach [OF this]] that show ?thesis
      by (simp add: sys_ok_def counts_ok_def be_Inflight_def in_i64_def)
  qed
  have ends: "\<exists>i. pr_phase (\<sigma> i) = Died \<or> (\<exists>ok. pr_phase (\<sigma> i) = Returned ok)"
    if "fair_main lib disk loader \<sigma>" "?d \<le> pr_now (\<sigma> i)" for i
    using fair_returns [OF assms(9) s0 that] by (metis live.simps(3-5) phase.exhaust)
  show ?thesis
    by (intro conjI allI impI) (use returned zero main_goes_on [OF s] ends in \<open>auto split: if_splits\<close>)
qed

lemma returned_stays: "pr_phase p = Returned ok \<Longrightarrow> \<not> main_can lib disk loader p"
  unfolding main_can_def by (auto elim: proc_step.cases)

text \<open>A run that sits out the 30 seconds and then returns.\<close>

definition sits_out :: "'k process \<Rightarrow> nat \<Rightarrow> 'k process" where
  "sits_out q i =
     (let late = q\<lparr>pr_now := pr_now q + 30 * time_Second\<rparr>
      in if i = 0 then q else if i = 1 then late else if i = 2 then late\<lparr>pr_phase := StoppingMain (pr_now late)\<rparr>
         else late\<lparr>pr_phase := Returned True, pr_watcher := watcher_Close (pr_watcher q)\<rparr>)"

lemma sits_out_path:
  assumes "pr_phase q = StoppingAdmin (pr_now q + 30 * time_Second)" and "snd (pr_sys q) = []"
  shows "proc_path lib disk loader (sits_out q)"
proof -
  let ?late = "q\<lparr>pr_now := pr_now q + 30 * time_Second\<rparr>"
  have "proc_step lib disk loader q ?late" using assms(1) by (intro passing) (simp_all add: time_Second_def)
  moreover have "proc_step lib disk loader ?late (?late\<lparr>pr_phase := StoppingMain (pr_now ?late)\<rparr>)"
    using assms(1) by (intro admin_down) simp_all
  moreover have "proc_step lib disk loader (?late\<lparr>pr_phase := StoppingMain (pr_now ?late)\<rparr>)
      (?late\<lparr>pr_phase := Returned True, pr_watcher := watcher_Close (pr_watcher q)\<rparr>)"
    using main_down [of "?late\<lparr>pr_phase := StoppingMain (pr_now ?late)\<rparr>" _ True] assms(2) by simp
  ultimately show ?thesis
    by (auto simp: proc_path_def sits_out_def Let_def numeral_2_eq_2 less_Suc_eq_0_disj)
qed

lemma sits_out_fair: "fair_main lib disk loader (sits_out q)"
proof -
  have "\<not> main_can lib disk loader (sits_out q (i + 3))" for i
    by (rule returned_stays [where ok = True]) (simp add: sits_out_def Let_def)
  moreover have "i \<le> i + 3" for i :: nat by simp
  ultimately show ?thesis unfolding fair_main_def by blast
qed

theorem shutdown_returns_witness:
  "\<exists>(\<sigma> :: nat \<Rightarrow> nat process) i ok. pr_phase (\<sigma> 0) = StoppingAdmin (30 * time_Second) \<and>
     fair_main example_lib (\<lambda>files. True) (\<lambda>fs. load fs (\<lambda>v. []) (\<lambda>s. Some example_config) ''gateway.yaml'') \<sigma> \<and>
     pr_phase (\<sigma> i) = Returned ok \<and> w_done (pr_watcher (\<sigma> i))"
proof -
  let ?loader = "\<lambda>fs. load fs (\<lambda>v. []) (\<lambda>s. Some example_config) ''gateway.yaml''" and ?disk = "\<lambda>files. True"
  obtain p where p: "main_start example_lib False (Inr loaded_config) True True ''gateway.yaml'' 0 = Inr p"
      "pr_phase p = AwaitSignal" "snd (pr_sys p) = []" using example_starts by blast
  then have now: "pr_now p = 0" by (auto simp: main_start_def LoadAndWatch_def split: sum.splits)
  let ?q = "p\<lparr>pr_phase := StoppingAdmin (pr_now p + shutdownTimeout)\<rparr>" and ?s = "sits_out (p\<lparr>pr_phase := StoppingAdmin (pr_now p + shutdownTimeout)\<rparr>)"
  have q: "?s 0 = ?q" "pr_phase (?s 0) = StoppingAdmin (30 * time_Second)"
    by (simp_all add: sits_out_def now shutdownTimeout_def)
  have sig: "proc_step example_lib ?disk ?loader p (?s 0)" unfolding q(1) by (rule signalled [OF p(2)])
  have range: "\<forall>s c. Some example_config = Some c \<longrightarrow> in_range c" using example_in_range by simp
  have run: "proc_path example_lib ?disk ?loader ?s"
    by (rule sits_out_path) (simp_all add: p(3) now shutdownTimeout_def)
  have late: "pr_now p + 30 * time_Second \<le> pr_now (?s 1)" by (simp add: sits_out_def now)
  note r = shutdown_returns [OF example_loads range p(1) refl run_refl p(2) sig q(2) run]
  from r sits_out_fair late obtain i where "pr_phase (?s i) = Died \<or> (\<exists>ok. pr_phase (?s i) = Returned ok)" by blast
  moreover have "pr_phase (?s i) \<noteq> Died" by (simp add: sits_out_def Let_def)
  ultimately obtain ok where ok: "pr_phase (?s i) = Returned ok" by blast
  with r have "w_done (pr_watcher (?s i))" by blast
  with ok q(2) sits_out_fair show ?thesis by blast
qed

end
