(* ===== verification/Spec2Isabelle.thy ===== *)
theory Spec2Isabelle
  imports BalancerProps WeightedProps WindowProps TokenProps RedisScript Collector CutShort RequestSteps SelfHealing Process
begin

text \<open>
  A verification library of gateway-pro, an HTTP API gateway written in Go.

  \<^bold>\<open>The program.\<close> A request enters through \<open>middleware.Recovery\<close> (\<open>cmd/gateway/main.go\<close>) into
  \<open>Gateway.ServeHTTP\<close> (\<open>internal/proxy/gateway.go\<close>), which picks the route with the longest matching
  prefix. The route's chain is RequestID, Tracing, Logger, Metrics, authentication
  (\<open>internal/middleware\<close>) and then \<open>serveProxy\<close>: rate limiter (\<open>internal/ratelimiter\<close>), load balancer
  (\<open>internal/loadbalancer\<close>), circuit breaker of the chosen backend (\<open>internal/circuitbreaker\<close>), and a
  reverse proxy whose outcome is reported to the breaker and to the backend's alive flag. Health
  checkers (\<open>internal/health\<close>) set the same flags. A watcher (\<open>internal/config\<close>) delivers changed
  configurations, from which \<open>Reload\<close> builds a new set of routes. An admin server shows readiness,
  backends and traces (\<open>internal/admin\<close>).

  \<^bold>\<open>Theories.\<close> Those that model code name the source file in their opening text; the others build on them.

  \<^item> \<open>Prelude\<close>: panics, 64-bit integers (\<open>i64\<close> wraps, \<open>in_i64\<close> is the range), times and durations in
    nanoseconds (\<open>time_Sub\<close> saturates), truncated division, \<open>time.ParseDuration\<close>, running a list of
    calls. \<open>Float64\<close>: IEEE binary64 with its roundings. \<open>GoTime\<close>: parsing of durations.
    \<open>Strings\<close>, \<open>Http\<close>, \<open>Handler\<close>, \<open>ReverseProxy\<close>: what the program uses of \<open>strings\<close>,
    \<open>net/http\<close> and \<open>net/http/httputil\<close>, written out; a response writer refuses a body where the status
    has none and bytes beyond a declared \<open>Content-Length\<close>.
  \<^item> \<open>Config\<close> and \<open>ConfigWatch\<close>: \<open>config.go\<close>, its structs, \<open>validate\<close>, \<open>load\<close>, and the watcher goroutine as
    a step relation whose events are the ready cases of its \<open>select\<close>.
  \<^item> \<open>CircuitBreaker\<close>: the breaker, and a specification that remembers the whole history of reports.
  \<^item> \<open>LoadBalancer\<close> (model), \<open>BalancerProps\<close> and \<open>WeightedProps\<close> (what the four strategies guarantee).
    Backends are shared objects, so they live in a store and balancers hold their addresses. The
    locale of \<open>BalancerProps\<close> states the contract of a strategy and is interpreted on the model.
  \<^item> \<open>RateLimiter\<close> (model), \<open>WindowProps\<close>, \<open>TokenProps\<close> (the two local limiters, through a locale of
    keyed limiters interpreted on both) and \<open>RedisScript\<close> (the Lua script of the distributed one).
  \<^item> \<open>TraceStore\<close>, \<open>Middleware\<close>, \<open>Tracing\<close>, \<open>Auth\<close>: the middleware package. A middleware maps a handler to
    a handler; a handler takes the shared world, the request and the response writer and returns
    them with the panic that ended it, if one did.
  \<^item> \<open>Health\<close>: a checker as a step relation; a round of probes finishes in any order.
  \<^item> \<open>Gateway\<close> (serving) and \<open>Routes\<close> (building, reloading, admin handlers): \<open>gateway.go\<close>. Routes,
    backends and checkers are heaps of records addressed by position.
  \<^item> \<open>GatewayProps\<close>: dispatch, the order of the gates, what one failure does, what backends are told.
    \<open>Interleaving\<close>: the gateway with its requests in flight, checkers and reloads as a transition
    system, and the invariant of its reachable states. \<open>Deployment\<close>: the configuration the routes
    implement in each of them, down to limiter, strategy, weights and breakers, and what a reload does
    besides. \<open>SelfHealing\<close>: the checkers of current routes, how a route comes back, and probes that run
    while a reload still builds its routes.
    \<open>Observability\<close>: log, metrics, traces and request IDs over the whole chain. \<open>CutShort\<close>: what a client
    is sent when a backend's answer breaks off. \<open>Admin\<close>: \<open>traces.go\<close> and the mounting of the admin
    handlers. \<open>Collector\<close>: the POST that a batch of spans becomes.
  \<^item> \<open>RequestSteps\<close>: the same system with \<open>serveProxy\<close> cut at every access to shared state; a request is at
    a program counter and any other request, probe or reload may come between two of its steps. Two
    lemmas tie it to the other models: it agrees with \<open>serveProxy\<close> on a request alone, and it reaches
    every state that \<open>Interleaving\<close> does.
  \<^item> \<open>Process\<close>: \<open>main.go\<close>. How the process starts (\<open>main_start\<close>, with every way it may not), the goroutine
    that applies updates (\<open>apply_update\<close>) and the main goroutine from the signal to the return as the
    step relation \<open>proc_step\<close> over the watcher, the gateway with its requests, the requests at the admin
    server, the time and a phase. Each reload reads the key file anew; \<open>disk\<close> is a predicate that the
    file systems read satisfy.

  \<^bold>\<open>What the theorems show.\<close> Gateway: the gates stand in order and a closed gate changes nothing
  behind it; in-flight counters are exact, every pointer is valid and the routes are those of the
  configuration applied last in all reachable states; a route whose backends were marked dead
  recovers with the next good round of its checker, which always runs, over these backends and no
  others; every answered request is observed once, with the status the client got, and a panicking
  one not at all; an answer that breaks off is passed off as a success; the dispatch is by longest
  prefix. Middleware: exactly which tokens are accepted, what passes without one, what the tracing
  headers, the trace store and the exporter preserve, and that the exporter's \<open>Stop\<close> ends. Breaker:
  refinement of a specification over the history, no panics, the probe quota. Balancers: only alive
  backends, exact weighted periods, fairness. Limiters: refinement of specifications over all
  admissions, bounds on what passes in an interval of time, the panicking and all-refusing
  configurations. Configuration: loading normalises and is idempotent, the first error is the one
  reported, only valid configurations are delivered. Process: what is served was loaded and
  validated; authentication stays as it was at the start, with keys that the configured file has held;
  a signalled process returns before 30 seconds only with no request left behind, and nothing can keep
  it from returning after that. Several theorems state a defect exactly as the
  code has it (the doubled \<open>X-Forwarded-For\<close>, leaked checkers, the stale configuration, paths without a slash, the
  herd of \<open>least_conn\<close>).

  \<^bold>\<open>Conventions and bounds.\<close> A method that runs under one lock is one step; the gates of a request,
  each under a lock or atomic of its own, are one step in \<open>Interleaving\<close> and one each in \<open>RequestSteps\<close>. Clock readings and
  random draws are arguments. A slice is shorter than \<open>2 ^ 32\<close> where an index of that width is formed,
  and fewer than \<open>2 ^ 63\<close> requests are in flight. There is no fuel: all recursion is structural or has
  a termination proof (\<open>ex_drain\<close>, the decimal digits, the duration parser). \<open>ex_drain\<close> is the loop
  after \<open>Stop\<close> without ticks; \<open>exporter_stop_ends\<close> and \<open>collector_gets_spans\<close> cover runs with any ticks in
  between. A reload is one step: a checker it makes may probe before the routes are published, which
  by \<open>early_probe\<close> comes to the same as probing right after. In \<open>Process\<close> time passes between any two
  steps; that the main goroutine ends is shown for infinite runs in which it is not passed over
  forever (\<open>fair_main\<close>). Floating point operations are not fused, as on amd64, for which \<open>deploy/docker/Dockerfile\<close> builds.

  \<^bold>\<open>Parameters.\<close> Code that is not in the repository is an argument of the model: YAML decoding, the
  file system and environment, JSON, RSA with SHA-256, PEM and X.509, \<open>url.Parse\<close>, the network behind a
  backend, the Redis server's commands (whose documented laws are the hypothesis \<open>sorted_set_laws\<close>),
  and the JSON encoder and Prometheus handler of the admin server. \<open>os.ReadFile\<close> fails on the empty
  path (hypothesis of \<open>jwks_only_never_starts\<close>), and what the YAML decoder returns fits the types of the
  Go structs and lists fewer than \<open>2 ^ 32\<close> backends (\<open>in_range\<close>). The transport never returns an
  informational response (hypothesis \<open>final_answer\<close>, documented behaviour of \<open>net/http\<close>).

  \<^bold>\<open>Not modelled.\<close> In \<open>main\<close>: parsing the flags and building the zap logger; the listeners and what
  \<open>http.Server\<close> does with its timeouts. Inside \<open>ReverseProxy\<close>: protocol upgrades (they fail behind
  \<open>captureStatus\<close>, which the model does say), informational responses, trailers, \<open>RawPath\<close> and query
  cleaning. A body here is what the server accepts from the handler; that it sends none of it in
  answer to HEAD is left out. Timeouts of the transport appear as the error an upstream may answer with. A scan of a
  balancer over the alive flags is one step, although the flags are atomics of their own; so are
  the writes a reload makes before it publishes its routes, which nobody else sees. Deployment
  files, dashboards and documentation hold no code.
\<close>

end
